(* ===== verification/Prelude.thy ===== *)
theory Prelude
  imports Main "HOL-Library.Sublist" "HOL-Library.AList" "HOL-Library.Word"
    "HOL-Library.List_Lexorder" "HOL-Library.Char_ord"
begin

text \<open>
  The vocabulary every component theory shares.  Go strings are byte sequences, and so is
  the HOL type \<open>string\<close> (a list of 8-bit characters); \<open>len\<close> counts bytes in both.
  The theory holds the part of Go's \<^verbatim>\<open>strings\<close>, \<^verbatim>\<open>strconv\<close> and
  \<^verbatim>\<open>net/url\<close> packages that the program calls, error results as sums with their
  sequencing operators, and the two hint collections of the development:
  \<open>go_simps\<close> (equations of the string functions) and \<open>result_simps\<close> (inversion of
  error-returning code).  \<^verbatim>\<open>HasPrefix\<close>, \<^verbatim>\<open>HasSuffix\<close> and
  \<^verbatim>\<open>Contains\<close> are the library's \<open>prefix\<close>, \<open>suffix\<close> and \<open>sublist\<close>.
\<close>

named_theorems go_simps "equations and facts on the model of Go's string functions"
named_theorems result_simps "inversion of error-returning code"

section \<open>Error results\<close>

text \<open>A Go function returning \<^verbatim>\<open>(T, error)\<close> is a sum: \<open>Inl\<close> the error.\<close>

type_synonym ('e, 'a) result = "'e + 'a"

definition bindR :: "('e, 'a) result \<Rightarrow> ('a \<Rightarrow> ('e, 'b) result) \<Rightarrow> ('e, 'b) result" where
  "bindR r f = (case r of Inl e \<Rightarrow> Inl e | Inr a \<Rightarrow> f a)"

text \<open>\<open>refuse b e r\<close> is the early return \<^verbatim>\<open>if b { return e }\<close> before \<open>r\<close>.\<close>

definition refuse :: "bool \<Rightarrow> 'e \<Rightarrow> ('e, 'a) result \<Rightarrow> ('e, 'a) result" where
  "refuse b e r = (if b then Inl e else r)"

fun foldR :: "('a \<Rightarrow> 's \<Rightarrow> ('e, 's) result) \<Rightarrow> 'a list \<Rightarrow> 's \<Rightarrow> ('e, 's) result" where
  "foldR f [] s = Inr s"
| "foldR f (x # xs) s = bindR (f x s) (foldR f xs)"

definition ok :: "('e, 'a) result \<Rightarrow> bool" where
  "ok r = (case r of Inl _ \<Rightarrow> False | Inr _ \<Rightarrow> True)"

lemma bindR_simps [simp]:
  "bindR (Inl e) f = Inl e" "bindR (Inr a) f = f a"
  by (simp_all add: bindR_def)

lemma bindR_Inr [result_simps]:
  "bindR r f = Inr b \<longleftrightarrow> (\<exists>a. r = Inr a \<and> f a = Inr b)"
  by (cases r) auto

lemma bindR_Inl [result_simps]:
  "bindR r f = Inl e \<longleftrightarrow> r = Inl e \<or> (\<exists>a. r = Inr a \<and> f a = Inl e)"
  by (cases r) auto

lemma refuse_Inr [result_simps]: "refuse b e r = Inr a \<longleftrightarrow> \<not> b \<and> r = Inr a"
  by (simp add: refuse_def)

lemma refuse_Inl [result_simps]: "refuse b e r = Inl d \<longleftrightarrow> b \<and> d = e \<or> \<not> b \<and> r = Inl d"
  by (auto simp: refuse_def)

lemma refuse_simps [simp]: "refuse True e r = Inl e" "refuse False e r = r"
  by (simp_all add: refuse_def)

lemma ok_simps [simp]: "ok (Inr a)" "\<not> ok (Inl e)"
  by (simp_all add: ok_def)

lemma ok_iff: "ok r \<longleftrightarrow> (\<exists>a. r = Inr a)"
  by (cases r) auto

lemma foldR_append: "foldR f (xs @ ys) s = bindR (foldR f xs s) (foldR f ys)"
proof (induction xs arbitrary: s)
  case (Cons x xs)
  then show ?case by (cases "f x s") auto
qed simp

text \<open>A loop invariant carried by every iteration holds of the loop's result.\<close>

lemma foldR_invariant:
  assumes "foldR f xs s = Inr t" and "P s"
    and "\<And>x u v. x \<in> set xs \<Longrightarrow> P u \<Longrightarrow> f x u = Inr v \<Longrightarrow> P v"
  shows "P t"
  using assms
proof (induction xs arbitrary: s)
  case (Cons x xs)
  then obtain u where "f x s = Inr u" "foldR f xs u = Inr t"
    by (auto simp: result_simps)
  with Cons show ?case by (metis list.set_intros)
qed simp

text \<open>An error of a loop is an error of one of its iterations.\<close>

lemma foldR_error:
  assumes "foldR f xs s = Inl e"
  obtains x u where "x \<in> set xs" "f x u = Inl e"
  using assms by (induction xs arbitrary: s) (auto simp: result_simps)

lemma option_ext: "(\<And>c. x = Some c \<longleftrightarrow> y = Some c) \<Longrightarrow> x = y"
  by (cases x; cases y) auto

section \<open>Splitting and joining\<close>

fun split_on :: "char \<Rightarrow> string \<Rightarrow> string list" where
  "split_on c [] = [[]]"
| "split_on c (x # xs) =
     (if x = c then [] # split_on c xs
      else case split_on c xs of [] \<Rightarrow> [[x]] | y # ys \<Rightarrow> (x # y) # ys)"

fun join_with :: "char \<Rightarrow> string list \<Rightarrow> string" where
  "join_with c [] = []"
| "join_with c [x] = x"
| "join_with c (x # y # ys) = x @ c # join_with c (y # ys)"

text \<open>\<^verbatim>\<open>strings.Cut\<close> with a one-byte separator: before, after, found.\<close>

definition cut :: "char \<Rightarrow> string \<Rightarrow> string \<times> string \<times> bool" where
  "cut c s = (takeWhile (\<lambda>x. x \<noteq> c) s, drop 1 (dropWhile (\<lambda>x. x \<noteq> c) s), c \<in> set s)"

lemma split_on_not_Nil [simp]: "split_on c s \<noteq> []"
  by (cases s) (auto split: list.splits)

lemma join_split [go_simps]: "join_with c (split_on c s) = s"
proof (induction s)
  case (Cons x xs)
  obtain y ys where y: "split_on c xs = y # ys" by (cases "split_on c xs") auto
  with Cons show ?case by (cases ys) auto
qed simp

lemma split_no_sep: "e \<in> set (split_on c s) \<Longrightarrow> c \<notin> set e"
proof (induction s arbitrary: e)
  case (Cons x xs)
  then show ?case by (cases "split_on c xs") (auto split: if_splits)
qed simp

lemma split_single [go_simps]: "c \<notin> set s \<Longrightarrow> split_on c s = [s]"
  by (induction s) auto

lemma split_append_sep [go_simps]: "c \<notin> set s \<Longrightarrow> split_on c (s @ c # t) = s # split_on c t"
  by (induction s) auto

lemma split_append: "split_on c (s @ c # t) = split_on c s @ split_on c t"
proof (induction s)
  case (Cons x s)
  then show ?case by (cases "split_on c s") auto
qed simp

lemma split_join: "xs \<noteq> [] \<Longrightarrow> (\<forall>x\<in>set xs. c \<notin> set x) \<Longrightarrow> split_on c (join_with c xs) = xs"
  by (induction c xs rule: join_with.induct) (auto simp: go_simps)

lemma set_join_with: "set (join_with c xs) \<subseteq> insert c (\<Union>x\<in>set xs. set x)"
  by (induction c xs rule: join_with.induct) auto

lemma set_split_subset: "e \<in> set (split_on c s) \<Longrightarrow> set e \<subseteq> set s"
proof (induction s arbitrary: e)
  case (Cons x xs)
  obtain y ys where "split_on c xs = y # ys" by (cases "split_on c xs") auto
  with Cons show ?case by (fastforce split: if_splits)
qed simp

lemma length_split_elem: "e \<in> set (split_on c s) \<Longrightarrow> length e \<le> length s"
proof (induction s arbitrary: e)
  case (Cons x xs)
  obtain y ys where y: "split_on c xs = y # ys" by (cases "split_on c xs") auto
  with Cons have "\<forall>z\<in>set (y # ys). length z \<le> length xs" by auto
  with Cons.prems y show ?case by (auto split: if_splits intro: le_SucI)
qed simp

lemma join_with_append_elem:
  "xs \<noteq> [] \<Longrightarrow> join_with c (xs @ [y]) = join_with c xs @ c # y"
  by (induction c xs rule: join_with.induct) auto

end
