(* ===== verification/GoPath.thy ===== *)
theory GoPath
  imports Prelude
begin

text \<open>
  The Unix behaviour of Go's \<^verbatim>\<open>path\<close> and \<^verbatim>\<open>path/filepath\<close> that the
  startup contract, the inspection CA and the Pod composition rely on: \<open>is_abs\<close>,
  \<open>clean\<close>, \<open>join_path\<close>, \<open>rel\<close> and \<open>is_local\<close>.  All of them are lexical: they
  look at the path's elements only, never at a file system.  The lemmas give a clean
  absolute path its canonical form \<open>abs_path es\<close> over proper elements, and reduce the
  containment test of \<^verbatim>\<open>config.contains\<close> to the prefix order on element lists.
\<close>

abbreviation slash :: char where "slash \<equiv> CHR ''/''"

definition is_abs :: "string \<Rightarrow> bool" where
  "is_abs s = prefix ''/'' s"

text \<open>
  \<^verbatim>\<open>Clean\<close> walks the elements with a stack of the elements kept: it drops empty and
  \<^verbatim>\<open>.\<close> elements, lets \<^verbatim>\<open>..\<close> pop a proper element, drops \<^verbatim>\<open>..\<close> at a root
  and keeps it at the start of a relative path.
\<close>

fun clean_step :: "bool \<Rightarrow> string \<Rightarrow> string list \<Rightarrow> string list" where
  "clean_step rooted e st =
     (if e = [] \<or> e = ''.'' then st
      else if e = ''..'' then
        (case st of
           [] \<Rightarrow> (if rooted then [] else [''..''])
         | x # r \<Rightarrow> (if x = ''..'' then ''..'' # st else r))
      else e # st)"

definition clean_elems :: "bool \<Rightarrow> string list \<Rightarrow> string list" where
  "clean_elems rooted es = rev (fold (clean_step rooted) es [])"

definition abs_path :: "string list \<Rightarrow> string" where
  "abs_path es = slash # join_with slash es"

definition clean :: "string \<Rightarrow> string" where
  "clean s =
     (let es = clean_elems (is_abs s) (split_on slash s)
      in if is_abs s then abs_path es
         else if es = [] then ''.'' else join_with slash es)"

text \<open>\<^verbatim>\<open>Join\<close> skips leading empty arguments and cleans the rest.\<close>

fun join_path :: "string list \<Rightarrow> string" where
  "join_path [] = []"
| "join_path (e # es) = (if e = [] then join_path es else clean (join_with slash (e # es)))"

text \<open>\<^verbatim>\<open>Dir\<close>: everything up to the last separator, cleaned.\<close>

definition dir_name :: "string \<Rightarrow> string" where
  "dir_name s = clean (rev (dropWhile (\<lambda>c. c \<noteq> slash) (rev s)))"

definition elems :: "string \<Rightarrow> string list" where
  "elems s = (if s = ''.'' then [] else filter (\<lambda>e. e \<noteq> []) (split_on slash s))"

fun strip_common :: "'a list \<Rightarrow> 'a list \<Rightarrow> 'a list \<times> 'a list" where
  "strip_common (x # xs) (y # ys) = (if x = y then strip_common xs ys else (x # xs, y # ys))"
| "strip_common xs ys = (xs, ys)"

text \<open>
  \<^verbatim>\<open>Rel(base, targ)\<close>: the elements of \<^verbatim>\<open>targ\<close> below the common prefix, after one
  \<^verbatim>\<open>..\<close> per element of \<^verbatim>\<open>base\<close> left; an error (\<open>None\<close>) when one path is rooted
  and the other is not, or when \<^verbatim>\<open>base\<close> goes up through \<^verbatim>\<open>..\<close>.
\<close>

definition rel :: "string \<Rightarrow> string \<Rightarrow> string option" where
  "rel base targ =
     (let b = clean base; t = clean targ
      in if t = b then Some ''.''
         else if is_abs b \<noteq> is_abs t then None
         else case strip_common (elems b) (elems t) of (bs, ts) \<Rightarrow>
           if bs \<noteq> [] \<and> hd bs = ''..'' then None
           else Some (join_with slash (replicate (length bs) ''..'' @ ts)))"

definition is_local :: "string \<Rightarrow> bool" where
  "is_local s =
     (\<not> is_abs s \<and> s \<noteq> [] \<and>
      (let es = split_on slash s;
           p = (if ''.'' \<in> set es \<or> ''..'' \<in> set es then clean s else s)
       in p \<noteq> ''..'' \<and> \<not> prefix ''../'' p))"

section \<open>Canonical form of clean absolute paths\<close>

definition proper :: "string \<Rightarrow> bool" where
  "proper e \<longleftrightarrow> e \<noteq> [] \<and> slash \<notin> set e \<and> e \<noteq> ''.'' \<and> e \<noteq> ''..''"

definition proper_all :: "string list \<Rightarrow> bool" where
  "proper_all es \<longleftrightarrow> (\<forall>e\<in>set es. proper e)"

lemma proper_all_simps [simp]:
  "proper_all []" "proper_all (e # es) \<longleftrightarrow> proper e \<and> proper_all es"
  "proper_all (xs @ ys) \<longleftrightarrow> proper_all xs \<and> proper_all ys"
  by (auto simp: proper_all_def)

lemma is_abs_abs_path [simp]: "is_abs (abs_path es)"
  by (simp add: is_abs_def abs_path_def)

lemma is_abs_Cons: "is_abs s \<longleftrightarrow> (\<exists>t. s = slash # t)"
  by (cases s) (auto simp: is_abs_def)

lemma clean_step_rooted_proper:
  assumes "proper_all st" "slash \<notin> set e"
  shows "proper_all (clean_step True e st)"
  using assms by (auto simp: proper_def split: list.splits)

lemma fold_clean_rooted_proper:
  "proper_all st \<Longrightarrow> (\<forall>e\<in>set es. slash \<notin> set e) \<Longrightarrow> proper_all (fold (clean_step True) es st)"
proof (induction es arbitrary: st)
  case (Cons e es)
  then show ?case
    using clean_step_rooted_proper [of st e] by (simp del: clean_step.simps)
qed simp

lemma clean_elems_proper:
  assumes "\<forall>e\<in>set es. slash \<notin> set e"
  shows "proper_all (clean_elems True es)"
  using fold_clean_rooted_proper [of "[]" es] assms
  by (simp add: clean_elems_def proper_all_def)

lemma clean_step_proper [simp]: "proper e \<Longrightarrow> clean_step r e st = e # st"
  by (simp add: proper_def)

declare clean_step.simps [simp del]

lemma fold_clean_proper: "proper_all es \<Longrightarrow> fold (clean_step r) es st = rev es @ st"
  by (induction es arbitrary: st) auto

lemma clean_elems_id: "proper_all es \<Longrightarrow> clean_elems r es = es"
  by (simp add: clean_elems_def fold_clean_proper)

lemma proper_all_no_slash: "proper_all es \<Longrightarrow> \<forall>e\<in>set es. slash \<notin> set e"
  by (auto simp: proper_all_def proper_def)

lemma split_abs_path:
  "proper_all es \<Longrightarrow> split_on slash (abs_path es) = [] # (if es = [] then [[]] else es)"
  using split_join [OF _ proper_all_no_slash, of es] by (auto simp: abs_path_def)

lemma clean_elems_Nil [simp]: "clean_elems r ([] # es) = clean_elems r es"
  by (simp add: clean_elems_def clean_step.simps)

lemma clean_abs_path [go_simps]: "proper_all es \<Longrightarrow> clean (abs_path es) = abs_path es"
  by (auto simp: clean_def split_abs_path Let_def clean_elems_id)

lemma elems_abs_path [go_simps]:
  assumes "proper_all es"
  shows "elems (abs_path es) = es"
proof -
  have "\<forall>e\<in>set es. e \<noteq> []" using assms by (auto simp: proper_all_def proper_def)
  then have "filter (\<lambda>e. e \<noteq> []) es = es" by (simp add: filter_id_conv)
  moreover have "abs_path es \<noteq> ''.''" by (simp add: abs_path_def)
  ultimately show ?thesis using assms by (auto simp: elems_def split_abs_path)
qed

lemma abs_path_inject: "proper_all xs \<Longrightarrow> proper_all ys \<Longrightarrow> abs_path xs = abs_path ys \<longleftrightarrow> xs = ys"
  using elems_abs_path by metis

text \<open>Cleaning a rooted path gives the canonical form, whatever the path was.\<close>

lemma clean_rooted:
  assumes "is_abs s"
  obtains es where "proper_all es" "clean s = abs_path es"
proof
  show "proper_all (clean_elems True (split_on slash s))"
    by (rule clean_elems_proper) (auto dest: split_no_sep)
  show "clean s = abs_path (clean_elems True (split_on slash s))"
    using assms by (simp add: clean_def)
qed

lemma clean_idem_abs: "is_abs s \<Longrightarrow> clean (clean s) = clean s"
  by (metis clean_rooted clean_abs_path)

text \<open>A path the code calls a clean absolute path is its elements.\<close>

lemma clean_abs_cases:
  assumes "is_abs s" "clean s = s"
  obtains es where "proper_all es" "s = abs_path es" "elems s = es"
  using clean_rooted [OF assms(1)] assms(2) elems_abs_path by metis

lemma join_path_abs:
  assumes "proper_all es" "proper f"
  shows "join_path [abs_path es, f] = abs_path (es @ [f])"
proof -
  have f: "slash \<notin> set f" using assms(2) by (simp add: proper_def)
  have "clean (abs_path es @ slash # f) = abs_path (es @ [f])"
  proof (cases "es = []")
    case True
    have "split_on slash (abs_path [] @ slash # f) = [[], [], f]"
      using f by (simp add: abs_path_def go_simps)
    then show ?thesis
      using assms True by (simp add: clean_def Let_def clean_elems_id is_abs_def abs_path_def)
  next
    case False
    then have "abs_path es @ slash # f = abs_path (es @ [f])"
      by (simp add: abs_path_def join_with_append_elem)
    with assms show ?thesis by (simp add: go_simps)
  qed
  then show ?thesis by (simp add: abs_path_def)
qed

section \<open>Containment\<close>

lemma strip_common_eq_Nil: "fst (strip_common xs ys) = [] \<longleftrightarrow> prefix xs ys"
  by (induction xs ys rule: strip_common.induct) auto

lemma strip_common_snd_Nil: "snd (strip_common xs ys) = [] \<longleftrightarrow> prefix ys xs"
  by (induction xs ys rule: strip_common.induct) auto

lemma strip_common_decomp:
  "strip_common xs ys = (bs, ts) \<Longrightarrow> \<exists>c. xs = c @ bs \<and> ys = c @ ts"
proof (induction xs ys arbitrary: bs ts rule: strip_common.induct)
  case (1 x xs y ys)
  show ?case
  proof (cases "x = y")
    case True
    with 1 obtain c where "xs = c @ bs" "ys = c @ ts" by auto
    with True show ?thesis by (intro exI [of _ "x # c"]) auto
  qed (use 1 in auto)
qed auto

lemma split_join_nonempty:
  "es \<noteq> [] \<Longrightarrow> (\<forall>e\<in>set es. slash \<notin> set e) \<Longrightarrow> split_on slash (join_with slash es) = es"
  by (rule split_join)

lemma not_abs_join:
  assumes "es \<noteq> []" "\<forall>e\<in>set es. slash \<notin> set e" "hd es \<noteq> []"
  shows "\<not> is_abs (join_with slash es)"
proof
  assume "is_abs (join_with slash es)"
  then obtain t where "join_with slash es = slash # t" by (auto simp: is_abs_Cons)
  then have "split_on slash (join_with slash es) = [] # split_on slash t" by simp
  with split_join_nonempty [OF assms(1,2)] assms(3) show False by auto
qed

lemma dotdot_prefix_split:
  "s = ''..'' \<or> prefix ''../'' s \<Longrightarrow> hd (split_on slash s) = ''..''"
  by (auto simp: prefix_def go_simps)

text \<open>A relative path of proper elements is local; one that climbs is not.\<close>

lemma is_local_proper:
  assumes "ts \<noteq> []" "proper_all ts"
  shows "is_local (join_with slash ts)"
proof -
  note ns = proper_all_no_slash [OF assms(2)]
  have sp: "split_on slash (join_with slash ts) = ts"
    by (rule split_join_nonempty [OF assms(1) ns])
  have el: "''.'' \<notin> set ts" "''..'' \<notin> set ts" "hd ts \<noteq> []" "hd ts \<noteq> ''..''"
    using assms by (auto simp: proper_all_def proper_def)
  have "\<not> (join_with slash ts = ''..'' \<or> prefix ''../'' (join_with slash ts))"
    using dotdot_prefix_split sp el(4) by metis
  moreover have "join_with slash ts \<noteq> []" using sp el(3) by auto
  ultimately show ?thesis
    using not_abs_join [OF assms(1) ns el(3)] sp el by (simp add: is_local_def Let_def)
qed

lemma fold_clean_dotdots: "fold (clean_step False) (replicate n ''..'') (replicate m ''..'') = replicate (n + m) ''..''"
proof (induction n arbitrary: m)
  case (Suc n)
  have "clean_step False ''..'' (replicate m ''..'') = replicate (Suc m) ''..''"
    by (cases m) (simp_all add: clean_step.simps)
  then show ?case using Suc [of "Suc m"] by (simp add: comp_def)
qed simp

lemma clean_climb:
  assumes "proper_all ts" "0 < n"
  shows "clean (join_with slash (replicate n ''..'' @ ts)) = join_with slash (replicate n ''..'' @ ts)"
proof -
  let ?es = "replicate n ''..'' @ ts"
  have ne: "?es \<noteq> []" using assms(2) by simp
  have ns: "\<forall>e\<in>set ?es. slash \<notin> set e" using proper_all_no_slash [OF assms(1)] by auto
  have "hd ?es = ''..''" using assms(2) by (cases n) auto
  then have na: "\<not> is_abs (join_with slash ?es)" using not_abs_join [OF ne ns] by simp
  have "clean_elems False ?es = ?es"
    using fold_clean_dotdots [of n 0] by (simp add: clean_elems_def fold_clean_proper [OF assms(1)])
  with na ne show ?thesis by (simp add: clean_def split_join_nonempty [OF ne ns])
qed

lemma not_local_climb:
  assumes "proper_all ts" "0 < n"
  shows "\<not> is_local (join_with slash (replicate n ''..'' @ ts))"
proof -
  obtain m where n: "n = Suc m" using assms(2) by (cases n) auto
  have "join_with slash (replicate n ''..'' @ ts) = ''..'' \<or> prefix ''../'' (join_with slash (replicate n ''..'' @ ts))"
    by (cases "replicate m ''..'' @ ts") (simp_all add: n prefix_def)
  moreover have "clean (join_with slash (replicate n ''..'' @ ts)) = join_with slash (replicate n ''..'' @ ts)"
    by (rule clean_climb [OF assms])
  ultimately show ?thesis by (auto simp: is_local_def Let_def)
qed

text \<open>
  The lexical containment test on clean absolute paths is the prefix order on their
  elements: this is what makes it a test of directory nesting.
\<close>

lemma rel_local_iff_prefix:
  assumes "proper_all ps" "proper_all cs"
  shows "(\<exists>r. rel (abs_path ps) (abs_path cs) = Some r \<and> is_local r) \<longleftrightarrow> prefix ps cs"
proof (cases "cs = ps")
  case True
  then have "rel (abs_path ps) (abs_path cs) = Some ''.''"
    using assms by (simp add: rel_def go_simps)
  moreover have "is_local ''.''" by code_simp
  ultimately show ?thesis using True by simp
next
  case False
  obtain bs ts where st: "strip_common ps cs = (bs, ts)" by (cases "strip_common ps cs") auto
  then obtain c where c: "ps = c @ bs" "cs = c @ ts" using strip_common_decomp by blast
  have pr: "proper_all bs" "proper_all ts" using assms c by auto
  then have nd: "bs \<noteq> [] \<Longrightarrow> hd bs \<noteq> ''..''" by (cases bs) (auto simp: proper_def)
  have r: "rel (abs_path ps) (abs_path cs) = Some (join_with slash (replicate (length bs) ''..'' @ ts))"
    using assms False st nd by (auto simp: rel_def go_simps abs_path_inject Let_def)
  have p: "prefix ps cs \<longleftrightarrow> bs = []" using strip_common_eq_Nil [of ps cs] st by simp
  show ?thesis
  proof (cases "bs = []")
    case True
    with False c have "ts \<noteq> []" by auto
    with True p r is_local_proper [OF _ pr(2)] show ?thesis by simp
  next
    case False
    with p r not_local_climb [OF pr(2), of "length bs"] show ?thesis by simp
  qed
qed

end
