(* ===== verification/GoText.thy ===== *)
theory GoText
  imports Prelude Complex_Main
begin

text \<open>
  The text functions of Go's standard library that the configuration and the certificate
  service call, on UTF-8 byte strings: \<^verbatim>\<open>strings.TrimSpace\<close>,
  \<^verbatim>\<open>strings.ToLower\<close>, \<^verbatim>\<open>strings.EqualFold\<close> against ASCII constants,
  \<^verbatim>\<open>strconv.Atoi\<close> (64-bit range), \<^verbatim>\<open>url.PathUnescape\<close> and the IPv4 half of
  \<^verbatim>\<open>netip.ParseAddr\<close>.  What the program calls and this theory does not define
  (\<^verbatim>\<open>url.Parse\<close>, \<^verbatim>\<open>strconv.ParseFloat\<close>) is the record \<open>golib\<close>, an argument
  of the definitions that use it.
\<close>

section \<open>White space\<close>

text \<open>The UTF-8 encodings of the runes for which \<^verbatim>\<open>unicode.IsSpace\<close> holds.\<close>

abbreviation byte :: "nat \<Rightarrow> char" where "byte \<equiv> char_of"
abbreviation ord :: "char \<Rightarrow> nat" where "ord \<equiv> of_char"

definition space_encodings :: "string list" where
  "space_encodings =
     [[CHR 0x20], [CHR 0x09], [CHR 0x0A], [CHR 0x0B], [CHR 0x0C], [CHR 0x0D],
      [CHR 0xC2, CHR 0x85], [CHR 0xC2, CHR 0xA0], [CHR 0xE1, CHR 0x9A, CHR 0x80],
      [CHR 0xE2, CHR 0x80, CHR 0x80], [CHR 0xE2, CHR 0x80, CHR 0x81], [CHR 0xE2, CHR 0x80, CHR 0x82],
      [CHR 0xE2, CHR 0x80, CHR 0x83], [CHR 0xE2, CHR 0x80, CHR 0x84], [CHR 0xE2, CHR 0x80, CHR 0x85],
      [CHR 0xE2, CHR 0x80, CHR 0x86], [CHR 0xE2, CHR 0x80, CHR 0x87], [CHR 0xE2, CHR 0x80, CHR 0x88],
      [CHR 0xE2, CHR 0x80, CHR 0x89], [CHR 0xE2, CHR 0x80, CHR 0x8A], [CHR 0xE2, CHR 0x80, CHR 0xA8],
      [CHR 0xE2, CHR 0x80, CHR 0xA9], [CHR 0xE2, CHR 0x80, CHR 0xAF], [CHR 0xE2, CHR 0x81, CHR 0x9F],
      [CHR 0xE3, CHR 0x80, CHR 0x80]]"

text \<open>
  One leading rune is dropped at a time; the second argument bounds the number of drops, and
  the length of the string is enough, every encoding being nonempty.
\<close>

fun trim_left :: "string list \<Rightarrow> nat \<Rightarrow> string \<Rightarrow> string" where
  "trim_left ws 0 s = s"
| "trim_left ws (Suc n) s =
     (case find (\<lambda>w. prefix w s) ws of
        None \<Rightarrow> s
      | Some w \<Rightarrow> trim_left ws n (drop (length w) s))"

definition trim_space :: "string \<Rightarrow> string" where
  "trim_space s =
     (let l = trim_left space_encodings (length s) s
      in rev (trim_left (map rev space_encodings) (length l) (rev l)))"

lemma trim_left_Nil [simp]: "trim_left ws n [] = []"
  by (induction n) (auto split: option.splits simp: find_Some_iff)

lemma trim_space_Nil [go_simps]: "trim_space [] = []"
  by (simp add: trim_space_def)

lemma trim_left_suffix: "suffix (trim_left ws n s) s"
proof (induction n arbitrary: s)
  case (Suc n)
  show ?case
  proof (cases "find (\<lambda>w. prefix w s) ws")
    case (Some w)
    have "suffix (trim_left ws n (drop (length w) s)) (drop (length w) s)" by (rule Suc)
    then show ?thesis using Some suffix_drop suffix_order.trans by fastforce
  qed simp
qed simp

text \<open>Trimming only removes text: what is left is a contiguous part of the value.\<close>

lemma trim_space_sublist: "sublist (trim_space s) s"
proof -
  let ?l = "trim_left space_encodings (length s) s"
  have "suffix (rev (trim_space s)) (rev ?l)"
    by (simp add: trim_space_def Let_def trim_left_suffix)
  then have "prefix (trim_space s) ?l" by (simp add: suffix_to_prefix)
  moreover have "suffix ?l s" by (rule trim_left_suffix)
  ultimately show ?thesis
    using prefix_imp_sublist suffix_imp_sublist sublist_order.order_trans by blast
qed

section \<open>Case\<close>

definition is_upper :: "char \<Rightarrow> bool" where "is_upper c \<longleftrightarrow> 65 \<le> ord c \<and> ord c \<le> 90"
definition is_lower :: "char \<Rightarrow> bool" where "is_lower c \<longleftrightarrow> 97 \<le> ord c \<and> ord c \<le> 122"
definition is_digit :: "char \<Rightarrow> bool" where "is_digit c \<longleftrightarrow> 48 \<le> ord c \<and> ord c \<le> 57"
definition is_ascii :: "char \<Rightarrow> bool" where "is_ascii c \<longleftrightarrow> ord c < 128"

definition lower_char :: "char \<Rightarrow> char" where
  "lower_char c = (if is_upper c then byte (ord c + 32) else c)"

text \<open>
  Lower-casing and case folding work rune by rune.  On ASCII they act on single bytes; a few
  runes outside ASCII have an ASCII image, and the table \<open>sp\<close> lists those.  The bytes of every
  other rune are left alone: \<^verbatim>\<open>ToLower\<close> may turn them into other bytes of at least 128,
  which the callers refuse just the same.
\<close>

fun map_runes :: "(string \<times> char) list \<Rightarrow> string \<Rightarrow> string" where
  "map_runes sp [] = []"
| "map_runes sp (c # s) =
     (case find (\<lambda>p. prefix (fst p) (c # s)) sp of
        None \<Rightarrow> lower_char c # map_runes sp s
      | Some p \<Rightarrow> snd p # map_runes sp (drop (length (fst p) - 1) s))"

text \<open>U+0130 lower-cases to \<^verbatim>\<open>i\<close> and U+212A (Kelvin sign) to \<^verbatim>\<open>k\<close>.\<close>

definition to_lower :: "string \<Rightarrow> string" where
  "to_lower = map_runes [([CHR 0xC4, CHR 0xB0], CHR ''i''),
                         ([CHR 0xE2, CHR 0x84, CHR 0xAA], CHR ''k'')]"

text \<open>\<^verbatim>\<open>EqualFold(s, t)\<close> for an ASCII \<open>t\<close>: U+017F folds to \<^verbatim>\<open>s\<close>, U+212A to \<^verbatim>\<open>k\<close>.\<close>

definition equal_fold :: "string \<Rightarrow> string \<Rightarrow> bool" where
  "equal_fold s t \<longleftrightarrow>
     map_runes [([CHR 0xC5, CHR 0xBF], CHR ''s''),
                ([CHR 0xE2, CHR 0x84, CHR 0xAA], CHR ''k'')] s = map lower_char t"

lemma of_char_byte [simp]: "ord (byte n) = n mod 256"
  by simp

lemma lower_char_not_upper: "\<not> is_upper (lower_char c)"
  by (auto simp: lower_char_def is_upper_def)

lemma lower_char_idem [simp]: "lower_char (lower_char c) = lower_char c"
  using lower_char_not_upper [of c] by (simp add: lower_char_def)

lemma map_runes_ascii:
  assumes "\<forall>p\<in>set sp. \<exists>b r. fst p = b # r \<and> \<not> is_ascii b"
    and "\<forall>c\<in>set s. is_ascii c"
  shows "map_runes sp s = map lower_char s"
  using assms(2)
proof (induction s)
  case (Cons c s)
  have "find (\<lambda>p. prefix (fst p) (c # s)) sp = None"
    using assms(1) Cons.prems by (fastforce simp: find_None_iff)
  with Cons show ?case by simp
qed simp

lemma to_lower_ascii [go_simps]: "\<forall>c\<in>set s. is_ascii c \<Longrightarrow> to_lower s = map lower_char s"
  unfolding to_lower_def by (rule map_runes_ascii) (auto simp: is_ascii_def)

lemma equal_fold_ascii [go_simps]:
  "\<forall>c\<in>set s. is_ascii c \<Longrightarrow> equal_fold s t \<longleftrightarrow> map lower_char s = map lower_char t"
  unfolding equal_fold_def by (subst map_runes_ascii) (auto simp: is_ascii_def)

lemma to_lower_Nil [simp]: "to_lower [] = []"
  by (simp add: to_lower_def)

section \<open>Numbers, escapes, addresses\<close>

definition digits_value :: "string \<Rightarrow> int" where
  "digits_value ds = foldl (\<lambda>a d. 10 * a + int (ord d - 48)) 0 ds"

text \<open>\<^verbatim>\<open>strconv.Atoi\<close>: an optional sign and decimal digits, in the range of a 64-bit int.\<close>

definition atoi :: "string \<Rightarrow> int option" where
  "atoi s =
     (let neg = prefix ''-'' s;
          ds = (if prefix ''-'' s \<or> prefix ''+'' s then tl s else s)
      in if ds = [] \<or> \<not> list_all is_digit ds then None
         else let v = (if neg then - digits_value ds else digits_value ds)
              in if - (2 ^ 63) \<le> v \<and> v < 2 ^ 63 then Some v else None)"

lemma atoi_range: "atoi s = Some v \<Longrightarrow> - (2 ^ 63) \<le> v \<and> v < 2 ^ 63"
  by (auto simp: atoi_def Let_def split: if_splits)

definition hex_value :: "char \<Rightarrow> nat option" where
  "hex_value c =
     (let n = ord c
      in if 48 \<le> n \<and> n \<le> 57 then Some (n - 48)
         else if 97 \<le> n \<and> n \<le> 102 then Some (n - 87)
         else if 65 \<le> n \<and> n \<le> 70 then Some (n - 55) else None)"

text \<open>\<^verbatim>\<open>url.PathUnescape\<close>: every percent sign starts a two-digit hexadecimal escape.\<close>

fun path_unescape :: "string \<Rightarrow> string option" where
  "path_unescape [] = Some []"
| "path_unescape (c # s) =
     (if c = CHR ''%'' then
        (case s of
           a # b # r \<Rightarrow>
             (case (hex_value a, hex_value b) of
                (Some x, Some y) \<Rightarrow> map_option (\<lambda>t. byte (16 * x + y) # t) (path_unescape r)
              | _ \<Rightarrow> None)
         | _ \<Rightarrow> None)
      else map_option (\<lambda>t. c # t) (path_unescape s))"

lemma path_unescape_plain [go_simps]: "CHR ''%'' \<notin> set s \<Longrightarrow> path_unescape s = Some s"
  by (induction s) auto

text \<open>
  \<^verbatim>\<open>netip.ParseAddr\<close> on text without a colon: four decimal octets without leading
  zeros.  An address with a colon or a zone is not needed: the certificate service refuses
  those characters in any case.
\<close>

definition octet :: "string \<Rightarrow> bool" where
  "octet f \<longleftrightarrow> f \<noteq> [] \<and> list_all is_digit f \<and> (length f = 1 \<or> hd f \<noteq> CHR ''0'') \<and> digits_value f \<le> 255"

definition parse_ipv4 :: "string \<Rightarrow> bool" where
  "parse_ipv4 s \<longleftrightarrow> (let fs = split_on (CHR ''.'') s in length fs = 4 \<and> list_all octet fs)"

section \<open>Library calls left as parameters\<close>

text \<open>
  The parts of a parsed URL the program reads, a floating point number as far as the program
  looks at it, and the two library functions that produce them.
\<close>

record url =
  u_Scheme :: string
  u_Host :: string
  u_Hostname :: string
  u_HasUser :: bool
  u_RawQuery :: string
  u_Fragment :: string
  u_Path :: string

datatype f64 = NaN | Inf bool | Finite rat

record golib =
  url_Parse :: "string \<Rightarrow> url option"
  ParseFloat :: "string \<Rightarrow> f64 option"

end
