(* ===== verification/Tracing.thy ===== *)
theory Tracing
  imports GoText
begin

text \<open>
  \<^verbatim>\<open>config/tracing.go\<close>: the startup-only OpenTelemetry input of the embedded OPA.
  \<open>LoadTracing\<close> is the whole of \<^verbatim>\<open>LoadTracing\<close>, split at the function's own
  sections; the environment is a total function to a value and a presence flag, as
  \<^verbatim>\<open>os.LookupEnv\<close> is.  Errors are the texts the code builds.  The lemmas show what an
  accepted configuration guarantees to the OPA configuration writer, when the native
  configuration stays untouched, and that an error never depends on a value.
\<close>

type_synonym lookup = "string \<Rightarrow> string \<times> bool"

record tracing =
  Disabled :: bool
  Protocol :: string
  Address :: string
  TLS :: bool
  Certificate :: string
  ClientCertificate :: string
  ClientKey :: string
  ServiceName :: string
  Resource :: "(string \<times> string) list"
  SampleRatio :: f64
  Batch :: "(string \<times> int) list"

definition otlpPrefix :: string where "otlpPrefix = ''OTEL_EXPORTER_OTLP_''"
definition tracesPrefix :: string where "tracesPrefix = otlpPrefix @ ''TRACES_''"

definition get :: "lookup \<Rightarrow> string \<Rightarrow> string" where
  "get lookup name = trim_space (fst (lookup name))"

definition effective :: "lookup \<Rightarrow> string \<Rightarrow> string" where
  "effective lookup suf =
     (let v = get lookup (tracesPrefix @ suf)
      in if v \<noteq> [] then v else get lookup (otlpPrefix @ suf))"

definition otlp_suffixes :: "string list" where
  "otlp_suffixes = [''ENDPOINT'', ''PROTOCOL'', ''HEADERS'', ''CERTIFICATE'',
     ''CLIENT_CERTIFICATE'', ''CLIENT_KEY'', ''INSECURE'', ''TIMEOUT'', ''COMPRESSION'']"

definition tracing_names :: "string list" where
  "tracing_names =
     [''OTEL_SDK_DISABLED'', ''OTEL_TRACES_EXPORTER'', ''OTEL_SERVICE_NAME'',
      ''OTEL_RESOURCE_ATTRIBUTES'', ''OTEL_TRACES_SAMPLER'', ''OTEL_TRACES_SAMPLER_ARG'',
      ''OTEL_PROPAGATORS'', ''OTEL_BSP_SCHEDULE_DELAY'', ''OTEL_BSP_EXPORT_TIMEOUT'',
      ''OTEL_BSP_MAX_QUEUE_SIZE'', ''OTEL_BSP_MAX_EXPORT_BATCH_SIZE'']
     @ concat (map (\<lambda>s. [otlpPrefix @ s, tracesPrefix @ s]) otlp_suffixes)"

definition configured :: "lookup \<Rightarrow> bool" where
  "configured lookup \<longleftrightarrow> list_ex (\<lambda>name. get lookup name \<noteq> []) tracing_names"

definition invalid :: "string \<Rightarrow> string" where
  "invalid name = name @ '': unsupported or invalid tracing setting (value omitted)''"

text \<open>The record the code starts from: only the fields with a non-zero start are set.\<close>

definition fresh_tracing :: tracing where
  "fresh_tracing =
     \<lparr>Disabled = False, Protocol = [], Address = [], TLS = False, Certificate = [],
      ClientCertificate = [], ClientKey = [], ServiceName = [], Resource = [],
      SampleRatio = Finite 1, Batch = []\<rparr>"

section \<open>Headers and numbers\<close>

definition header_punctuation :: string where
  "header_punctuation = ''!#$%&'' @ [CHR 0x27] @ ''*+-.^_'' @ [CHR 0x60] @ ''|~''"

definition header_char :: "char \<Rightarrow> bool" where
  "header_char ch \<longleftrightarrow> is_lower ch \<or> is_upper ch \<or> is_digit ch \<or> ch \<in> set header_punctuation"

definition header_value_char :: "char \<Rightarrow> bool" where
  "header_value_char ch \<longleftrightarrow> \<not> (ord ch < 0x20 \<and> ord ch \<noteq> 9 \<or> ord ch = 0x7f)"

definition valid_header_item :: "string \<Rightarrow> bool" where
  "valid_header_item item =
     (case cut (CHR ''='') item of (key, val, found) \<Rightarrow>
        let key = trim_space key
        in found \<and> key \<noteq> [] \<and> list_all header_char key \<and>
           (case path_unescape val of
              None \<Rightarrow> False
            | Some decoded \<Rightarrow> list_all header_value_char decoded))"

definition validHeaders :: "string \<Rightarrow> bool" where
  "validHeaders value = list_all valid_header_item (split_on (CHR '','') value)"

text \<open>\<^verbatim>\<open>math.MaxInt64/1000000\<close>: a millisecond count that still fits as nanoseconds.\<close>

definition max_millis :: int where "max_millis = (2 ^ 63 - 1) div 1000000"

definition positive_millis :: "string \<Rightarrow> int option" where
  "positive_millis v =
     (case atoi v of
        None \<Rightarrow> None
      | Some n \<Rightarrow> if n \<le> 0 \<or> n > max_millis then None else Some n)"

section \<open>The sections of the loader\<close>

text \<open>Both prefixes are validated, even where the more specific one wins.\<close>

definition valid_endpoint :: "golib \<Rightarrow> string \<Rightarrow> bool" where
  "valid_endpoint lib v =
     (case url_Parse lib v of
        None \<Rightarrow> False
      | Some u \<Rightarrow> u_Hostname u \<noteq> [] \<and> (u_Scheme u = ''http'' \<or> u_Scheme u = ''https'') \<and>
                  \<not> u_HasUser u \<and> u_RawQuery u = [] \<and> u_Fragment u = [])"

definition check_exporter :: "golib \<Rightarrow> lookup \<Rightarrow> string \<Rightarrow> unit \<Rightarrow> (string, unit) result" where
  "check_exporter lib lookup pre _ =
     (let v = get lookup (pre @ ''ENDPOINT'') in
      refuse (v \<noteq> [] \<and> \<not> valid_endpoint lib v) (invalid (pre @ ''ENDPOINT''))
     (let v = get lookup (pre @ ''HEADERS'') in
      refuse (v \<noteq> [] \<and> \<not> validHeaders v) (invalid (pre @ ''HEADERS''))
     (let v = get lookup (pre @ ''TIMEOUT'') in
      refuse (v \<noteq> [] \<and> positive_millis v = None) (invalid (pre @ ''TIMEOUT''))
     (let v = get lookup (pre @ ''COMPRESSION'') in
      refuse (v \<noteq> [] \<and> v \<noteq> ''gzip'' \<and> v \<noteq> ''none'') (invalid (pre @ ''COMPRESSION''))
     (let v = get lookup (pre @ ''INSECURE'') in
      refuse (v \<noteq> [] \<and> \<not> equal_fold v ''true'' \<and> \<not> equal_fold v ''false'') (invalid (pre @ ''INSECURE''))
      (Inr ()))))))"

definition load_protocol :: "lookup \<Rightarrow> (string, string) result" where
  "load_protocol lookup =
     (let p = to_lower (effective lookup ''PROTOCOL'');
          p = (if p = [] then ''http/protobuf'' else p)
      in refuse (p \<noteq> ''grpc'' \<and> p \<noteq> ''http/protobuf'')
           (invalid ''OTEL_EXPORTER_OTLP[_TRACES]_PROTOCOL'') (Inr p))"

text \<open>
  Endpoint and TLS material.  The parse of the effective endpoint cannot fail there: it is
  one of the two validated values or a default; a failing parse would be a nil dereference.
\<close>

definition default_endpoint :: "string \<Rightarrow> string" where
  "default_endpoint protocol =
     (if protocol = ''grpc'' then ''http://localhost:4317'' else ''http://localhost:4318'')"

definition load_endpoint :: "golib \<Rightarrow> lookup \<Rightarrow> tracing \<Rightarrow> (string, tracing) result" where
  "load_endpoint lib lookup c =
     (let endpoint = effective lookup ''ENDPOINT'';
          endpoint = (if endpoint = [] then default_endpoint (Protocol c) else endpoint)
      in case url_Parse lib endpoint of
           None \<Rightarrow> Inl ''panic: nil URL''
         | Some u \<Rightarrow>
             refuse (Protocol c = ''grpc'' \<and> u_Path u \<noteq> [] \<and> u_Path u \<noteq> ''/'')
               (invalid ''OTEL_EXPORTER_OTLP[_TRACES]_ENDPOINT'')
             (let c = c\<lparr>Address := u_Host u, TLS := (u_Scheme u = ''https'')\<rparr>
              in refuse (TLS c \<and> equal_fold (effective lookup ''INSECURE'') ''true'')
                   (invalid ''OTEL_EXPORTER_OTLP[_TRACES]_INSECURE: conflicts with https endpoint'')
                   (Inr c)))"

definition load_tls :: "lookup \<Rightarrow> tracing \<Rightarrow> (string, tracing) result" where
  "load_tls lookup c =
     (let c = c\<lparr>Certificate := effective lookup ''CERTIFICATE'',
                ClientCertificate := effective lookup ''CLIENT_CERTIFICATE'',
                ClientKey := effective lookup ''CLIENT_KEY''\<rparr>
      in refuse ((ClientCertificate c = []) \<noteq> (ClientKey c = []))
           (invalid ''OTEL_EXPORTER_OTLP[_TRACES]_CLIENT_CERTIFICATE/CLIENT_KEY'')
         (refuse (\<not> TLS c \<and> (Certificate c \<noteq> [] \<or> ClientCertificate c \<noteq> []))
           (invalid ''OTEL_EXPORTER_OTLP[_TRACES]_CERTIFICATE: TLS requires an https endpoint'')
           (Inr c)))"

definition resource_keys :: "string list" where
  "resource_keys = [''service.version'', ''service.instance.id'', ''service.namespace'', ''deployment.environment'']"

definition load_attribute :: "string \<Rightarrow> tracing \<Rightarrow> (string, tracing) result" where
  "load_attribute item c =
     (if trim_space item = [] then Inr c
      else case cut (CHR ''='') item of (key, value, found) \<Rightarrow>
        let key = trim_space key; value = trim_space value
        in refuse (\<not> found) (invalid ''OTEL_RESOURCE_ATTRIBUTES'')
          (case path_unescape value of
             None \<Rightarrow> Inl (invalid ''OTEL_RESOURCE_ATTRIBUTES'')
           | Some value \<Rightarrow>
               if key = ''service.name'' then Inr (c\<lparr>ServiceName := value\<rparr>)
               else if key \<in> set resource_keys then Inr (c\<lparr>Resource := AList.update key value (Resource c)\<rparr>)
               else Inl (invalid ''OTEL_RESOURCE_ATTRIBUTES: attribute not supported by pinned OPA'')))"

definition load_resource :: "lookup \<Rightarrow> tracing \<Rightarrow> (string, tracing) result" where
  "load_resource lookup c =
     bindR (foldR load_attribute (split_on (CHR '','') (get lookup ''OTEL_RESOURCE_ATTRIBUTES'')) c)
       (\<lambda>c. let v = get lookup ''OTEL_SERVICE_NAME''
            in Inr (if v \<noteq> [] then c\<lparr>ServiceName := v\<rparr> else c))"

definition valid_ratio :: "f64 \<Rightarrow> bool" where
  "valid_ratio n = (case n of NaN \<Rightarrow> False | Inf _ \<Rightarrow> False | Finite q \<Rightarrow> 0 \<le> q \<and> q \<le> 1)"

definition load_sampler :: "golib \<Rightarrow> lookup \<Rightarrow> tracing \<Rightarrow> (string, tracing) result" where
  "load_sampler lib lookup c =
     (let sampler = get lookup ''OTEL_TRACES_SAMPLER''; arg = get lookup ''OTEL_TRACES_SAMPLER_ARG''
      in bindR
        (if sampler = [] \<or> sampler = ''parentbased_always_on'' then Inr c
         else if sampler = ''parentbased_always_off'' then Inr (c\<lparr>SampleRatio := Finite 0\<rparr>)
         else if sampler = ''parentbased_traceidratio'' then
           (case ParseFloat lib arg of
              None \<Rightarrow> Inl (invalid ''OTEL_TRACES_SAMPLER_ARG'')
            | Some n \<Rightarrow> refuse (\<not> valid_ratio n) (invalid ''OTEL_TRACES_SAMPLER_ARG'')
                          (Inr (c\<lparr>SampleRatio := n\<rparr>)))
         else Inl (invalid ''OTEL_TRACES_SAMPLER: pinned OPA requires a parent-based sampler''))
        (\<lambda>c. refuse (arg \<noteq> [] \<and> sampler \<noteq> ''parentbased_traceidratio'')
               (invalid ''OTEL_TRACES_SAMPLER_ARG: requires parentbased_traceidratio'') (Inr c)))"

definition batch_suffixes :: "string list" where
  "batch_suffixes = [''SCHEDULE_DELAY'', ''EXPORT_TIMEOUT'', ''MAX_QUEUE_SIZE'', ''MAX_EXPORT_BATCH_SIZE'']"

definition load_batch_item :: "lookup \<Rightarrow> string \<Rightarrow> tracing \<Rightarrow> (string, tracing) result" where
  "load_batch_item lookup suf c =
     (let v = get lookup (''OTEL_BSP_'' @ suf)
      in if v = [] then Inr c
         else case positive_millis v of
                None \<Rightarrow> Inl (invalid (''OTEL_BSP_'' @ suf))
              | Some n \<Rightarrow> Inr (c\<lparr>Batch := AList.update suf n (Batch c)\<rparr>))"

definition batch_or :: "tracing \<Rightarrow> string \<Rightarrow> int \<Rightarrow> int" where
  "batch_or c key dflt =
     (case map_of (Batch c) key of None \<Rightarrow> dflt | Some n \<Rightarrow> if n \<noteq> 0 then n else dflt)"

definition load_batch :: "lookup \<Rightarrow> tracing \<Rightarrow> (string, tracing) result" where
  "load_batch lookup c =
     bindR (foldR (load_batch_item lookup) batch_suffixes c)
       (\<lambda>c. refuse (batch_or c ''MAX_EXPORT_BATCH_SIZE'' 512 > batch_or c ''MAX_QUEUE_SIZE'' 2048)
              (invalid ''OTEL_BSP_MAX_EXPORT_BATCH_SIZE: exceeds queue size'') (Inr c))"

text \<open>\<open>None\<close> is the nil result: the native OPA configuration stays as it is.\<close>

definition LoadTracing :: "golib \<Rightarrow> lookup \<Rightarrow> (string, tracing option) result" where
  "LoadTracing lib lookup =
     (if \<not> configured lookup then Inr None
      else let c = fresh_tracing; exporter = get lookup ''OTEL_TRACES_EXPORTER'';
               disabled = get lookup ''OTEL_SDK_DISABLED''
      in if equal_fold disabled ''true'' \<or> equal_fold exporter ''none''
         then Inr (Some (c\<lparr>Disabled := True\<rparr>))
      else refuse (disabled \<noteq> [] \<and> \<not> equal_fold disabled ''false'') (invalid ''OTEL_SDK_DISABLED'')
          (refuse (exporter \<noteq> [] \<and> \<not> equal_fold exporter ''otlp'') (invalid ''OTEL_TRACES_EXPORTER'')
          (bindR (load_protocol lookup) (\<lambda>p.
           bindR (foldR (check_exporter lib lookup) [otlpPrefix, tracesPrefix] ()) (\<lambda>_.
           bindR (load_endpoint lib lookup (c\<lparr>Protocol := p\<rparr>)) (\<lambda>c.
           bindR (load_tls lookup c) (\<lambda>c.
           bindR (load_resource lookup c) (\<lambda>c.
           bindR (load_sampler lib lookup c) (\<lambda>c.
           refuse (get lookup ''OTEL_PROPAGATORS'' \<noteq> [])
             (invalid ''OTEL_PROPAGATORS: OPA-Envoy uses fixed W3C and B3 propagation'')
          (bindR (load_batch lookup c) (\<lambda>c. Inr (Some c))))))))))))"

section \<open>What an accepted configuration guarantees\<close>

definition resource_ok :: "tracing \<Rightarrow> bool" where
  "resource_ok c \<longleftrightarrow> fst ` set (Resource c) \<subseteq> set resource_keys \<and> distinct (map fst (Resource c))"

definition batch_ok :: "tracing \<Rightarrow> bool" where
  "batch_ok c \<longleftrightarrow>
     (\<forall>p\<in>set (Batch c). fst p \<in> set batch_suffixes \<and> 0 < snd p \<and> snd p \<le> max_millis) \<and>
     distinct (map fst (Batch c))"

definition tls_ok :: "tracing \<Rightarrow> bool" where
  "tls_ok c \<longleftrightarrow> (ClientCertificate c = [] \<longleftrightarrow> ClientKey c = []) \<and>
     (\<not> TLS c \<longrightarrow> Certificate c = [] \<and> ClientCertificate c = [])"

definition tracing_ok :: "tracing \<Rightarrow> bool" where
  "tracing_ok c \<longleftrightarrow>
     (Protocol c = ''grpc'' \<or> Protocol c = ''http/protobuf'') \<and> tls_ok c \<and> resource_ok c \<and>
     valid_ratio (SampleRatio c) \<and> batch_ok c \<and>
     batch_or c ''MAX_EXPORT_BATCH_SIZE'' 512 \<le> batch_or c ''MAX_QUEUE_SIZE'' 2048"

lemma set_AList_update: "set (AList.update k v al) \<subseteq> insert (k, v) (set al)"
  by (induction al) (auto split: if_splits)

lemma distinct_AList_update: "distinct (map fst al) \<Longrightarrow> distinct (map fst (AList.update k v al))"
  by (rule distinct_update)

lemma positive_millis_bounds: "positive_millis v = Some n \<Longrightarrow> 0 < n \<and> n \<le> max_millis"
  by (auto simp: positive_millis_def split: option.splits if_splits)

text \<open>Each section leaves the fields it does not own alone, and establishes its own part.\<close>

lemma load_protocol_ok:
  "load_protocol lookup = Inr p \<Longrightarrow> p = ''grpc'' \<or> p = ''http/protobuf''"
  by (auto simp: load_protocol_def Let_def result_simps)

lemma load_endpoint_frame:
  assumes "load_endpoint lib lookup c = Inr d"
  shows "\<exists>a t. d = c\<lparr>Address := a, TLS := t\<rparr>"
    and "TLS d \<Longrightarrow> \<not> equal_fold (effective lookup ''INSECURE'') ''true''"
  using assms
  by (auto simp: load_endpoint_def Let_def result_simps split: option.splits)

lemma load_tls_ok:
  assumes "load_tls lookup c = Inr d"
  shows "tls_ok d" and "\<exists>x y z. d = c\<lparr>Certificate := x, ClientCertificate := y, ClientKey := z\<rparr>"
  using assms by (auto simp: load_tls_def Let_def result_simps tls_ok_def)

lemma load_attribute_ok:
  assumes "load_attribute item c = Inr d" "resource_ok c"
  shows "resource_ok d" "\<exists>s r. d = c\<lparr>ServiceName := s, Resource := r\<rparr>"
proof -
  have upd: "key \<in> set resource_keys \<Longrightarrow> resource_ok (c\<lparr>Resource := AList.update key v (Resource c)\<rparr>)"
    for key v
    using assms(2) set_AList_update [of key v "Resource c"]
    by (fastforce simp: resource_ok_def distinct_AList_update)
  consider "d = c" | v where "d = c\<lparr>ServiceName := v\<rparr>"
    | key v where "key \<in> set resource_keys" "d = c\<lparr>Resource := AList.update key v (Resource c)\<rparr>"
    using assms(1)
    by (auto simp: load_attribute_def Let_def result_simps split: if_splits prod.splits option.splits)
  note cases = this
  show "resource_ok d"
    using cases assms(2) upd by cases (auto simp: resource_ok_def)
  have "d = c\<lparr>ServiceName := ServiceName d, Resource := Resource d\<rparr>"
    by (rule cases) simp_all
  then show "\<exists>s r. d = c\<lparr>ServiceName := s, Resource := r\<rparr>" by blast
qed

lemma load_resource_ok:
  assumes "load_resource lookup c = Inr d" "resource_ok c"
  shows "resource_ok d" "\<exists>s r. d = c\<lparr>ServiceName := s, Resource := r\<rparr>"
proof -
  obtain u where u: "foldR load_attribute (split_on (CHR '','') (get lookup ''OTEL_RESOURCE_ATTRIBUTES'')) c = Inr u"
      "d = (let v = get lookup ''OTEL_SERVICE_NAME'' in if v \<noteq> [] then u\<lparr>ServiceName := v\<rparr> else u)"
    using assms(1) by (auto simp: load_resource_def result_simps Let_def)
  have "resource_ok u \<and> (\<exists>s r. u = c\<lparr>ServiceName := s, Resource := r\<rparr>)"
  proof (rule foldR_invariant [OF u(1)])
    show "resource_ok c \<and> (\<exists>s r. c = c\<lparr>ServiceName := s, Resource := r\<rparr>)"
      using assms(2) by (intro conjI exI [of _ "ServiceName c"] exI [of _ "Resource c"]) auto
  next
    fix x a b
    assume *: "resource_ok a \<and> (\<exists>s r. a = c\<lparr>ServiceName := s, Resource := r\<rparr>)" "load_attribute x a = Inr b"
    then obtain s r where a: "a = c\<lparr>ServiceName := s, Resource := r\<rparr>" by blast
    obtain s' r' where b: "b = a\<lparr>ServiceName := s', Resource := r'\<rparr>"
      using load_attribute_ok(2) [OF *(2)] *(1) by blast
    have "b = c\<lparr>ServiceName := s', Resource := r'\<rparr>" using a b by simp
    then show "resource_ok b \<and> (\<exists>s r. b = c\<lparr>ServiceName := s, Resource := r\<rparr>)"
      using load_attribute_ok(1) [OF *(2)] *(1) by blast
  qed
  then obtain s r where "resource_ok u" and us: "u = c\<lparr>ServiceName := s, Resource := r\<rparr>" by blast
  then show "resource_ok d" using u(2) by (auto simp: Let_def resource_ok_def)
  have "d = c\<lparr>ServiceName := ServiceName d, Resource := r\<rparr>"
    using u(2) us by (simp add: Let_def)
  then show "\<exists>s r. d = c\<lparr>ServiceName := s, Resource := r\<rparr>" by blast
qed

lemma load_sampler_cases:
  assumes "load_sampler lib lookup c = Inr d"
  shows "d = c \<or> d = c\<lparr>SampleRatio := Finite 0\<rparr> \<or> (\<exists>r. valid_ratio r \<and> d = c\<lparr>SampleRatio := r\<rparr>)"
proof -
  define s where "s = get lookup ''OTEL_TRACES_SAMPLER''"
  define a where "a = get lookup ''OTEL_TRACES_SAMPLER_ARG''"
  note def = assms [unfolded load_sampler_def Let_def, folded s_def a_def]
  consider "s = [] \<or> s = ''parentbased_always_on''"
    | "\<not> (s = [] \<or> s = ''parentbased_always_on'')" "s = ''parentbased_always_off''"
    | "\<not> (s = [] \<or> s = ''parentbased_always_on'')" "s \<noteq> ''parentbased_always_off''" "s = ''parentbased_traceidratio''"
    | "\<not> (s = [] \<or> s = ''parentbased_always_on'')" "s \<noteq> ''parentbased_always_off''" "s \<noteq> ''parentbased_traceidratio''"
    by blast
  then show ?thesis
  proof cases
    case 3
    then show ?thesis using def by (auto simp: result_simps split: option.splits)
  qed (use def in \<open>auto simp: result_simps\<close>)
qed

lemma load_sampler_ok:
  assumes "load_sampler lib lookup c = Inr d" "valid_ratio (SampleRatio c)"
  shows "valid_ratio (SampleRatio d)" "\<exists>r. d = c\<lparr>SampleRatio := r\<rparr>"
proof -
  note cases = load_sampler_cases [OF assms(1)]
  show "valid_ratio (SampleRatio d)" using cases assms(2) by (auto simp: valid_ratio_def)
  have "d = c\<lparr>SampleRatio := SampleRatio d\<rparr>" using cases by auto
  then show "\<exists>r. d = c\<lparr>SampleRatio := r\<rparr>" by blast
qed

lemma load_batch_item_ok:
  assumes "load_batch_item lookup suf c = Inr d" "batch_ok c" "suf \<in> set batch_suffixes"
  shows "batch_ok d" "\<exists>b. d = c\<lparr>Batch := b\<rparr>"
proof -
  consider "d = c" | n where "0 < n" "n \<le> max_millis" "d = c\<lparr>Batch := AList.update suf n (Batch c)\<rparr>"
    using assms(1)
    by (auto simp: load_batch_item_def Let_def dest!: positive_millis_bounds split: if_splits option.splits)
  note cases = this
  have upd: "0 < n \<Longrightarrow> n \<le> max_millis \<Longrightarrow> batch_ok (c\<lparr>Batch := AList.update suf n (Batch c)\<rparr>)" for n
    using assms(2,3) set_AList_update [of suf n "Batch c"]
    by (fastforce simp: batch_ok_def distinct_AList_update)
  show "batch_ok d" by (rule cases) (use assms(2) upd in auto)
  have "d = c\<lparr>Batch := Batch d\<rparr>" by (rule cases) simp_all
  then show "\<exists>b. d = c\<lparr>Batch := b\<rparr>" by blast
qed

lemma load_batch_ok:
  assumes "load_batch lookup c = Inr d" "batch_ok c"
  shows "batch_ok d" "\<exists>b. d = c\<lparr>Batch := b\<rparr>"
    "batch_or d ''MAX_EXPORT_BATCH_SIZE'' 512 \<le> batch_or d ''MAX_QUEUE_SIZE'' 2048"
proof -
  have u: "foldR (load_batch_item lookup) batch_suffixes c = Inr d"
    and le: "batch_or d ''MAX_EXPORT_BATCH_SIZE'' 512 \<le> batch_or d ''MAX_QUEUE_SIZE'' 2048"
    using assms(1) by (auto simp: load_batch_def result_simps)
  have "batch_ok d \<and> (\<exists>b. d = c\<lparr>Batch := b\<rparr>)"
  proof (rule foldR_invariant [OF u])
    show "batch_ok c \<and> (\<exists>b. c = c\<lparr>Batch := b\<rparr>)"
      using assms(2) by (intro conjI exI [of _ "Batch c"]) auto
  next
    fix x a b
    assume "x \<in> set batch_suffixes" "batch_ok a \<and> (\<exists>b. a = c\<lparr>Batch := b\<rparr>)" "load_batch_item lookup x a = Inr b"
    then show "batch_ok b \<and> (\<exists>b'. b = c\<lparr>Batch := b'\<rparr>)"
      using load_batch_item_ok [of lookup x a b] by auto
  qed
  with le show "batch_ok d" "\<exists>b. d = c\<lparr>Batch := b\<rparr>"
    "batch_or d ''MAX_EXPORT_BATCH_SIZE'' 512 \<le> batch_or d ''MAX_QUEUE_SIZE'' 2048" by auto
qed

lemma fresh_tracing_ok: "resource_ok fresh_tracing" "batch_ok fresh_tracing" "valid_ratio (SampleRatio fresh_tracing)"
  by (auto simp: fresh_tracing_def resource_ok_def batch_ok_def valid_ratio_def)

text \<open>The run of an accepted, enabled configuration, section by section.\<close>

lemma LoadTracing_enabled:
  assumes "LoadTracing lib lookup = Inr (Some c)" "\<not> Disabled c"
  shows "\<exists>p c1 c2 c3 c4.
    load_protocol lookup = Inr p \<and>
    foldR (check_exporter lib lookup) [otlpPrefix, tracesPrefix] () = Inr () \<and>
    load_endpoint lib lookup (fresh_tracing\<lparr>Protocol := p\<rparr>) = Inr c1 \<and>
    load_tls lookup c1 = Inr c2 \<and> load_resource lookup c2 = Inr c3 \<and>
    load_sampler lib lookup c3 = Inr c4 \<and> load_batch lookup c4 = Inr c \<and>
    get lookup ''OTEL_PROPAGATORS'' = []"
proof -
  have "\<not> (equal_fold (get lookup ''OTEL_SDK_DISABLED'') ''true'' \<or> equal_fold (get lookup ''OTEL_TRACES_EXPORTER'') ''none'')"
    using assms by (auto simp: LoadTracing_def Let_def split: if_splits)
  then show ?thesis
    using assms(1) by (simp add: LoadTracing_def Let_def result_simps del: foldR.simps split: if_splits) blast
qed

lemma LoadTracing_tracing_ok:
  assumes "LoadTracing lib lookup = Inr (Some c)" "\<not> Disabled c"
  shows "tracing_ok c" and "TLS c \<Longrightarrow> \<not> equal_fold (effective lookup ''INSECURE'') ''true''"
proof -
  obtain p c1 c2 c3 c4 where run:
    "load_protocol lookup = Inr p"
    "load_endpoint lib lookup (fresh_tracing\<lparr>Protocol := p\<rparr>) = Inr c1"
    "load_tls lookup c1 = Inr c2" "load_resource lookup c2 = Inr c3"
    "load_sampler lib lookup c3 = Inr c4" "load_batch lookup c4 = Inr c"
    using LoadTracing_enabled [OF assms] by blast
  note p = load_protocol_ok [OF run(1)]
  obtain a t where c1: "c1 = fresh_tracing\<lparr>Protocol := p, Address := a, TLS := t\<rparr>"
    using load_endpoint_frame(1) [OF run(2)] by auto
  obtain x y z where c2: "c2 = c1\<lparr>Certificate := x, ClientCertificate := y, ClientKey := z\<rparr>"
    using load_tls_ok(2) [OF run(3)] by auto
  have r2: "resource_ok c2" using fresh_tracing_ok(1) by (simp add: c1 c2 resource_ok_def)
  obtain s r where c3: "c3 = c2\<lparr>ServiceName := s, Resource := r\<rparr>"
    using load_resource_ok(2) [OF run(4) r2] by auto
  have v3: "valid_ratio (SampleRatio c3)" using fresh_tracing_ok(3) by (simp add: c1 c2 c3)
  obtain q where c4: "c4 = c3\<lparr>SampleRatio := q\<rparr>"
    using load_sampler_ok(2) [OF run(5) v3] by auto
  have b4: "batch_ok c4" using fresh_tracing_ok(2) by (simp add: c1 c2 c3 c4 batch_ok_def)
  note lb = load_batch_ok [OF run(6) b4]
  obtain b where c: "c = c4\<lparr>Batch := b\<rparr>" using lb(2) by auto
  show "tracing_ok c"
    using p load_tls_ok(1) [OF run(3)] load_resource_ok(1) [OF run(4) r2]
      load_sampler_ok(1) [OF run(5) v3] lb(1,3)
    by (auto simp: tracing_ok_def c1 c2 c3 c4 c tls_ok_def resource_ok_def)
  show "TLS c \<Longrightarrow> \<not> equal_fold (effective lookup ''INSECURE'') ''true''"
    using load_endpoint_frame(2) [OF run(2)] by (simp add: c c4 c3 c2)
qed

section \<open>Errors name variables, never values\<close>

definition tracing_error_names :: "string list" where
  "tracing_error_names =
     [''OTEL_SDK_DISABLED'', ''OTEL_TRACES_EXPORTER'', ''OTEL_EXPORTER_OTLP[_TRACES]_PROTOCOL'',
      ''OTEL_EXPORTER_OTLP[_TRACES]_ENDPOINT'',
      ''OTEL_EXPORTER_OTLP[_TRACES]_INSECURE: conflicts with https endpoint'',
      ''OTEL_EXPORTER_OTLP[_TRACES]_CLIENT_CERTIFICATE/CLIENT_KEY'',
      ''OTEL_EXPORTER_OTLP[_TRACES]_CERTIFICATE: TLS requires an https endpoint'',
      ''OTEL_RESOURCE_ATTRIBUTES'', ''OTEL_RESOURCE_ATTRIBUTES: attribute not supported by pinned OPA'',
      ''OTEL_TRACES_SAMPLER_ARG'', ''OTEL_TRACES_SAMPLER: pinned OPA requires a parent-based sampler'',
      ''OTEL_TRACES_SAMPLER_ARG: requires parentbased_traceidratio'',
      ''OTEL_PROPAGATORS: OPA-Envoy uses fixed W3C and B3 propagation'',
      ''OTEL_BSP_MAX_EXPORT_BATCH_SIZE: exceeds queue size'']
     @ map (\<lambda>s. ''OTEL_BSP_'' @ s) batch_suffixes
     @ concat (map (\<lambda>p. map (\<lambda>s. p @ s)
         [''ENDPOINT'', ''HEADERS'', ''TIMEOUT'', ''COMPRESSION'', ''INSECURE'']) [otlpPrefix, tracesPrefix])"

definition tracing_errors :: "string set" where
  "tracing_errors = invalid ` set tracing_error_names"

lemma tracing_errors_intro:
  "n \<in> set tracing_error_names \<Longrightarrow> invalid n \<in> tracing_errors"
  by (simp add: tracing_errors_def)

lemma load_protocol_error: "load_protocol lookup = Inl e \<Longrightarrow> e \<in> tracing_errors"
  by (auto simp: load_protocol_def Let_def result_simps tracing_error_names_def intro!: tracing_errors_intro)

lemma check_exporter_error:
  assumes "check_exporter lib lookup p u = Inl e" "p \<in> {otlpPrefix, tracesPrefix}"
  shows "e \<in> tracing_errors"
proof -
  have "e \<in> invalid ` set (map (\<lambda>s. p @ s) [''ENDPOINT'', ''HEADERS'', ''TIMEOUT'', ''COMPRESSION'', ''INSECURE''])"
    using assms(1) by (auto simp: check_exporter_def Let_def result_simps)
  moreover have "set (map (\<lambda>s. p @ s) [''ENDPOINT'', ''HEADERS'', ''TIMEOUT'', ''COMPRESSION'', ''INSECURE''])
      \<subseteq> set tracing_error_names"
    using assms(2) by (auto simp: tracing_error_names_def)
  ultimately show ?thesis unfolding tracing_errors_def by blast
qed

lemma check_exporter_endpoint:
  "check_exporter lib lookup p u = Inr v \<Longrightarrow> get lookup (p @ ''ENDPOINT'') \<noteq> [] \<Longrightarrow>
   url_Parse lib (get lookup (p @ ''ENDPOINT'')) \<noteq> None"
  by (auto simp: check_exporter_def Let_def result_simps valid_endpoint_def split: option.splits)

text \<open>The effective endpoint has been validated, or is a default: its parse never fails.\<close>

lemma effective_endpoint_parses:
  assumes "check_exporter lib lookup otlpPrefix () = Inr ()" "check_exporter lib lookup tracesPrefix () = Inr ()"
    and "\<forall>p. url_Parse lib (default_endpoint p) \<noteq> None"
  shows "url_Parse lib (let e = effective lookup ''ENDPOINT'' in if e = [] then default_endpoint p else e) \<noteq> None"
  using check_exporter_endpoint [OF assms(1)] check_exporter_endpoint [OF assms(2)] assms(3)
  by (simp add: effective_def Let_def)

lemma load_endpoint_error:
  assumes "load_endpoint lib lookup c = Inl e"
    and "url_Parse lib (let e = effective lookup ''ENDPOINT'' in if e = [] then default_endpoint (Protocol c) else e) \<noteq> None"
  shows "e \<in> tracing_errors"
  using assms
  by (auto simp: load_endpoint_def Let_def result_simps tracing_error_names_def
      split: option.splits intro!: tracing_errors_intro)

lemma load_tls_error: "load_tls lookup c = Inl e \<Longrightarrow> e \<in> tracing_errors"
  by (simp add: load_tls_def Let_def result_simps)
     (auto simp: tracing_error_names_def intro!: tracing_errors_intro)

lemma load_attribute_error: "load_attribute item c = Inl e \<Longrightarrow> e \<in> tracing_errors"
proof -
  assume "load_attribute item c = Inl e"
  then have "e = invalid ''OTEL_RESOURCE_ATTRIBUTES'' \<or>
      e = invalid ''OTEL_RESOURCE_ATTRIBUTES: attribute not supported by pinned OPA''"
    by (simp add: load_attribute_def Let_def result_simps split: if_splits prod.splits option.splits) blast+
  then show ?thesis by (auto simp: tracing_error_names_def intro!: tracing_errors_intro)
qed

lemma load_resource_error: "load_resource lookup c = Inl e \<Longrightarrow> e \<in> tracing_errors"
  by (auto simp: load_resource_def result_simps Let_def elim!: foldR_error dest: load_attribute_error)

lemma load_batch_error: "load_batch lookup c = Inl e \<Longrightarrow> e \<in> tracing_errors"
proof -
  assume "load_batch lookup c = Inl e"
  then consider "foldR (load_batch_item lookup) batch_suffixes c = Inl e"
    | "e = invalid ''OTEL_BSP_MAX_EXPORT_BATCH_SIZE: exceeds queue size''"
    by (auto simp: load_batch_def result_simps)
  then show ?thesis
  proof cases
    case 1
    then obtain s u where s: "s \<in> set batch_suffixes" "load_batch_item lookup s u = Inl e"
      by (rule foldR_error)
    then have "e = invalid (''OTEL_BSP_'' @ s)"
      by (auto simp: load_batch_item_def Let_def split: if_splits option.splits)
    moreover have "''OTEL_BSP_'' @ s \<in> set tracing_error_names"
      using s(1) by (simp add: tracing_error_names_def)
    ultimately show ?thesis by (simp add: tracing_errors_intro)
  next
    case 2
    then show ?thesis by (auto simp: tracing_error_names_def intro!: tracing_errors_intro)
  qed
qed

lemma load_sampler_error: "load_sampler lib lookup c = Inl e \<Longrightarrow> e \<in> tracing_errors"
proof -
  assume "load_sampler lib lookup c = Inl e"
  then have "e \<in> invalid ` {''OTEL_TRACES_SAMPLER_ARG'',
      ''OTEL_TRACES_SAMPLER: pinned OPA requires a parent-based sampler'',
      ''OTEL_TRACES_SAMPLER_ARG: requires parentbased_traceidratio''}"
    by (simp add: load_sampler_def Let_def result_simps split: if_splits option.splits)
  then show ?thesis by (auto simp: tracing_error_names_def intro!: tracing_errors_intro)
qed

lemma check_exporters_error:
  "foldR (check_exporter lib lookup) [otlpPrefix, tracesPrefix] () = Inl e \<Longrightarrow> e \<in> tracing_errors"
  by (erule foldR_error) (auto intro: check_exporter_error)

lemmas section_errors = load_protocol_error check_exporters_error load_tls_error load_resource_error
  load_sampler_error load_batch_error

lemma flag_errors:
  "invalid ''OTEL_SDK_DISABLED'' \<in> tracing_errors" "invalid ''OTEL_TRACES_EXPORTER'' \<in> tracing_errors"
  "invalid ''OTEL_PROPAGATORS: OPA-Envoy uses fixed W3C and B3 propagation'' \<in> tracing_errors"
  by (auto simp: tracing_error_names_def intro!: tracing_errors_intro)

lemma LoadTracing_error_source:
  assumes "LoadTracing lib lookup = Inl e"
  shows "e \<in> tracing_errors \<or>
    (\<exists>p. load_protocol lookup = Inr p \<and>
       foldR (check_exporter lib lookup) [otlpPrefix, tracesPrefix] () = Inr () \<and>
       load_endpoint lib lookup (fresh_tracing\<lparr>Protocol := p\<rparr>) = Inl e)"
proof (rule ccontr)
  assume neg: "\<not> ?thesis"
  then have ne: "e \<notin> tracing_errors" by blast
  then have n: "e \<noteq> invalid ''OTEL_SDK_DISABLED''" "e \<noteq> invalid ''OTEL_TRACES_EXPORTER''"
    "e \<noteq> invalid ''OTEL_PROPAGATORS: OPA-Envoy uses fixed W3C and B3 propagation''"
    "load_protocol lookup \<noteq> Inl e" "foldR (check_exporter lib lookup) [otlpPrefix, tracesPrefix] () \<noteq> Inl e"
    "\<And>c. load_tls lookup c \<noteq> Inl e" "\<And>c. load_resource lookup c \<noteq> Inl e"
    "\<And>c. load_sampler lib lookup c \<noteq> Inl e" "\<And>c. load_batch lookup c \<noteq> Inl e"
    using flag_errors section_errors by blast+
  then have "\<exists>p. load_protocol lookup = Inr p \<and>
       foldR (check_exporter lib lookup) [otlpPrefix, tracesPrefix] () = Inr () \<and>
       load_endpoint lib lookup (fresh_tracing\<lparr>Protocol := p\<rparr>) = Inl e"
    using assms unfolding LoadTracing_def Let_def
    by (simp add: result_simps del: foldR.simps split: if_splits)
  with neg show False by blast
qed

section \<open>Properties\<close>

text \<open>
  C37: an accepted, enabled tracing configuration is one the pinned exporter honours: a known
  protocol, a client certificate exactly with its key, TLS files only with an https
  endpoint, a sample ratio in [0, 1], positive batch numbers that do not overflow as
  nanoseconds, no batch above its queue, only supported resource attributes; and https is
  never combined with the INSECURE switch.
\<close>

theorem LoadTracing_accepts_only_exportable:
  assumes "LoadTracing lib lookup = Inr (Some c)" and "\<not> Disabled c"
  shows "tracing_ok c \<and> \<not> (TLS c \<and> equal_fold (effective lookup ''INSECURE'') ''true'')"
  using LoadTracing_tracing_ok [OF assms] by blast

text \<open>Inputs for the witnesses: an environment as an association list, and a URL parser for them.\<close>

definition env_of :: "(string \<times> string) list \<Rightarrow> lookup" where
  "env_of e = (\<lambda>k. case map_of e k of None \<Rightarrow> ([], False) | Some v \<Rightarrow> (v, True))"

definition plain_url :: "string \<Rightarrow> nat \<Rightarrow> string \<Rightarrow> url" where
  "plain_url sch n s =
     (let h = takeWhile (\<lambda>x. x \<noteq> CHR ''/'') (drop n s)
      in \<lparr>u_Scheme = sch, u_Host = h, u_Hostname = takeWhile (\<lambda>x. x \<noteq> CHR '':'') h, u_HasUser = False,
          u_RawQuery = [], u_Fragment = [], u_Path = dropWhile (\<lambda>x. x \<noteq> CHR ''/'') (drop n s)\<rparr>)"

definition plain_lib :: golib where
  "plain_lib = \<lparr>url_Parse = (\<lambda>s. if prefix ''https://'' s then Some (plain_url ''https'' 8 s)
                               else if prefix ''http://'' s then Some (plain_url ''http'' 7 s) else None),
               ParseFloat = (\<lambda>s. if s = ''0.25'' then Some (Finite (1 / 4)) else None)\<rparr>"

definition sample_env :: lookup where
  "sample_env = env_of [(''OTEL_EXPORTER_OTLP_PROTOCOL'', ''grpc''),
     (''OTEL_EXPORTER_OTLP_TRACES_ENDPOINT'', ''https://traces:443''),
     (''OTEL_EXPORTER_OTLP_CERTIFICATE'', ''/trace.pem''), (''OTEL_SERVICE_NAME'', ''opa'')]"

lemma sample_env_loads:
  "case LoadTracing plain_lib sample_env of
     Inr (Some c) \<Rightarrow> \<not> Disabled c \<and> TLS c \<and> Address c = ''traces:443'' \<and> ServiceName c = ''opa''
   | _ \<Rightarrow> False"
  by code_simp

theorem LoadTracing_accepts_only_exportable_witness:
  "\<exists>c. LoadTracing plain_lib sample_env = Inr (Some c) \<and> TLS c \<and> tracing_ok c"
proof -
  obtain c where c: "LoadTracing plain_lib sample_env = Inr (Some c)" "\<not> Disabled c" "TLS c"
    using sample_env_loads by (auto split: sum.splits option.splits)
  then show ?thesis using LoadTracing_accepts_only_exportable [OF c(1,2)] by blast
qed

text \<open>
  C38: a rejected configuration is reported by one of a fixed set of texts that name variables
  only: whatever the environment holds (endpoints with credentials, header values), no part
  of a value reaches the error.  The hypothesis is that the two default endpoints parse.
\<close>

theorem LoadTracing_errors_name_variables_only:
  assumes "\<forall>p. url_Parse lib (default_endpoint p) \<noteq> None"
    and "LoadTracing lib lookup = Inl e"
  shows "e \<in> invalid ` set tracing_error_names"
proof -
  have "e \<in> tracing_errors"
    using LoadTracing_error_source [OF assms(2)]
  proof (elim disjE exE conjE)
    fix p
    assume p: "foldR (check_exporter lib lookup) [otlpPrefix, tracesPrefix] () = Inr ()"
      "load_endpoint lib lookup (fresh_tracing\<lparr>Protocol := p\<rparr>) = Inl e"
    then have "check_exporter lib lookup otlpPrefix () = Inr ()" "check_exporter lib lookup tracesPrefix () = Inr ()"
      by (simp_all add: result_simps)
    from load_endpoint_error [OF p(2) effective_endpoint_parses [OF this assms(1)]]
    show ?thesis .
  qed
  then show ?thesis by (simp add: tracing_errors_def)
qed

lemma plain_lib_defaults: "\<forall>p. url_Parse plain_lib (default_endpoint p) \<noteq> None"
  by (simp add: plain_lib_def default_endpoint_def)

lemma secret_endpoint_refused:
  "LoadTracing plain_lib (env_of [(''OTEL_EXPORTER_OTLP_HEADERS'', ''token=secret%zz'')]) =
     Inl (invalid ''OTEL_EXPORTER_OTLP_HEADERS'')"
proof -
  let ?r = "LoadTracing plain_lib (env_of [(''OTEL_EXPORTER_OTLP_HEADERS'', ''token=secret%zz'')])"
  have "case ?r of Inl e \<Rightarrow> e = invalid ''OTEL_EXPORTER_OTLP_HEADERS'' | Inr _ \<Rightarrow> False"
    by code_simp
  then show ?thesis by (cases ?r) auto
qed

theorem LoadTracing_errors_name_variables_only_witness:
  "invalid ''OTEL_EXPORTER_OTLP_HEADERS'' \<in> invalid ` set tracing_error_names"
  by (rule LoadTracing_errors_name_variables_only [OF plain_lib_defaults secret_endpoint_refused])

text \<open>
  The native OPA configuration stays untouched (nil result) exactly when every tracing
  variable is unset or blank; a blank value, also at the more specific level, counts as unset.
\<close>

theorem LoadTracing_nil_iff_blank:
  "LoadTracing lib lookup = Inr None \<longleftrightarrow>
     list_all (\<lambda>name. trim_space (fst (lookup name)) = []) tracing_names"
proof -
  have "LoadTracing lib lookup = Inr None \<longleftrightarrow> \<not> configured lookup"
    unfolding LoadTracing_def Let_def by (simp add: result_simps refuse_def del: foldR.simps)
  then show ?thesis by (auto simp: configured_def list_ex_iff list_all_iff get_def)
qed

end
