(* ===== verification/Config.thy ===== *)
theory Config
  imports GoPath Tracing
begin

text \<open>
  \<^verbatim>\<open>config/config.go\<close>: the startup and volume contract.  \<open>Load\<close> reads the
  environment over the defaults, \<open>Validate\<close> refuses every configuration the daemon cannot
  honour; both keep the order of the code's checks, so the first failing check decides the
  error.  The lemmas show that the three directories of a validated configuration are
  disjoint as directory trees, that every derived path lies in its own directory, and that
  \<open>Load\<close> returns only validated configurations.
\<close>

definition Workload :: string where "Workload = ''workload''"
definition Egress :: string where "Egress = ''egress''"
definition Standalone :: string where "Standalone = ''standalone''"
definition Istio :: string where "Istio = ''istio''"

definition EnvIdentityProvider :: string where "EnvIdentityProvider = ''GATEWAY_IDENTITY_PROVIDER''"
definition EnvRole :: string where "EnvRole = ''GATEWAY_ROLE''"
definition EnvProxyMode :: string where "EnvProxyMode = ''GATEWAY_PROXY_MODE''"
definition EnvOPAConfig :: string where "EnvOPAConfig = ''OPA_CONFIG''"
definition EnvEnvoyConfig :: string where "EnvEnvoyConfig = ''ENVOY_CONFIG''"
definition EnvStateDir :: string where "EnvStateDir = ''GATEWAY_STATE_DIR''"
definition EnvPublicDir :: string where "EnvPublicDir = ''GATEWAY_PUBLIC_DIR''"
definition EnvRuntimeDir :: string where "EnvRuntimeDir = ''GATEWAY_RUNTIME_DIR''"
definition DefaultStateDir :: string where "DefaultStateDir = ''/var/lib/gateway/private''"
definition DefaultPublicDir :: string where "DefaultPublicDir = ''/run/gateway/trust''"
definition DefaultRuntimeDir :: string where "DefaultRuntimeDir = ''/run/gateway/private''"
definition CACertificateFile :: string where "CACertificateFile = ''inspection-ca.pem''"
definition CAStateFile :: string where "CAStateFile = ''inspection-ca.json''"
definition BundleFile :: string where "BundleFile = ''ca-bundle.pem''"
definition InspectionSDSFile :: string where "InspectionSDSFile = ''inspection-sds.sock''"

record config =
  IdentityProvider :: string
  Role :: string
  ProxyMode :: string
  OPAConfig :: string
  EnvoyConfig :: string
  StateDir :: string
  PublicDir :: string
  RuntimeDir :: string
  Tracing :: "tracing option"

definition Defaults :: config where
  "Defaults =
     \<lparr>IdentityProvider = ''istio-mtls'', Role = Workload, ProxyMode = Istio,
      OPAConfig = ''/etc/gateway/opa/workload.yaml'', EnvoyConfig = [],
      StateDir = DefaultStateDir, PublicDir = DefaultPublicDir, RuntimeDir = DefaultRuntimeDir,
      Tracing = None\<rparr>"

text \<open>The error texts, by the format they come from.\<close>

datatype config_error =
    LegacyWorkloadConfig
  | EmptyValue string
  | TracingError string
  | UnsupportedIdentity string
  | UnsupportedRole string
  | UnsupportedMode string
  | NotCleanAbsolute string
  | EnvoyConfigRequired
  | EnvoyConfigUnderIstio
  | EnvoyConfigNotClean
  | StateRuntimeOverlap
  | PublicPrivateOverlap

definition env_value :: "lookup \<Rightarrow> string \<Rightarrow> string \<Rightarrow> (config_error, string) result" where
  "env_value lookup name fallback =
     (case lookup name of (v, found) \<Rightarrow>
        if \<not> found then Inr fallback
        else if v = [] then Inl (EmptyValue name)
        else Inr v)"

definition contains :: "string \<Rightarrow> string \<Rightarrow> bool" where
  "contains parent child =
     (case rel parent child of None \<Rightarrow> False | Some r \<Rightarrow> is_local r)"

definition clean_abs :: "string \<Rightarrow> bool" where
  "clean_abs path \<longleftrightarrow> is_abs path \<and> clean path = path"

definition check_dir :: "string \<Rightarrow> unit \<Rightarrow> (config_error, unit) result" where
  "check_dir path _ = refuse (\<not> clean_abs path \<or> path = ''/'') (NotCleanAbsolute path) (Inr ())"

definition check_public :: "config \<Rightarrow> string \<Rightarrow> unit \<Rightarrow> (config_error, unit) result" where
  "check_public c dir _ =
     refuse (contains (PublicDir c) dir \<or> contains dir (PublicDir c)) PublicPrivateOverlap (Inr ())"

definition Validate :: "config \<Rightarrow> (config_error, unit) result" where
  "Validate c =
     refuse (IdentityProvider c \<noteq> ''istio-mtls'') (UnsupportedIdentity (IdentityProvider c))
    (refuse (Role c \<noteq> Workload \<and> Role c \<noteq> Egress) (UnsupportedRole (Role c))
    (refuse (ProxyMode c \<noteq> Standalone \<and> ProxyMode c \<noteq> Istio) (UnsupportedMode (ProxyMode c))
    (bindR (foldR check_dir [OPAConfig c, StateDir c, PublicDir c, RuntimeDir c] ()) (\<lambda>_.
     refuse (ProxyMode c = Standalone \<and> EnvoyConfig c = []) EnvoyConfigRequired
    (refuse (ProxyMode c = Istio \<and> EnvoyConfig c \<noteq> []) EnvoyConfigUnderIstio
    (refuse (EnvoyConfig c \<noteq> [] \<and> \<not> clean_abs (EnvoyConfig c)) EnvoyConfigNotClean
    (refuse (contains (StateDir c) (RuntimeDir c) \<or> contains (RuntimeDir c) (StateDir c)) StateRuntimeOverlap
    (foldR (check_public c) [StateDir c, RuntimeDir c] ()))))))))"

text \<open>
  \<^verbatim>\<open>Load\<close>: the legacy variable first, then role and mode, then the remaining values in
  the order of the code's table, tracing, and the validation.  On an error the caller drops
  the partly filled configuration, so the error is the whole result.
\<close>

definition Load :: "golib \<Rightarrow> lookup \<Rightarrow> (config_error, config) result" where
  "Load lib lookup =
     (let c = Defaults in
      refuse (snd (lookup ''GATEWAY_WORKLOAD_CONFIG'')) LegacyWorkloadConfig
     (bindR (env_value lookup EnvRole (Role c)) (\<lambda>role.
      bindR (env_value lookup EnvProxyMode (ProxyMode c)) (\<lambda>mode.
      bindR (env_value lookup EnvIdentityProvider (IdentityProvider c)) (\<lambda>identity.
      bindR (env_value lookup EnvOPAConfig (''/etc/gateway/opa/'' @ role @ ''.yaml'')) (\<lambda>opa.
      bindR (env_value lookup EnvEnvoyConfig []) (\<lambda>envoy.
      bindR (env_value lookup EnvStateDir (StateDir c)) (\<lambda>state.
      bindR (env_value lookup EnvPublicDir (PublicDir c)) (\<lambda>public.
      bindR (env_value lookup EnvRuntimeDir (RuntimeDir c)) (\<lambda>runtime.
      bindR (case LoadTracing lib lookup of Inl e \<Rightarrow> Inl (TracingError e) | Inr t \<Rightarrow> Inr t) (\<lambda>tracing.
      let c = c\<lparr>Role := role, ProxyMode := mode, IdentityProvider := identity, OPAConfig := opa,
                EnvoyConfig := envoy, StateDir := state, PublicDir := public, RuntimeDir := runtime,
                Tracing := tracing\<rparr>
      in bindR (Validate c) (\<lambda>_. Inr c))))))))))))"

definition PublicCAPath :: "config \<Rightarrow> string" where
  "PublicCAPath c = join_path [PublicDir c, CACertificateFile]"
definition OPASocketPath :: "config \<Rightarrow> string" where
  "OPASocketPath c = join_path [RuntimeDir c, ''opa.sock'']"
definition OPAAddress :: "config \<Rightarrow> string" where
  "OPAAddress c = ''unix://'' @ join_path [RuntimeDir c, ''opa.sock'']"
definition EnvoyAdminPath :: "config \<Rightarrow> string" where
  "EnvoyAdminPath c = join_path [RuntimeDir c, ''envoy-admin.sock'']"
definition InspectionSDSPath :: "config \<Rightarrow> string" where
  "InspectionSDSPath c = join_path [RuntimeDir c, InspectionSDSFile]"
definition RequestGuardPath :: "config \<Rightarrow> string" where
  "RequestGuardPath c = join_path [RuntimeDir c, ''https-guard.lua'']"

section \<open>Containment as an interface\<close>

text \<open>
  What the validation needs of the containment test: on the paths it accepts, containment is
  the prefix order of the element lists.  Everything about disjoint trees follows.
\<close>

locale containment =
  fixes covers :: "string \<Rightarrow> string \<Rightarrow> bool"
    and valid :: "string \<Rightarrow> bool"
    and parts :: "string \<Rightarrow> string list"
  assumes covers_iff: "valid p \<Longrightarrow> valid q \<Longrightarrow> covers p q \<longleftrightarrow> prefix (parts p) (parts q)"
begin

lemma covers_refl: "valid p \<Longrightarrow> covers p p"
  by (simp add: covers_iff)

lemma covers_trans: "valid p \<Longrightarrow> valid q \<Longrightarrow> valid r \<Longrightarrow> covers p q \<Longrightarrow> covers q r \<Longrightarrow> covers p r"
  by (auto simp: covers_iff intro: prefix_order.trans)

text \<open>Two directories of which neither contains the other share no descendant.\<close>

lemma disjoint_trees:
  assumes "valid p" "valid q"
  shows "(\<not> covers p q \<and> \<not> covers q p) \<longleftrightarrow> (\<nexists>f. prefix (parts p) f \<and> prefix (parts q) f)"
  using assms covers_iff by (metis prefix_order.refl prefix_same_cases)

end

lemma contains_iff_prefix:
  assumes "clean_abs p" "clean_abs q"
  shows "contains p q \<longleftrightarrow> prefix (elems p) (elems q)"
proof -
  obtain ps where p: "proper_all ps" "p = abs_path ps" "elems p = ps"
    using assms(1) clean_abs_cases unfolding clean_abs_def by metis
  obtain qs where q: "proper_all qs" "q = abs_path qs" "elems q = qs"
    using assms(2) clean_abs_cases unfolding clean_abs_def by metis
  show ?thesis
    using rel_local_iff_prefix [OF p(1) q(1)] p q by (auto simp: contains_def split: option.splits)
qed

interpretation dirs: containment contains clean_abs elems
  by unfold_locales (rule contains_iff_prefix)

section \<open>What validation guarantees\<close>

definition apart :: "string \<Rightarrow> string \<Rightarrow> bool" where
  "apart p q \<longleftrightarrow> (\<nexists>f. prefix (elems p) f \<and> prefix (elems q) f)"

lemma apart_sym: "apart p q \<longleftrightarrow> apart q p"
  by (auto simp: apart_def)

lemma apart_iff: "clean_abs p \<Longrightarrow> clean_abs q \<Longrightarrow> apart p q \<longleftrightarrow> \<not> contains p q \<and> \<not> contains q p"
  unfolding apart_def using dirs.disjoint_trees by blast

definition dir_ok :: "string \<Rightarrow> bool" where
  "dir_ok p \<longleftrightarrow> clean_abs p \<and> p \<noteq> ''/''"

lemma check_dirs_iff: "foldR check_dir ds () = Inr () \<longleftrightarrow> (\<forall>d\<in>set ds. dir_ok d)"
  by (induction ds) (auto simp: check_dir_def dir_ok_def result_simps)

lemma check_publics_iff:
  "foldR (check_public c) ds () = Inr () \<longleftrightarrow>
     (\<forall>d\<in>set ds. \<not> contains (PublicDir c) d \<and> \<not> contains d (PublicDir c))"
  by (induction ds) (auto simp: check_public_def result_simps)

text \<open>The specification of an acceptable configuration, stated without the code's functions.\<close>

definition config_ok :: "config \<Rightarrow> bool" where
  "config_ok c \<longleftrightarrow>
     IdentityProvider c = ''istio-mtls'' \<and> Role c \<in> {Workload, Egress} \<and>
     ProxyMode c \<in> {Standalone, Istio} \<and>
     dir_ok (OPAConfig c) \<and> dir_ok (StateDir c) \<and> dir_ok (PublicDir c) \<and> dir_ok (RuntimeDir c) \<and>
     (ProxyMode c = Standalone \<longleftrightarrow> EnvoyConfig c \<noteq> []) \<and>
     (EnvoyConfig c \<noteq> [] \<longrightarrow> clean_abs (EnvoyConfig c)) \<and>
     apart (StateDir c) (RuntimeDir c) \<and> apart (PublicDir c) (StateDir c) \<and> apart (PublicDir c) (RuntimeDir c)"

lemma modes_differ: "Standalone \<noteq> Istio"
  by (simp add: Standalone_def Istio_def)

lemma Validate_config_ok: "Validate c = Inr () \<longleftrightarrow> config_ok c"
proof -
  have "Validate c = Inr () \<longleftrightarrow>
     IdentityProvider c = ''istio-mtls'' \<and> (Role c = Workload \<or> Role c = Egress) \<and>
     (ProxyMode c = Standalone \<or> ProxyMode c = Istio) \<and>
     (\<forall>d\<in>set [OPAConfig c, StateDir c, PublicDir c, RuntimeDir c]. dir_ok d) \<and>
     \<not> (ProxyMode c = Standalone \<and> EnvoyConfig c = []) \<and>
     \<not> (ProxyMode c = Istio \<and> EnvoyConfig c \<noteq> []) \<and>
     \<not> (EnvoyConfig c \<noteq> [] \<and> \<not> clean_abs (EnvoyConfig c)) \<and>
     \<not> (contains (StateDir c) (RuntimeDir c) \<or> contains (RuntimeDir c) (StateDir c)) \<and>
     (\<forall>d\<in>set [StateDir c, RuntimeDir c]. \<not> contains (PublicDir c) d \<and> \<not> contains d (PublicDir c))"
    unfolding Validate_def check_dirs_iff [symmetric] check_publics_iff [symmetric]
    by (auto simp del: foldR.simps simp: result_simps)
  note unfolded = this
  have ap: "dir_ok p \<Longrightarrow> dir_ok q \<Longrightarrow> apart p q \<longleftrightarrow> \<not> (contains p q \<or> contains q p)" for p q
    by (simp add: dir_ok_def apart_iff)
  show ?thesis
  proof (cases "dir_ok (StateDir c) \<and> dir_ok (PublicDir c) \<and> dir_ok (RuntimeDir c)")
    case True
    then show ?thesis
      unfolding unfolded config_ok_def using modes_differ by (simp add: ap) metis
  next
    case False
    then show ?thesis unfolding unfolded config_ok_def list.set by blast
  qed
qed

lemma Load_config_ok:
  assumes "Load lib lookup = Inr c"
  shows "config_ok c" and "LoadTracing lib lookup = Inr (Tracing c)"
  using assms unfolding Load_def Let_def Validate_config_ok [symmetric]
  by (auto simp: result_simps split: sum.splits)

text \<open>The elements of a file directly inside a validated directory.\<close>

lemma join_path_elems:
  assumes "dir_ok d" "proper f"
  shows "elems (join_path [d, f]) = elems d @ [f]" "clean_abs (join_path [d, f])"
proof -
  obtain es where es: "proper_all es" "d = abs_path es" "elems d = es"
    using assms(1) clean_abs_cases unfolding dir_ok_def clean_abs_def by metis
  then have "join_path [d, f] = abs_path (es @ [f])" "proper_all (es @ [f])"
    using join_path_abs assms(2) by simp_all
  then show "elems (join_path [d, f]) = elems d @ [f]" "clean_abs (join_path [d, f])"
    using es by (simp_all add: go_simps clean_abs_def)
qed

section \<open>Properties\<close>

text \<open>
  C35: validation accepts exactly the configurations of the contract: the supported identity
  provider, a known role and mode, clean absolute non-root paths, an Envoy bootstrap exactly
  in standalone mode, and state, public and runtime directories none of which shares any
  path with another (not merely different names).
\<close>

theorem Validate_iff_contract:
  "Validate c = Inr () \<longleftrightarrow> config_ok c"
  by (rule Validate_config_ok)

text \<open>
  A configuration that \<^verbatim>\<open>Load\<close> returns satisfies the contract, carries exactly the
  tracing input of the environment, and no path at all lies under two of the state, public
  and runtime directories: mounting the public directory exposes no private file.
\<close>

theorem Load_directories_disjoint:
  assumes "Load lib lookup = Inr c"
  shows "config_ok c \<and> LoadTracing lib lookup = Inr (Tracing c) \<and>
    \<not> (prefix (elems (PublicDir c)) f \<and> prefix (elems (StateDir c)) f) \<and>
    \<not> (prefix (elems (PublicDir c)) f \<and> prefix (elems (RuntimeDir c)) f) \<and>
    \<not> (prefix (elems (StateDir c)) f \<and> prefix (elems (RuntimeDir c)) f)"
  using Load_config_ok [OF assms] by (auto simp: config_ok_def apart_def)

lemma Load_default_env:
  "Load lib (env_of []) = Inr Defaults"
proof -
  have t: "LoadTracing lib (env_of []) = Inr None"
    by (simp add: LoadTracing_def configured_def get_def env_of_def go_simps list_ex_iff)
  have v: "Validate Defaults = Inr ()" by code_simp
  show ?thesis
    using v by (simp add: Load_def env_value_def t Let_def) (simp add: env_of_def Defaults_def Workload_def)
qed

theorem Load_directories_disjoint_witness:
  "config_ok Defaults \<and>
   \<not> (prefix (elems (PublicDir Defaults)) [''run'', ''gateway'', ''private''] \<and>
      prefix (elems (RuntimeDir Defaults)) [''run'', ''gateway'', ''private''])"
  using Load_directories_disjoint [OF Load_default_env [of plain_lib], of "[''run'', ''gateway'', ''private'']"]
  by blast

text \<open>
  With an empty environment the daemon starts from the documented defaults; an explicit
  empty value of any of the eight variables, and the removed legacy variable, are refused.
\<close>

theorem Load_defaults_and_empty_values:
  "Load lib (\<lambda>_. ([], False)) = Inr Defaults \<and>
   list_all (\<lambda>name. Load lib ((\<lambda>_. ([], False))(name := ([], True))) = Inl (EmptyValue name))
     [EnvRole, EnvProxyMode, EnvIdentityProvider, EnvOPAConfig, EnvEnvoyConfig, EnvStateDir,
      EnvPublicDir, EnvRuntimeDir] \<and>
   Load lib ((\<lambda>_. ([], False))(''GATEWAY_WORKLOAD_CONFIG'' := (v, True))) = Inl LegacyWorkloadConfig"
proof -
  have "Load lib (\<lambda>_. ([], False)) = Inr Defaults"
    using Load_default_env [of lib] by (simp add: env_of_def)
  then show ?thesis
    by (auto simp: Load_def Let_def env_value_def EnvRole_def EnvProxyMode_def EnvIdentityProvider_def
        EnvOPAConfig_def EnvEnvoyConfig_def EnvStateDir_def EnvPublicDir_def EnvRuntimeDir_def)
qed

text \<open>
  C36: every private file the daemon derives from a loaded configuration (request guard, SDS,
  OPA and Envoy admin sockets) lies directly in the runtime directory, and neither it nor
  anything below it is contained in the public directory; the public certificate lies
  directly in the public directory.
\<close>

theorem private_paths_stay_private:
  assumes "Load lib lookup = Inr c"
    and "p \<in> {RequestGuardPath c, InspectionSDSPath c, OPASocketPath c, EnvoyAdminPath c}"
  shows "butlast (elems p) = elems (RuntimeDir c) \<and> contains (RuntimeDir c) p \<and> \<not> contains (PublicDir c) p \<and>
    elems (PublicCAPath c) = elems (PublicDir c) @ [CACertificateFile]"
proof -
  have c: "config_ok c" by (rule Load_config_ok(1) [OF assms(1)])
  then have d: "dir_ok (RuntimeDir c)" "dir_ok (PublicDir c)" "apart (PublicDir c) (RuntimeDir c)"
    by (auto simp: config_ok_def)
  obtain f where f: "proper f" "p = join_path [RuntimeDir c, f]"
  proof -
    have "\<exists>f\<in>{''https-guard.lua'', InspectionSDSFile, ''opa.sock'', ''envoy-admin.sock''}.
        p = join_path [RuntimeDir c, f]"
      using assms(2)
      unfolding RequestGuardPath_def InspectionSDSPath_def OPASocketPath_def EnvoyAdminPath_def by blast
    moreover have "\<forall>f\<in>{''https-guard.lua'', InspectionSDSFile, ''opa.sock'', ''envoy-admin.sock''}. proper f"
      by (simp add: proper_def InspectionSDSFile_def)
    ultimately show thesis using that by blast
  qed
  note p = join_path_elems [OF d(1) f(1), folded f(2)]
  have "proper CACertificateFile" by (simp add: proper_def CACertificateFile_def)
  then have "elems (PublicCAPath c) = elems (PublicDir c) @ [CACertificateFile]"
    using join_path_elems(1) [OF d(2)] by (simp add: PublicCAPath_def)
  moreover have "\<not> prefix (elems (PublicDir c)) (elems p)"
    using d(3) p(1) by (auto simp: apart_def)
  ultimately show ?thesis
    using p d(1,2) by (simp add: dirs.covers_iff dir_ok_def)
qed

theorem private_paths_stay_private_witness:
  "\<not> contains (PublicDir Defaults) (InspectionSDSPath Defaults)"
  using private_paths_stay_private [OF Load_default_env [of plain_lib], of "InspectionSDSPath Defaults"] by blast

end
