(* ===== verification/X509.thy ===== *)
theory X509
  imports Config
begin

text \<open>
  The certificate material the inspection package handles, and the part of Go's
  cryptography it calls, as the record \<open>crypto\<close>: key generation, random serials, signing,
  parsing and encoding are arguments of the definitions that use them.  A source of
  randomness is a draw number; the code's state advances it with every draw.  Times are
  nanoseconds since an epoch, as \<^verbatim>\<open>time.Time\<close> compares them, and a duration is their
  difference.
\<close>

type_synonym bytes = string
type_synonym time = int

definition second :: time where "second = 1000000000"
definition minute :: time where "minute = 60 * second"
definition hour :: time where "hour = 60 * minute"

datatype key_usage = DigitalSignature | CertSign | CRLSign
datatype ext_key_usage = ServerAuth

text \<open>The template handed to \<^verbatim>\<open>x509.CreateCertificate\<close>.\<close>

record template =
  SerialNumber :: nat
  CommonName :: string
  DNSNames :: "string list"
  t_NotBefore :: time
  t_NotAfter :: time
  t_IsCA :: bool
  t_BasicConstraintsValid :: bool
  MaxPathLenZero :: bool
  t_KeyUsage :: "key_usage list"
  ExtKeyUsage :: "ext_key_usage list"

text \<open>The fields of a parsed certificate that the code reads.\<close>

record certificate =
  Raw :: bytes
  NotBefore :: time
  NotAfter :: time
  IsCA :: bool
  BasicConstraintsValid :: bool
  KeyUsage :: "key_usage list"

datatype private_key = ECDSA bytes | OtherKey

record pem_block =
  BlockType :: string
  Headers :: nat \<comment> \<open>number of headers\<close>
  Bytes :: bytes

text \<open>\<^verbatim>\<open>tls.X509KeyPair\<close> gives the parsed leaf (nil is possible) and the private key.\<close>

record crypto =
  GenerateKey :: "nat \<Rightarrow> private_key option"
  RandSerial :: "nat \<Rightarrow> nat option"
  CreateCertificate :: "nat \<Rightarrow> template \<Rightarrow> bytes option \<Rightarrow> private_key \<Rightarrow> private_key \<Rightarrow> bytes option"
  MarshalPKCS8 :: "private_key \<Rightarrow> bytes option"
  X509KeyPair :: "bytes \<Rightarrow> bytes \<Rightarrow> (certificate option \<times> private_key) option"
  CheckSelfSigned :: "certificate \<Rightarrow> bool"
  ParseCertificate :: "bytes \<Rightarrow> bool"
  PemEncode :: "string \<Rightarrow> bytes \<Rightarrow> bytes"
  PemDecode :: "bytes \<Rightarrow> (pem_block \<times> bytes) option"
  PemEncodeBlock :: "pem_block \<Rightarrow> bytes option"
  MarshalSecret :: "string \<Rightarrow> bytes \<Rightarrow> bytes \<Rightarrow> bytes option"

text \<open>An open authority: its certificate and its signing key; the lock is held while it is open.\<close>

record authority =
  Certificate :: certificate
  key :: private_key

end
