(* ===== verification/Leaf.thy ===== *)
theory Leaf
  imports X509
begin

text \<open>
  \<^verbatim>\<open>internal/inspection/leaf.go\<close>: the check of an untrusted server name and the issue
  of a short-lived leaf certificate for it.  \<open>canonicalName\<close> returns \<open>None\<close> where the code
  returns one of its errors, which every caller only tests for.  The locale \<open>name_check\<close>
  states what the clients of a server name check rely on; it is interpreted on
  \<open>canonicalName\<close> here and on the Lua guard's own check in \<^verbatim>\<open>RequestGuard\<close>.
\<close>

section \<open>Server names\<close>

definition label_char :: "char \<Rightarrow> bool" where
  "label_char c \<longleftrightarrow> is_lower c \<or> is_digit c \<or> c = CHR ''-''"

definition label_ok :: "string \<Rightarrow> bool" where
  "label_ok l \<longleftrightarrow> l \<noteq> [] \<and> length l \<le> 63 \<and> hd l \<noteq> CHR ''-'' \<and> last l \<noteq> CHR ''-'' \<and> list_all label_char l"

definition canonicalName :: "string \<Rightarrow> string option" where
  "canonicalName name =
     (if length name = 0 \<or> length name > 253 \<or> suffix ''.'' name then None
      else let name = to_lower name
      in if parse_ipv4 name then None
      else if list_all label_ok (split_on (CHR ''.'') name) then Some name
      else None)"

definition host_char :: "char \<Rightarrow> bool" where
  "host_char c \<longleftrightarrow> label_char c \<or> c = CHR ''.''"

definition host_name :: "string \<Rightarrow> bool" where
  "host_name s \<longleftrightarrow> list_all label_ok (split_on (CHR ''.'') s) \<and> \<not> parse_ipv4 s"

lemma host_char_ascii: "host_char c \<Longrightarrow> is_ascii c"
  by (auto simp: host_char_def label_char_def is_lower_def is_digit_def is_ascii_def)

lemma host_char_not_upper: "host_char c \<Longrightarrow> \<not> is_upper c"
  by (auto simp: host_char_def label_char_def is_lower_def is_digit_def is_upper_def)

lemma host_name_chars:
  assumes "list_all label_ok (split_on (CHR ''.'') s)"
  shows "list_all host_char s"
proof -
  have l: "\<forall>l\<in>set (split_on (CHR ''.'') s). \<forall>c\<in>set l. label_char c"
    using assms by (auto simp: list_all_iff label_ok_def)
  have "set s \<subseteq> insert (CHR ''.'') (\<Union>x\<in>set (split_on (CHR ''.'') s). set x)"
    using set_join_with [of "CHR ''.''" "split_on (CHR ''.'') s"] by (simp add: join_split)
  then show ?thesis using l by (auto simp: list_all_iff host_char_def)
qed

lemma lower_id: "list_all host_char s \<Longrightarrow> to_lower s = s"
proof -
  assume h: "list_all host_char s"
  then have "\<forall>c\<in>set s. is_ascii c" by (auto simp: list_all_iff host_char_ascii)
  then have "to_lower s = map lower_char s" by (simp add: go_simps)
  also have "\<dots> = s"
    using h by (intro map_idI) (auto simp: list_all_iff lower_char_def dest: host_char_not_upper)
  finally show ?thesis .
qed

text \<open>
  The contract of a server name check: what it accepts is lower-case text of the given
  alphabet, and an accepted name is a fixed point, so checking twice changes nothing.
\<close>

locale name_check =
  fixes check :: "string \<Rightarrow> string option"
    and legal :: "char \<Rightarrow> bool"
  assumes check_legal: "check n = Some m \<Longrightarrow> list_all legal m"
    and check_length: "check n = Some m \<Longrightarrow> 0 < length m \<and> length m \<le> 253"
    and check_fixed: "check n = Some m \<Longrightarrow> check m = Some m"
begin

lemma idempotent: "Option.bind (check n) check = check n"
  by (cases "check n") (auto dest: check_fixed)

lemma illegal_char_refused: "check n = Some m \<Longrightarrow> \<not> legal c \<Longrightarrow> c \<notin> set m"
  using check_legal by (auto simp: list_all_iff)

lemma nonempty: "check n = Some m \<Longrightarrow> m \<noteq> []"
  using check_length by auto

end

lemma canonicalName_host:
  assumes "canonicalName n = Some m"
  shows "m = to_lower n" "host_name m" "0 < length n" "length n \<le> 253" "\<not> suffix ''.'' n"
  using assms by (auto simp: canonicalName_def Let_def host_name_def split: if_splits)

lemma map_runes_length: "length (map_runes sp s) \<le> length s"
proof (induction sp s rule: map_runes.induct)
  case (2 sp c s)
  show ?case
  proof (cases "find (\<lambda>p. prefix (fst p) (c # s)) sp")
    case None
    then show ?thesis using 2(1) by simp
  next
    case (Some p)
    have "length (map_runes sp (drop (length (fst p) - 1) s)) \<le> length s"
      using 2(2) [OF Some] by simp
    then show ?thesis using Some by simp
  qed
qed simp

lemma map_runes_Nil_iff: "map_runes sp s = [] \<longleftrightarrow> s = []"
  by (cases s) (auto split: option.splits)

lemma to_lower_length: "length (to_lower s) \<le> length s" "to_lower s = [] \<longleftrightarrow> s = []"
  by (simp_all add: to_lower_def map_runes_length map_runes_Nil_iff)

lemma host_name_no_trailing_dot:
  assumes "list_all label_ok (split_on (CHR ''.'') s)"
  shows "\<not> suffix ''.'' s"
proof
  assume "suffix ''.'' s"
  then obtain t where "s = t @ ''.''" by (auto simp: suffix_def)
  then have "[] \<in> set (split_on (CHR ''.'') s)" using split_append [of "CHR ''.''" t "[]"] by simp
  then show False using assms by (auto simp: list_all_iff label_ok_def)
qed

lemma canonicalName_fixed: "canonicalName n = Some m \<Longrightarrow> canonicalName m = Some m"
proof -
  assume n: "canonicalName n = Some m"
  note h = canonicalName_host [OF n]
  then have labels: "list_all label_ok (split_on (CHR ''.'') m)" by (simp add: host_name_def)
  have "to_lower m = m" by (rule lower_id [OF host_name_chars [OF labels]])
  moreover have "0 < length m" "length m \<le> 253"
    using h(1,3,4) to_lower_length [of n] by (auto simp: le_trans)
  moreover have "\<not> suffix ''.'' m" by (rule host_name_no_trailing_dot [OF labels])
  ultimately show ?thesis using h(2) labels by (simp add: canonicalName_def host_name_def)
qed

interpretation server_name: name_check canonicalName host_char
proof unfold_locales
  fix n m assume n: "canonicalName n = Some m"
  show "list_all host_char m"
    using canonicalName_host(2) [OF n] host_name_chars by (simp add: host_name_def)
  show "0 < length m \<and> length m \<le> 253"
    using canonicalName_host(1,3,4) [OF n] to_lower_length [of n] by (auto simp: le_trans)
  show "canonicalName m = Some m" by (rule canonicalName_fixed [OF n])
qed

section \<open>Leaf certificates\<close>

datatype issue_error = CANotUsable | KeyGeneration | SerialGeneration | SigningFailed | KeyEncoding

definition leaf_template :: "authority \<Rightarrow> string \<Rightarrow> nat \<Rightarrow> time \<Rightarrow> template" where
  "leaf_template a name serial now =
     (let expiry = now + hour;
          expiry = (if NotAfter (Certificate a) < expiry then NotAfter (Certificate a) else expiry)
      in \<lparr>SerialNumber = serial, CommonName = name, DNSNames = [name],
          t_NotBefore = now - minute, t_NotAfter = expiry, t_IsCA = False,
          t_BasicConstraintsValid = True, MaxPathLenZero = False,
          t_KeyUsage = [DigitalSignature], ExtKeyUsage = [ServerAuth]\<rparr>)"

text \<open>
  \<^verbatim>\<open>issue\<close>; the third result is the number of the next random draw.  The template is
  part of the result so that the theorems can speak of the certificate's content, which the
  encoded bytes hide.
\<close>

definition issue ::
  "crypto \<Rightarrow> authority \<Rightarrow> string \<Rightarrow> time \<Rightarrow> nat \<Rightarrow> (issue_error, bytes \<times> bytes \<times> template) result \<times> nat" where
  "issue cr a name now r =
     (if now < NotBefore (Certificate a) \<or> \<not> now + minute < NotAfter (Certificate a) then (Inl CANotUsable, r)
      else case GenerateKey cr r of
        None \<Rightarrow> (Inl KeyGeneration, r + 1)
      | Some k \<Rightarrow>
      (case RandSerial cr (r + 1) of
        None \<Rightarrow> (Inl SerialGeneration, r + 2)
      | Some serial \<Rightarrow>
      (let leaf = leaf_template a name serial now in
       case CreateCertificate cr (r + 2) leaf (Some (Raw (Certificate a))) k (key a) of
        None \<Rightarrow> (Inl SigningFailed, r + 3)
      | Some der \<Rightarrow>
      (case MarshalPKCS8 cr k of
        None \<Rightarrow> (Inl KeyEncoding, r + 3)
      | Some encodedKey \<Rightarrow>
          (Inr (PemEncode cr ''CERTIFICATE'' der, PemEncode cr ''PRIVATE KEY'' encodedKey, leaf), r + 3)))))"

lemma issue_Inr:
  assumes "issue cr a name now r = (Inr (c, k, t), r')"
  shows "NotBefore (Certificate a) \<le> now" "now + minute < NotAfter (Certificate a)"
    "\<exists>serial. t = leaf_template a name serial now" "r' = r + 3"
  using assms by (auto simp: issue_def Let_def split: if_splits option.splits)

lemma issue_draws: "issue cr a name now r = (x, r') \<Longrightarrow> r \<le> r'"
  by (auto simp: issue_def Let_def split: if_splits option.splits)

section \<open>Properties\<close>


text \<open>
  No accepted server name contains a path separator, a colon, a wildcard, a control
  character or any byte outside ASCII, whatever the untrusted SNI held.
\<close>

theorem canonicalName_safe_characters:
  assumes "canonicalName n = Some m" and "c \<in> set m"
  shows "is_ascii c \<and> \<not> is_upper c \<and> c \<notin> {CHR ''/'', CHR '':'', CHR ''*'', CHR 0x00, CHR ''%''}"
proof -
  have "host_char c" using server_name.check_legal [OF assms(1)] assms(2) by (auto simp: list_all_iff)
  moreover have "\<forall>x\<in>{CHR ''/'', CHR '':'', CHR ''*'', CHR 0x00, CHR ''%''}. \<not> host_char x"
    by (simp add: host_char_def label_char_def is_lower_def is_digit_def)
  ultimately show ?thesis using host_char_ascii host_char_not_upper by blast
qed

text \<open>Lower-casing is by rune, so a name with the Kelvin sign (U+212A) is taken for its ASCII image.\<close>

lemma canonicalName_kelvin: "canonicalName ([CHR 0xE2, CHR 0x84, CHR 0xAA] @ ''.test'') = Some ''k.test''"
  by code_simp

lemma canonicalName_example: "canonicalName ''NEW.Example.test'' = Some ''new.example.test''"
  by code_simp

theorem canonicalName_safe_characters_witness:
  "canonicalName ''NEW.Example.test'' = Some ''new.example.test'' \<and> is_ascii (CHR ''x'')"
  using canonicalName_safe_characters [OF canonicalName_example, of "CHR ''x''"] canonicalName_example by simp

text \<open>
  C32: an issued leaf is valid now, for at most one hour and never beyond its CA; it names
  exactly the requested host, is no CA itself and serves only server authentication.  A CA
  with at most a minute left issues nothing.
\<close>

theorem issue_bounded_by_authority:
  assumes "fst (issue cr a name now r) = Inr (c, k, t)"
  shows "t_NotBefore t \<le> now \<and> now + minute < t_NotAfter t \<and> t_NotAfter t \<le> now + hour \<and>
    t_NotAfter t \<le> NotAfter (Certificate a) \<and> DNSNames t = [name] \<and> \<not> t_IsCA t \<and>
    t_KeyUsage t = [DigitalSignature] \<and> ExtKeyUsage t = [ServerAuth] \<and>
    now + minute < NotAfter (Certificate a) \<and> NotBefore (Certificate a) \<le> now"
proof -
  obtain r' where i: "issue cr a name now r = (Inr (c, k, t), r')"
    using assms by (cases "issue cr a name now r") auto
  obtain serial where "t = leaf_template a name serial now" using issue_Inr(3) [OF i] by blast
  then show ?thesis
    using issue_Inr(1,2) [OF i] by (auto simp: leaf_template_def Let_def hour_def minute_def second_def)
qed

text \<open>A concrete instance of the library calls, for the witnesses: signing echoes the name.\<close>

definition toy_crypto :: crypto where
  "toy_crypto =
     \<lparr>GenerateKey = (\<lambda>r. Some (ECDSA [byte r])), RandSerial = (\<lambda>r. Some r),
      CreateCertificate = (\<lambda>r t p k s. Some (CommonName t)),
      MarshalPKCS8 = (\<lambda>k. case k of ECDSA b \<Rightarrow> Some b | OtherKey \<Rightarrow> None),
      X509KeyPair = (\<lambda>c k. Some (Some \<lparr>Raw = c, NotBefore = 0, NotAfter = 100 * hour, IsCA = True,
          BasicConstraintsValid = True, KeyUsage = [CertSign, CRLSign]\<rparr>, ECDSA k)),
      CheckSelfSigned = (\<lambda>c. True), ParseCertificate = (\<lambda>b. True),
      PemEncode = (\<lambda>ty b. b), PemDecode = (\<lambda>b. Some (\<lparr>BlockType = ''CERTIFICATE'', Headers = 0, Bytes = b\<rparr>, [])),
      PemEncodeBlock = (\<lambda>b. Some (Bytes b)), MarshalSecret = (\<lambda>n c k. Some (n @ c @ k))\<rparr>"

definition toy_authority :: authority where
  "toy_authority =
     \<lparr>Certificate = \<lparr>Raw = ''ca'', NotBefore = 0, NotAfter = 100 * hour, IsCA = True,
        BasicConstraintsValid = True, KeyUsage = [CertSign, CRLSign]\<rparr>, key = ECDSA ''ca''\<rparr>"

lemma issue_example:
  "fst (issue toy_crypto toy_authority ''a.test'' hour 0) =
     Inr (''a.test'', [byte 0], leaf_template toy_authority ''a.test'' 1 hour)"
  by (simp add: issue_def toy_crypto_def toy_authority_def Let_def hour_def minute_def second_def)
     (simp add: leaf_template_def Let_def)

theorem issue_bounded_by_authority_witness:
  "t_NotAfter (leaf_template toy_authority ''a.test'' 1 hour) \<le> NotAfter (Certificate toy_authority)"
  using issue_bounded_by_authority [OF issue_example] by blast

end
