(* ===== verification/SDS.thy ===== *)
theory SDS
  imports Leaf
begin

text \<open>
  \<^verbatim>\<open>internal/inspection/sds.go\<close>: the cache of inspection certificates and the Delta
  SDS service over it.  The cache keeps the code's two structures: \<open>lru\<close>, the list of
  elements with the most recently used first, and \<open>entries\<close>, the map from names to elements;
  an element is a pointer, here its number.  Every operation that runs under the server's
  mutex is one function on the server state.  A failed update returns the state it has
  already changed, as the code does.
  The locale \<open>recency_cache\<close> states what a client of the cache relies on.
\<close>

section \<open>Data\<close>

definition secretType :: string where
  "secretType = ''type.googleapis.com/envoy.extensions.transport_sockets.tls.v3.Secret''"
definition secretTTL :: time where "secretTTL = 10 * minute"
definition maxRequestNames :: nat where "maxRequestNames = 128"
definition updateQueue :: nat where "updateQueue = 4"

text \<open>The version and nonce texts are the decimal form of the 64-bit counters; the model keeps the counter.\<close>

record resource =
  r_Name :: string
  r_Version :: "64 word"
  r_Resource :: bytes
  r_Ttl :: time
  r_Leaf :: template \<comment> \<open>ghost: the content of the certificate inside \<open>r_Resource\<close>\<close>

record cachedSecret =
  cs_name :: string
  cs_resource :: resource
  cs_expires :: time

record request =
  TypeUrl :: string
  ResourceNamesSubscribe :: "string list"
  ResourceNamesUnsubscribe :: "string list"
  InitialResourceVersions :: "string list"
  ErrorDetail :: bool

record response =
  Nonce :: "64 word"
  SystemVersionInfo :: string
  Resources :: "resource list"
  RemovedResources :: "string list"

datatype status =
    ResourceExhausted string
  | FailedPrecondition string
  | InvalidArgument string
  | Canceled string
  | Internal string
  | StreamError string
  | EndOfStream

text \<open>A subscription: its names, its queue of updates, its error slot, and whether its reader has stopped.\<close>

record secretWatch =
  names :: "string list"
  updates :: "response list"
  errors :: "status option"
  stopped :: bool

record server =
  authority :: authority
  capacity :: nat
  watches :: "(nat \<times> secretWatch) list"
  entries :: "(string \<times> nat) list"
  lru :: "(nat \<times> cachedSecret) list"
  version :: "64 word"
  nonce :: "64 word"
  next_element :: nat \<comment> \<open>allocator of list elements\<close>
  draws :: nat \<comment> \<open>random draws so far\<close>

text \<open>A nil authority is refused like a bad capacity.\<close>

definition NewSecretServer :: "authority option \<Rightarrow> int \<Rightarrow> server option" where
  "NewSecretServer a cap =
     (case a of
        None \<Rightarrow> None
      | Some a \<Rightarrow>
          if cap < 1 \<or> int maxRequestNames < cap then None
          else Some \<lparr>authority = a, capacity = nat cap, watches = [], entries = [], lru = [],
                     version = 0, nonce = 0, next_element = 0, draws = 0\<rparr>)"

text \<open>The limits of the gRPC transport in front of the service.\<close>

record grpc_server =
  MaxRecvMsgSize :: int
  MaxConcurrentStreams :: nat

definition GRPCServer :: "server \<Rightarrow> grpc_server" where
  "GRPCServer s = \<lparr>MaxRecvMsgSize = 256 * 2 ^ 10, MaxConcurrentStreams = 128\<rparr>"

section \<open>The cache\<close>

text \<open>\<^verbatim>\<open>container/list\<close>: removal and promotion of an element, by identity.\<close>

definition list_remove :: "nat \<Rightarrow> (nat \<times> 'a) list \<Rightarrow> (nat \<times> 'a) list" where
  "list_remove e l = filter (\<lambda>p. fst p \<noteq> e) l"

definition move_to_front :: "nat \<Rightarrow> (nat \<times> 'a) list \<Rightarrow> (nat \<times> 'a) list" where
  "move_to_front e l =
     (case map_of l e of None \<Rightarrow> l | Some v \<Rightarrow> (e, v) # list_remove e l)"

definition remove_secret :: "string \<Rightarrow> server \<Rightarrow> server" where
  "remove_secret name s =
     (case map_of (entries s) name of
        None \<Rightarrow> s
      | Some e \<Rightarrow> s\<lparr>lru := list_remove e (lru s), entries := AList.delete name (entries s)\<rparr>)"

text \<open>The cached secret of a name: the value of its element.\<close>

definition cached :: "server \<Rightarrow> string \<Rightarrow> cachedSecret option" where
  "cached s name = Option.bind (map_of (entries s) name) (map_of (lru s))"

definition push_front :: "string \<Rightarrow> resource \<Rightarrow> time \<Rightarrow> server \<Rightarrow> server" where
  "push_front name res expires s =
     s\<lparr>lru := (next_element s, \<lparr>cs_name = name, cs_resource = res, cs_expires = expires\<rparr>) # lru s,
       entries := AList.update name (next_element s) (entries s),
       next_element := Suc (next_element s)\<rparr>"

text \<open>The loop's variables: the server, the resources and the removed names collected so far.\<close>

record batch =
  srv :: server
  found :: "(string \<times> resource) list"
  removed :: "string list"

text \<open>Eviction of the least recently used element when the list is full.\<close>

definition evict_if_full :: "batch \<Rightarrow> batch" where
  "evict_if_full b =
     (let s = srv b in
      if length (lru s) = capacity s \<and> lru s \<noteq> [] then
        let evicted = cs_name (snd (last (lru s)))
        in b\<lparr>srv := remove_secret evicted s, removed := List.insert evicted (removed b),
             found := AList.delete evicted (found b)\<rparr>
      else b)"

datatype update_error = IssueFailed issue_error | EncodingFailed

text \<open>Issue of a certificate for one name and its insertion at the front.\<close>

definition issue_secret :: "crypto \<Rightarrow> time \<Rightarrow> string \<Rightarrow> string \<Rightarrow> batch \<Rightarrow> batch \<times> update_error option" where
  "issue_secret cr now name canonical b =
     (let s = srv b in
      case issue cr (authority s) canonical now (draws s) of
        (Inl e, r) \<Rightarrow> (b\<lparr>srv := s\<lparr>draws := r\<rparr>\<rparr>, Some (IssueFailed e))
      | (Inr (certificate, k, leaf), r) \<Rightarrow>
          (let s = s\<lparr>draws := r\<rparr> in
           case MarshalSecret cr name certificate k of
             None \<Rightarrow> (b\<lparr>srv := s\<rparr>, Some EncodingFailed)
           | Some value \<Rightarrow>
               (let s = s\<lparr>version := version s + 1\<rparr>;
                    res = \<lparr>r_Name = name, r_Version = version s, r_Resource = value,
                           r_Ttl = secretTTL, r_Leaf = leaf\<rparr>;
                    b = evict_if_full (b\<lparr>srv := s\<rparr>)
                in (b\<lparr>srv := push_front name res (now + secretTTL) (srv b),
                      found := AList.update name res (found b)\<rparr>, None))))"

text \<open>One iteration of the loop over the requested names.\<close>

definition serve_name :: "crypto \<Rightarrow> time \<Rightarrow> string \<Rightarrow> batch \<Rightarrow> batch \<times> update_error option" where
  "serve_name cr now name b =
     (case canonicalName name of
        None \<Rightarrow> (b\<lparr>removed := List.insert name (removed b)\<rparr>, None)
      | Some canonical \<Rightarrow>
          (case map_of (entries (srv b)) name of
             None \<Rightarrow> issue_secret cr now name canonical b
           | Some e \<Rightarrow>
               (case map_of (lru (srv b)) e of
                  None \<Rightarrow> issue_secret cr now name canonical (b\<lparr>srv := remove_secret name (srv b)\<rparr>)
                | Some entry \<Rightarrow>
                    if now < cs_expires entry then
                      (b\<lparr>srv := (srv b)\<lparr>lru := move_to_front e (lru (srv b))\<rparr>,
                         found := AList.update name (cs_resource entry) (found b)\<rparr>, None)
                    else issue_secret cr now name canonical (b\<lparr>srv := remove_secret name (srv b)\<rparr>))))"

fun serve_names :: "crypto \<Rightarrow> time \<Rightarrow> string list \<Rightarrow> batch \<Rightarrow> batch \<times> update_error option" where
  "serve_names cr now [] b = (b, None)"
| "serve_names cr now (n # ns) b =
     (case serve_name cr now n b of
        (b', Some e) \<Rightarrow> (b', Some e)
      | (b', None) \<Rightarrow> serve_names cr now ns b')"

definition interested :: "server \<Rightarrow> string \<Rightarrow> bool" where
  "interested s name \<longleftrightarrow> list_ex (\<lambda>p. name \<in> set (names (snd p))) (watches s)"

definition drop_unwatched :: "string \<Rightarrow> server \<Rightarrow> server" where
  "drop_unwatched name s = (if interested s name then s else remove_secret name s)"

definition requested :: "request \<Rightarrow> string list" where
  "requested req = sort (remdups (ResourceNamesSubscribe req @ InitialResourceVersions req))"

definition respond :: "batch \<Rightarrow> server \<times> response" where
  "respond b =
     (let s = (srv b)\<lparr>nonce := nonce (srv b) + 1\<rparr>
      in (s, \<lparr>Nonce = nonce s, SystemVersionInfo = ''inspection'',
             Resources = map (\<lambda>n. the (map_of (found b) n)) (sort (remdups (map fst (found b)))),
             RemovedResources = sort (remdups (removed b))\<rparr>))"

definition updateLocked :: "crypto \<Rightarrow> request \<Rightarrow> time \<Rightarrow> server \<Rightarrow> server \<times> (update_error, response) result" where
  "updateLocked cr req now s =
     (let s = fold drop_unwatched (ResourceNamesUnsubscribe req) s
      in case serve_names cr now (requested req) \<lparr>srv = s, found = [], removed = []\<rparr> of
           (b, Some e) \<Rightarrow> (srv b, Inl e)
         | (b, None) \<Rightarrow> (case respond b of (s, res) \<Rightarrow> (s, Inr res)))"

section \<open>Subscriptions\<close>

definition fail :: "status \<Rightarrow> secretWatch \<Rightarrow> secretWatch" where
  "fail err w = (case errors w of None \<Rightarrow> w\<lparr>errors := Some err\<rparr> | Some _ \<Rightarrow> w)"

definition enqueue :: "response \<Rightarrow> secretWatch \<Rightarrow> secretWatch" where
  "enqueue res w =
     (if length (Resources res) + length (RemovedResources res) = 0 then w
      else if length (updates w) < updateQueue then w\<lparr>updates := updates w @ [res]\<rparr>
      else fail (ResourceExhausted ''inspection SDS consumer is not draining updates'') w)"

text \<open>The part of a response one watcher is interested in, and the delivery of it.\<close>

definition event_for :: "response \<Rightarrow> secretWatch \<Rightarrow> response" where
  "event_for res w =
     res\<lparr>Resources := filter (\<lambda>r. r_Name r \<in> set (names w)) (Resources res),
         RemovedResources := filter (\<lambda>n. n \<in> set (names w)) (RemovedResources res)\<rparr>"

definition deliver :: "response \<Rightarrow> secretWatch \<Rightarrow> secretWatch" where
  "deliver res w =
     enqueue (event_for res w)
       (w\<lparr>names := filter (\<lambda>n. n \<notin> set (RemovedResources (event_for res w))) (names w)\<rparr>)"

definition subscribe_names :: "request \<Rightarrow> secretWatch \<Rightarrow> secretWatch" where
  "subscribe_names req w =
     w\<lparr>names := fold List.insert (ResourceNamesSubscribe req @ InitialResourceVersions req)
          (filter (\<lambda>n. n \<notin> set (ResourceNamesUnsubscribe req)) (names w))\<rparr>"

definition process :: "crypto \<Rightarrow> nat \<Rightarrow> request \<Rightarrow> time \<Rightarrow> server \<Rightarrow> server \<times> status option" where
  "process cr w req now s =
     (case map_of (watches s) w of
        None \<Rightarrow> (s, Some (Canceled ''inspection subscription closed''))
      | Some watch \<Rightarrow>
          (let watch = subscribe_names req watch;
               s = s\<lparr>watches := AList.update w watch (watches s)\<rparr>
           in if maxRequestNames < length (names watch)
              then (s, Some (ResourceExhausted ''inspection subscription name limit''))
              else case updateLocked cr req now s of
                (s, Inl e) \<Rightarrow> (s, Some (Internal ''inspection certificate issuance failed''))
              | (s, Inr res) \<Rightarrow>
                  (s\<lparr>watches := map (\<lambda>p. (fst p, deliver res (snd p))) (watches s)\<rparr>, None)))"

text \<open>
  The stream handler.  \<open>open_stream\<close> is its start; \<open>on_request\<close> is one turn of the reader
  goroutine; \<open>send_update\<close>, \<open>return_error\<close> and \<open>close_stream\<close> are the branches of the
  sender's \<^verbatim>\<open>select\<close>.
\<close>

definition new_watch :: secretWatch where
  "new_watch = \<lparr>names = [], updates = [], errors = None, stopped = False\<rparr>"

definition open_stream :: "nat \<Rightarrow> server \<Rightarrow> (status, server) result" where
  "open_stream w s =
     (if 2 * capacity s \<le> length (watches s)
      then Inl (ResourceExhausted ''inspection SDS subscription limit'')
      else Inr (s\<lparr>watches := AList.update w new_watch (watches s)\<rparr>))"

definition stop_reader :: "nat \<Rightarrow> status \<Rightarrow> server \<Rightarrow> server" where
  "stop_reader w err s =
     (case map_of (watches s) w of
        None \<Rightarrow> s
      | Some watch \<Rightarrow> s\<lparr>watches := AList.update w ((fail err watch)\<lparr>stopped := True\<rparr>) (watches s)\<rparr>)"

definition request_ok :: "request \<Rightarrow> bool" where
  "request_ok req \<longleftrightarrow>
     TypeUrl req = secretType \<and>
     length (ResourceNamesSubscribe req) + length (InitialResourceVersions req) \<le> maxRequestNames \<and>
     length (ResourceNamesUnsubscribe req) \<le> maxRequestNames"

definition on_request :: "crypto \<Rightarrow> nat \<Rightarrow> request \<Rightarrow> time \<Rightarrow> server \<Rightarrow> server" where
  "on_request cr w req now s =
     (if ErrorDetail req
      then stop_reader w (FailedPrecondition ''Envoy rejected inspection certificate configuration'') s
      else if \<not> request_ok req
      then stop_reader w (InvalidArgument ''unsupported inspection SDS request'') s
      else case process cr w req now s of
        (s, None) \<Rightarrow> s
      | (s, Some err) \<Rightarrow> stop_reader w err s)"

definition close_stream :: "nat \<Rightarrow> server \<Rightarrow> server" where
  "close_stream w s = s\<lparr>watches := AList.delete w (watches s)\<rparr>"

definition send_update :: "nat \<Rightarrow> server \<Rightarrow> server" where
  "send_update w s =
     (case map_of (watches s) w of
        None \<Rightarrow> s
      | Some watch \<Rightarrow> s\<lparr>watches := AList.update w (watch\<lparr>updates := tl (updates watch)\<rparr>) (watches s)\<rparr>)"

text \<open>Interleavings of any number of streams on one server, one critical section at a time.\<close>

inductive sds_step :: "crypto \<Rightarrow> server \<Rightarrow> server \<Rightarrow> bool" for cr where
  opened: "w \<notin> fst ` set (watches s) \<Longrightarrow> open_stream w s = Inr t \<Longrightarrow> sds_step cr s t"
| received: "map_of (watches s) w = Some watch \<Longrightarrow> \<not> stopped watch \<Longrightarrow>
    sds_step cr s (on_request cr w req now s)"
| receive_failed: "map_of (watches s) w = Some watch \<Longrightarrow> \<not> stopped watch \<Longrightarrow>
    sds_step cr s (stop_reader w err s)"
| sent: "map_of (watches s) w = Some watch \<Longrightarrow> updates watch \<noteq> [] \<Longrightarrow> sds_step cr s (send_update w s)"
| closed: "sds_step cr s (close_stream w s)"

inductive sds_reachable :: "crypto \<Rightarrow> server \<Rightarrow> bool" for cr where
  start: "NewSecretServer (Some a) cap = Some s \<Longrightarrow> sds_reachable cr s"
| step: "sds_reachable cr s \<Longrightarrow> sds_step cr s t \<Longrightarrow> sds_reachable cr t"

section \<open>Consistency of the cache\<close>

definition secret_ok :: "cachedSecret \<Rightarrow> bool" where
  "secret_ok c \<longleftrightarrow>
     r_Name (cs_resource c) = cs_name c \<and> r_Ttl (cs_resource c) = secretTTL \<and>
     (\<exists>m. canonicalName (cs_name c) = Some m \<and> DNSNames (r_Leaf (cs_resource c)) = [m])"

text \<open>The names in the cache, most recently used first: the abstract state of the cache.\<close>

definition order :: "server \<Rightarrow> string list" where
  "order s = map (\<lambda>p. cs_name (snd p)) (lru s)"

definition cache_inv :: "server \<Rightarrow> bool" where
  "cache_inv s \<longleftrightarrow>
     distinct (map fst (lru s)) \<and> distinct (order s) \<and> distinct (map fst (entries s)) \<and>
     (\<forall>n e. map_of (entries s) n = Some e \<longleftrightarrow> (\<exists>c. (e, c) \<in> set (lru s) \<and> cs_name c = n)) \<and>
     (\<forall>p\<in>set (lru s). fst p < next_element s \<and> secret_ok (snd p)) \<and>
     length (lru s) \<le> capacity s \<and> 0 < capacity s"

lemma cache_invD:
  assumes "cache_inv s"
  shows "distinct (map fst (lru s))" "distinct (order s)" "distinct (map fst (entries s))"
    "map_of (entries s) n = Some e \<longleftrightarrow> (\<exists>c. (e, c) \<in> set (lru s) \<and> cs_name c = n)"
    "p \<in> set (lru s) \<Longrightarrow> fst p < next_element s" "p \<in> set (lru s) \<Longrightarrow> secret_ok (snd p)"
    "length (lru s) \<le> capacity s" "0 < capacity s"
  using assms by (auto simp: cache_inv_def)

lemma same_element:
  assumes "cache_inv s" "(e, c) \<in> set (lru s)" "(e', c') \<in> set (lru s)"
  shows "e = e' \<longleftrightarrow> cs_name c = cs_name c'" "e = e' \<Longrightarrow> c = c'"
proof -
  have 1: "map_of (lru s) e = Some c" "map_of (lru s) e' = Some c'"
    using cache_invD(1) [OF assms(1)] assms(2,3) by (auto intro: map_of_is_SomeI)
  have 2: "map_of (entries s) (cs_name c) = Some e"
    unfolding cache_invD(4) [OF assms(1)] using assms(2) by (intro exI [of _ c]) simp
  have 3: "map_of (entries s) (cs_name c') = Some e'"
    unfolding cache_invD(4) [OF assms(1)] using assms(3) by (intro exI [of _ c']) simp
  show "e = e' \<longleftrightarrow> cs_name c = cs_name c'"
  proof
    assume "e = e'"
    with 1 show "cs_name c = cs_name c'" by simp
  next
    assume "cs_name c = cs_name c'"
    with 2 3 show "e = e'" by simp
  qed
  assume "e = e'"
  with 1 show "c = c'" by simp
qed

lemma cached_iff:
  assumes "cache_inv s"
  shows "cached s n = Some c \<longleftrightarrow> (\<exists>e. (e, c) \<in> set (lru s) \<and> cs_name c = n)"
proof
  assume "cached s n = Some c"
  then obtain e where e: "map_of (entries s) n = Some e" "map_of (lru s) e = Some c"
    by (auto simp: cached_def bind_eq_Some_conv)
  then have "(e, c) \<in> set (lru s)" by (simp add: map_of_SomeD)
  with e cache_invD(4) [OF assms] same_element(2) [OF assms]
  show "\<exists>e. (e, c) \<in> set (lru s) \<and> cs_name c = n" by blast
next
  assume "\<exists>e. (e, c) \<in> set (lru s) \<and> cs_name c = n"
  then obtain e where e: "(e, c) \<in> set (lru s)" "cs_name c = n" by blast
  then have "map_of (entries s) n = Some e" using cache_invD(4) [OF assms] by blast
  moreover have "map_of (lru s) e = Some c" using cache_invD(1) [OF assms] e by simp
  ultimately show "cached s n = Some c" by (simp add: cached_def)
qed

lemma in_order: "n \<in> set (order s) \<longleftrightarrow> (\<exists>e c. (e, c) \<in> set (lru s) \<and> cs_name c = n)"
proof
  assume "n \<in> set (order s)"
  then obtain p where "p \<in> set (lru s)" "cs_name (snd p) = n" by (auto simp: order_def)
  then show "\<exists>e c. (e, c) \<in> set (lru s) \<and> cs_name c = n" by (metis prod.collapse)
qed (force simp: order_def)

lemma entry_iff_cached:
  assumes "cache_inv s"
  shows "map_of (entries s) n = None \<longleftrightarrow> n \<notin> set (order s)"
    "map_of (entries s) n = Some e \<Longrightarrow> \<exists>c. map_of (lru s) e = Some c \<and> cached s n = Some c"
proof -
  have "n \<in> set (order s) \<longleftrightarrow> (\<exists>e c. (e, c) \<in> set (lru s) \<and> cs_name c = n)"
    by (rule in_order)
  then have "n \<in> set (order s) \<longleftrightarrow> (\<exists>e. map_of (entries s) n = Some e)"
    unfolding cache_invD(4) [OF assms] .
  then show "map_of (entries s) n = None \<longleftrightarrow> n \<notin> set (order s)" by auto
  assume "map_of (entries s) n = Some e"
  then obtain c where "(e, c) \<in> set (lru s)" "cs_name c = n" using cache_invD(4) [OF assms] by blast
  then show "\<exists>c. map_of (lru s) e = Some c \<and> cached s n = Some c"
    using cache_invD(1) [OF assms] cached_iff [OF assms] by auto
qed

lemma cached_in_order: "cache_inv s \<Longrightarrow> (\<exists>c. cached s n = Some c) \<longleftrightarrow> n \<in> set (order s)"
  unfolding in_order by (auto simp: cached_iff)

section \<open>The cache operations on the abstract state\<close>

lemma remove_secret_lru:
  assumes "cache_inv s"
  shows "lru (remove_secret n s) = filter (\<lambda>p. cs_name (snd p) \<noteq> n) (lru s)"
proof (cases "map_of (entries s) n")
  case None
  then have "n \<notin> set (order s)" using entry_iff_cached(1) [OF assms] by simp
  then have "filter (\<lambda>p. cs_name (snd p) \<noteq> n) (lru s) = lru s"
    by (auto simp: filter_id_conv order_def)
  then show ?thesis using None by (simp add: remove_secret_def)
next
  case (Some e)
  then obtain c where c: "(e, c) \<in> set (lru s)" "cs_name c = n" using cache_invD(4) [OF assms] by blast
  have "filter (\<lambda>p. fst p \<noteq> e) (lru s) = filter (\<lambda>p. cs_name (snd p) \<noteq> n) (lru s)"
  proof (rule filter_cong)
    fix p assume "p \<in> set (lru s)"
    then have "(fst p, snd p) \<in> set (lru s)" by simp
    from same_element(1) [OF assms this c(1)] show "fst p \<noteq> e \<longleftrightarrow> cs_name (snd p) \<noteq> n"
      by (simp add: c(2))
  qed simp
  then show ?thesis using Some by (simp add: remove_secret_def list_remove_def)
qed

lemma remove_secret_fields [simp]:
  "capacity (remove_secret n s) = capacity s" "watches (remove_secret n s) = watches s"
  "version (remove_secret n s) = version s" "authority (remove_secret n s) = authority s"
  "next_element (remove_secret n s) = next_element s" "draws (remove_secret n s) = draws s"
  "nonce (remove_secret n s) = nonce s"
  by (simp_all add: remove_secret_def split: option.splits)

lemma remove_secret_entries:
  "map_of (entries (remove_secret n s)) m = (if m = n then None else map_of (entries s) m)"
  by (cases "map_of (entries s) n") (auto simp: remove_secret_def delete_conv)

lemma remove_secret_order:
  "cache_inv s \<Longrightarrow> order (remove_secret n s) = filter (\<lambda>m. m \<noteq> n) (order s)"
  by (simp add: order_def remove_secret_lru filter_map comp_def)

lemma remove_secret_inv:
  assumes "cache_inv s"
  shows "cache_inv (remove_secret n s)"
proof -
  note d = cache_invD [OF assms]
  have "length (lru (remove_secret n s)) \<le> capacity s"
    by (simp add: remove_secret_lru [OF assms] order_trans [OF length_filter_le d(7)])
  moreover have "distinct (map fst (entries (remove_secret n s)))"
    using d(3) by (auto simp: remove_secret_def distinct_delete split: option.splits)
  moreover have "distinct (map fst (lru (remove_secret n s)))"
    using d(1) by (simp add: remove_secret_lru [OF assms] distinct_map_filter)
  moreover have "distinct (order (remove_secret n s))"
    using d(2) by (simp add: remove_secret_order [OF assms])
  moreover have "map_of (entries (remove_secret n s)) m = Some e \<longleftrightarrow>
      (\<exists>c. (e, c) \<in> set (lru (remove_secret n s)) \<and> cs_name c = m)" for m e
    using d(4) by (auto simp: remove_secret_entries remove_secret_lru [OF assms])
  ultimately show ?thesis
    using d(5,6,8) unfolding cache_inv_def remove_secret_fields
    by (auto simp: remove_secret_lru [OF assms])
qed

lemma push_front_order: "order (push_front n r x s) = n # order s"
  by (simp add: order_def push_front_def)

lemma push_front_fields [simp]:
  "capacity (push_front n r x s) = capacity s" "watches (push_front n r x s) = watches s"
  "version (push_front n r x s) = version s" "authority (push_front n r x s) = authority s"
  "draws (push_front n r x s) = draws s" "nonce (push_front n r x s) = nonce s"
  by (simp_all add: push_front_def)

lemma push_front_inv:
  assumes "cache_inv s" "n \<notin> set (order s)" "length (order s) < capacity s"
    "secret_ok \<lparr>cs_name = n, cs_resource = r, cs_expires = x\<rparr>"
  shows "cache_inv (push_front n r x s)"
proof -
  note d = cache_invD [OF assms(1)]
  let ?c = "\<lparr>cs_name = n, cs_resource = r, cs_expires = x\<rparr>"
  have new: "next_element s \<notin> fst ` set (lru s)"
  proof
    assume "next_element s \<in> fst ` set (lru s)"
    then obtain p where "p \<in> set (lru s)" "fst p = next_element s" by auto
    with d(5) show False by fastforce
  qed
  have old: "(a, c) \<in> set (lru s) \<Longrightarrow> cs_name c \<noteq> n" for a c using assms(2) in_order by blast
  have map: "map_of (entries (push_front n r x s)) m = Some e \<longleftrightarrow>
      (\<exists>c. (e, c) \<in> set (lru (push_front n r x s)) \<and> cs_name c = m)" for m e
  proof (cases "m = n")
    case True
    then show ?thesis using old by (auto simp: push_front_def update_conv)
  next
    case False
    then show ?thesis using d(4) [of m e] by (auto simp: push_front_def update_conv)
  qed
  have "distinct (map fst (entries (push_front n r x s)))"
    using d(3) by (simp add: push_front_def distinct_update)
  moreover have "distinct (order (push_front n r x s))"
    using d(2) assms(2) by (simp add: push_front_order)
  moreover have "distinct (map fst (lru (push_front n r x s)))"
    using d(1) new by (simp add: push_front_def)
  moreover have "\<forall>p\<in>set (lru (push_front n r x s)).
      fst p < next_element (push_front n r x s) \<and> secret_ok (snd p)"
    using d(5,6) assms(4) by (auto simp: push_front_def less_Suc_eq)
  moreover have "length (lru (push_front n r x s)) \<le> capacity (push_front n r x s)"
    using assms(3) by (simp add: push_front_def order_def)
  ultimately show ?thesis using map d(8) by (simp add: cache_inv_def)
qed

lemma move_to_front_set:
  assumes "distinct (map fst l)" "map_of l e = Some c"
  shows "set (move_to_front e l) = set l" "length (move_to_front e l) = length l"
    "distinct (map fst (move_to_front e l))"
proof -
  have in_l: "(e, c) \<in> set l" by (rule map_of_SomeD [OF assms(2)])
  then obtain xs ys where l: "l = xs @ (e, c) # ys" by (auto simp: in_set_conv_decomp)
  have n: "e \<notin> fst ` set xs" "e \<notin> fst ` set ys" using assms(1) l by auto
  then have "filter (\<lambda>p. fst p \<noteq> e) xs = xs" "filter (\<lambda>p. fst p \<noteq> e) ys = ys"
    by (auto simp: filter_id_conv)
  then have "list_remove e l = xs @ ys" unfolding l list_remove_def by simp
  then have m: "move_to_front e l = (e, c) # xs @ ys" using assms(2) by (simp add: move_to_front_def)
  show "set (move_to_front e l) = set l" "length (move_to_front e l) = length l"
    unfolding m by (auto simp: l)
  show "distinct (map fst (move_to_front e l))" using assms(1) n unfolding m by (auto simp: l)
qed

text \<open>Promotion and bounded insertion of a name, the two ways a name becomes the most recent.\<close>

definition promote :: "string \<Rightarrow> server \<Rightarrow> server" where
  "promote n s = (case map_of (entries s) n of None \<Rightarrow> s | Some e \<Rightarrow> s\<lparr>lru := move_to_front e (lru s)\<rparr>)"

definition insert_secret :: "string \<Rightarrow> resource \<times> time \<Rightarrow> server \<Rightarrow> server" where
  "insert_secret n v s =
     push_front n (fst v) (snd v) (srv (evict_if_full \<lparr>srv = s, found = [], removed = []\<rparr>))"

lemma promote_order:
  assumes "cache_inv s" "n \<in> set (order s)"
  shows "order (promote n s) = n # filter (\<lambda>m. m \<noteq> n) (order s)"
proof -
  obtain e where e: "map_of (entries s) n = Some e"
    using entry_iff_cached(1) [OF assms(1)] assms(2) by fastforce
  then obtain c where c: "map_of (lru s) e = Some c" "(e, c) \<in> set (lru s)" "cs_name c = n"
    using entry_iff_cached(2) [OF assms(1) e] cache_invD(4) [OF assms(1), of n e]
      cached_iff [OF assms(1)] map_of_SomeD same_element [OF assms(1)] by metis
  have "lru (promote n s) = (e, c) # lru (remove_secret n s)"
    using e c(1) by (simp add: promote_def move_to_front_def remove_secret_def)
  then have "order (promote n s) = n # order (remove_secret n s)" by (simp add: order_def c(3))
  then show ?thesis by (simp add: remove_secret_order [OF assms(1)])
qed

lemma promote_fields [simp]:
  "capacity (promote n s) = capacity s" "watches (promote n s) = watches s" "entries (promote n s) = entries s"
  "version (promote n s) = version s" "authority (promote n s) = authority s"
  "draws (promote n s) = draws s" "nonce (promote n s) = nonce s" "next_element (promote n s) = next_element s"
  by (simp_all add: promote_def split: option.splits)

lemma promote_lru:
  assumes "cache_inv s"
  shows "set (lru (promote n s)) = set (lru s)" "length (lru (promote n s)) = length (lru s)"
    "distinct (map fst (lru (promote n s)))"
proof -
  note m = move_to_front_set [OF cache_invD(1) [OF assms]]
  have "lru (promote n s) = lru s \<or>
    (\<exists>e c. map_of (lru s) e = Some c \<and> lru (promote n s) = move_to_front e (lru s))"
  proof (cases "map_of (entries s) n")
    case (Some e)
    then show ?thesis using entry_iff_cached(2) [OF assms Some] by (auto simp: promote_def)
  qed (simp add: promote_def)
  then show "set (lru (promote n s)) = set (lru s)" "length (lru (promote n s)) = length (lru s)"
    "distinct (map fst (lru (promote n s)))"
    using m cache_invD(1) [OF assms] by auto
qed

lemma promote_inv:
  assumes "cache_inv s"
  shows "cache_inv (promote n s)"
proof -
  have "distinct (order (promote n s))"
  proof (cases "n \<in> set (order s)")
    case True
    then show ?thesis using cache_invD(2) [OF assms] by (simp add: promote_order [OF assms])
  next
    case False
    then show ?thesis
      using cache_invD(2) [OF assms] entry_iff_cached(1) [OF assms, of n] by (simp add: promote_def)
  qed
  then show ?thesis
    using assms promote_lru [OF assms] unfolding cache_inv_def by simp
qed

lemma promote_cached:
  assumes "cache_inv s"
  shows "cached (promote n s) m = cached s m"
proof -
  show ?thesis
    by (rule option_ext)
       (simp add: cached_iff [OF assms] cached_iff [OF promote_inv [OF assms]] promote_lru(1) [OF assms])
qed

lemma remove_secret_cached:
  assumes "cache_inv s"
  shows "cached (remove_secret n s) m = (if m = n then None else cached s m)"
proof -
  show ?thesis
    by (rule option_ext)
       (auto simp: cached_iff [OF assms] cached_iff [OF remove_secret_inv [OF assms]] remove_secret_lru [OF assms])
qed

lemma order_empty [simp]: "order s = [] \<longleftrightarrow> lru s = []" "length (order s) = length (lru s)"
  by (simp_all add: order_def)

lemma order_last: "lru s \<noteq> [] \<Longrightarrow> cs_name (snd (last (lru s))) = last (order s)"
  by (simp add: order_def last_map)

lemma filter_last_out: "distinct xs \<Longrightarrow> xs \<noteq> [] \<Longrightarrow> filter (\<lambda>m. m \<noteq> last xs) xs = butlast xs"
  by (induction xs rule: rev_induct) (auto simp: filter_id_conv)

lemma evict_srv:
  "srv (evict_if_full b) =
     (if length (lru (srv b)) = capacity (srv b) \<and> lru (srv b) \<noteq> []
      then remove_secret (last (order (srv b))) (srv b) else srv b)"
  by (simp add: evict_if_full_def Let_def order_last)

lemma evict_fields [simp]:
  "capacity (srv (evict_if_full b)) = capacity (srv b)" "watches (srv (evict_if_full b)) = watches (srv b)"
  "version (srv (evict_if_full b)) = version (srv b)" "authority (srv (evict_if_full b)) = authority (srv b)"
  "draws (srv (evict_if_full b)) = draws (srv b)" "nonce (srv (evict_if_full b)) = nonce (srv b)"
  by (simp_all add: evict_srv)

lemma evict_order:
  assumes "cache_inv (srv b)"
  shows "cache_inv (srv (evict_if_full b))"
    "order (srv (evict_if_full b)) = take (capacity (srv b) - 1) (order (srv b))"
proof -
  note d = cache_invD [OF assms]
  show "cache_inv (srv (evict_if_full b))" using assms by (simp add: evict_srv remove_secret_inv)
  show "order (srv (evict_if_full b)) = take (capacity (srv b) - 1) (order (srv b))"
  proof (cases "length (lru (srv b)) = capacity (srv b) \<and> lru (srv b) \<noteq> []")
    case True
    then have "order (srv (evict_if_full b)) = filter (\<lambda>m. m \<noteq> last (order (srv b))) (order (srv b))"
      by (simp add: evict_srv remove_secret_order [OF assms])
    also have "\<dots> = butlast (order (srv b))" using True d(2) by (simp add: filter_last_out)
    finally show ?thesis using True by (simp add: butlast_conv_take)
  next
    case False
    then have "length (order (srv b)) \<le> capacity (srv b) - 1" using d(7,8) by auto
    then show ?thesis using False by (auto simp: evict_srv)
  qed
qed

lemma insert_secret_eq:
  "push_front n r x (srv (evict_if_full b)) = insert_secret n (r, x) (srv b)"
  by (simp add: insert_secret_def evict_srv)

lemma insert_secret_order:
  assumes "cache_inv s"
  shows "order (insert_secret n v s) = take (capacity s) (n # order s)"
  using evict_order(2) [of "\<lparr>srv = s, found = [], removed = []\<rparr>"] assms cache_invD(8) [OF assms]
  by (cases "capacity s") (auto simp: insert_secret_def push_front_order)

lemma insert_secret_fields [simp]:
  "capacity (insert_secret n v s) = capacity s" "watches (insert_secret n v s) = watches s"
  "version (insert_secret n v s) = version s" "authority (insert_secret n v s) = authority s"
  "draws (insert_secret n v s) = draws s" "nonce (insert_secret n v s) = nonce s"
  by (simp_all add: insert_secret_def)

lemma insert_secret_inv:
  assumes "cache_inv s" "n \<notin> set (order s)"
    "secret_ok \<lparr>cs_name = n, cs_resource = fst v, cs_expires = snd v\<rparr>"
  shows "cache_inv (insert_secret n v s)"
proof -
  let ?e = "srv (evict_if_full \<lparr>srv = s, found = [], removed = []\<rparr>)"
  have e: "cache_inv ?e" "order ?e = take (capacity s - 1) (order s)"
    using evict_order [of "\<lparr>srv = s, found = [], removed = []\<rparr>"] assms(1) by auto
  have "n \<notin> set (order ?e)" using assms(2) in_set_takeD unfolding e(2) by fast
  moreover have "length (order ?e) < capacity ?e"
    using cache_invD(8) [OF assms(1)] unfolding e(2) by simp
  ultimately show ?thesis unfolding insert_secret_def using e(1) assms(3) by (intro push_front_inv)
qed

lemma push_front_cached:
  assumes "cache_inv s" "cache_inv (push_front n r x s)"
  shows "cached (push_front n r x s) m =
    (if m = n then Some \<lparr>cs_name = n, cs_resource = r, cs_expires = x\<rparr> else cached s m)"
proof (rule option_ext)
  fix c
  have "n \<notin> set (order s)" using cache_invD(2) [OF assms(2)] by (simp add: push_front_order)
  then have "(e, d) \<in> set (lru s) \<Longrightarrow> cs_name d \<noteq> n" for e d using in_order by blast
  then show "cached (push_front n r x s) m = Some c \<longleftrightarrow>
      (if m = n then Some \<lparr>cs_name = n, cs_resource = r, cs_expires = x\<rparr> else cached s m) = Some c"
    unfolding cached_iff [OF assms(2)] using cached_iff [OF assms(1), of m c]
    by (auto simp: push_front_def)
qed

lemma insert_secret_cached:
  assumes "cache_inv s" "cache_inv (insert_secret n v s)"
  shows "cached (insert_secret n v s) m =
    (if m = n then Some \<lparr>cs_name = n, cs_resource = fst v, cs_expires = snd v\<rparr>
     else if m \<in> set (order (insert_secret n v s)) then cached s m else None)"
proof -
  let ?e = "srv (evict_if_full \<lparr>srv = s, found = [], removed = []\<rparr>)"
  have e: "cache_inv ?e" using evict_order(1) [of "\<lparr>srv = s, found = [], removed = []\<rparr>"] assms(1) by simp
  have 1: "cached (insert_secret n v s) m =
      (if m = n then Some \<lparr>cs_name = n, cs_resource = fst v, cs_expires = snd v\<rparr> else cached ?e m)"
    using push_front_cached [OF e] assms(2) by (simp add: insert_secret_def)
  have 2: "order (insert_secret n v s) = n # order ?e" by (simp add: insert_secret_def push_front_order)
  have "cached ?e m = (if m \<in> set (order ?e) then cached s m else None)"
  proof (cases "m \<in> set (order ?e)")
    case True
    then have "cached ?e m \<noteq> None" using cached_in_order [OF e, of m] by auto
    then show ?thesis using True remove_secret_cached [OF assms(1)] by (auto simp: evict_srv split: if_splits)
  next
    case False
    then show ?thesis using cached_in_order [OF e, of m] by (cases "cached ?e m") auto
  qed
  then show ?thesis using 1 2 by auto
qed

section \<open>The contract of a bounded recency cache\<close>

text \<open>Use of a name: it becomes the most recent, and what no longer fits is dropped.\<close>

definition touch :: "nat \<Rightarrow> 'a \<Rightarrow> 'a list \<Rightarrow> 'a list" where
  "touch cap n ns = take cap (n # filter (\<lambda>m. m \<noteq> n) ns)"

lemma filter_take_one:
  "distinct xs \<Longrightarrow> take c (filter (\<lambda>m. m \<noteq> k) (take (Suc c) xs)) = take c (filter (\<lambda>m. m \<noteq> k) xs)"
proof (induction xs arbitrary: c)
  case (Cons x xs)
  show ?case
  proof (cases "x = k")
    case True
    then have "filter (\<lambda>m. m \<noteq> k) xs = xs" "filter (\<lambda>m. m \<noteq> k) (take c xs) = take c xs"
      using Cons.prems by (auto simp: filter_id_conv dest: in_set_takeD)
    then show ?thesis using True by simp
  next
    case False
    then show ?thesis using Cons by (cases c) auto
  qed
qed simp

lemma fold_touch:
  assumes "distinct ns" "length ns \<le> cap" "0 < cap" "distinct ks"
  shows "fold (touch cap) ks ns = take cap (rev ks @ filter (\<lambda>m. m \<notin> set ks) ns)"
  using assms(4)
proof (induction ks rule: rev_induct)
  case Nil
  then show ?case using assms(2) by simp
next
  case (snoc k ks)
  let ?x = "rev ks @ filter (\<lambda>m. m \<notin> set ks) ns"
  have "filter (\<lambda>m. m \<noteq> k) (rev ks) = rev ks" using snoc.prems by (auto simp: filter_id_conv)
  then have x: "distinct ?x" "filter (\<lambda>m. m \<noteq> k) ?x = rev ks @ filter (\<lambda>m. m \<notin> set (ks @ [k])) ns"
    using snoc.prems assms(1) by (auto simp: conj_commute)
  obtain c where c: "cap = Suc c" using assms(3) by (cases cap) auto
  have "fold (touch cap) (ks @ [k]) ns = touch cap k (take cap ?x)" using snoc by simp
  also have "\<dots> = k # take c (filter (\<lambda>m. m \<noteq> k) ?x)"
    using filter_take_one [OF x(1), of c k] by (simp only: touch_def c take_Suc_Cons)
  also have "\<dots> = take cap (rev (ks @ [k]) @ filter (\<lambda>m. m \<notin> set (ks @ [k])) ns)"
    by (simp only: x(2) c rev_append rev.simps append.simps take_Suc_Cons)
  finally show ?case .
qed

text \<open>
  What the service relies on: dropping, promoting and adding keep the invariant, and their
  effect on the order is the abstract one.  \<open>valid\<close> says which values may be stored
  under a key.
\<close>

locale recency_cache =
  fixes inv :: "'s \<Rightarrow> bool"
    and keys :: "'s \<Rightarrow> 'k list"
    and bound :: "'s \<Rightarrow> nat"
    and valid :: "'k \<Rightarrow> 'v \<Rightarrow> bool"
    and drop_key :: "'k \<Rightarrow> 's \<Rightarrow> 's"
    and use_key :: "'k \<Rightarrow> 's \<Rightarrow> 's"
    and add_key :: "'k \<Rightarrow> 'v \<Rightarrow> 's \<Rightarrow> 's"
  assumes keys: "inv s \<Longrightarrow> distinct (keys s) \<and> length (keys s) \<le> bound s \<and> 0 < bound s"
    and drop: "inv s \<Longrightarrow> inv (drop_key k s) \<and> keys (drop_key k s) = filter (\<lambda>m. m \<noteq> k) (keys s)"
    and use: "inv s \<Longrightarrow> k \<in> set (keys s) \<Longrightarrow>
        inv (use_key k s) \<and> keys (use_key k s) = k # filter (\<lambda>m. m \<noteq> k) (keys s)"
    and add: "inv s \<Longrightarrow> k \<notin> set (keys s) \<Longrightarrow> valid k v \<Longrightarrow>
        inv (add_key k v s) \<and> keys (add_key k v s) = take (bound s) (k # keys s)"
    and bounds: "bound (drop_key k s) = bound s" "bound (use_key k s) = bound s"
        "bound (add_key k v s) = bound s"
begin

lemma hit:
  assumes "inv s" "k \<in> set (keys s)"
  shows "keys (use_key k s) = touch (bound s) k (keys s)"
proof -
  have "filter (\<lambda>m. m \<noteq> k) (keys s) = remove1 k (keys s)"
    using keys [OF assms(1)] by (simp add: distinct_remove1_removeAll removeAll_filter_not_eq [of k])
       (simp add: eq_commute)
  then have "length (k # filter (\<lambda>m. m \<noteq> k) (keys s)) \<le> bound s"
    using keys [OF assms(1)] assms(2) length_pos_if_in_set by (fastforce simp: length_remove1)
  then show ?thesis using use [OF assms] by (simp add: touch_def)
qed

text \<open>A miss, and the renewal of a stale entry: drop what is there and add.\<close>

lemma renew:
  assumes "inv s" "valid k v"
  shows "inv (add_key k v (drop_key k s))"
    "keys (add_key k v (drop_key k s)) = touch (bound s) k (keys s)"
  using add [of "drop_key k s" k v] drop [OF assms(1), of k] assms(2) by (auto simp: bounds touch_def)

lemma drops:
  assumes "inv s"
  shows "inv (fold drop_key ks s)" "keys (fold drop_key ks s) = filter (\<lambda>m. m \<notin> set ks) (keys s)"
    "bound (fold drop_key ks s) = bound s"
  using assms by (induction ks arbitrary: s) (auto simp: drop bounds intro: filter_cong)

end

interpretation sds_cache: recency_cache cache_inv order capacity
  "\<lambda>n v. secret_ok \<lparr>cs_name = n, cs_resource = fst v, cs_expires = snd v\<rparr>"
  remove_secret promote insert_secret
proof unfold_locales
  fix s :: server and k v
  assume inv: "cache_inv s"
  show "distinct (order s) \<and> length (order s) \<le> capacity s \<and> 0 < capacity s"
    using cache_invD [OF inv] by simp
  show "cache_inv (remove_secret k s) \<and> order (remove_secret k s) = filter (\<lambda>m. m \<noteq> k) (order s)"
    by (simp add: remove_secret_inv remove_secret_order inv)
  show "k \<in> set (order s) \<Longrightarrow>
      cache_inv (promote k s) \<and> order (promote k s) = k # filter (\<lambda>m. m \<noteq> k) (order s)"
    by (simp add: promote_inv promote_order inv)
  show "k \<notin> set (order s) \<Longrightarrow> secret_ok \<lparr>cs_name = k, cs_resource = fst v, cs_expires = snd v\<rparr> \<Longrightarrow>
      cache_inv (insert_secret k v s) \<and> order (insert_secret k v s) = take (capacity s) (k # order s)"
    by (simp add: insert_secret_inv insert_secret_order inv)
qed simp_all

section \<open>One requested name\<close>

text \<open>Counters do not matter to the cache.\<close>

lemma counter_simps [simp]:
  "cache_inv (s\<lparr>draws := r\<rparr>) = cache_inv s" "cache_inv (s\<lparr>version := v\<rparr>) = cache_inv s"
  "cache_inv (s\<lparr>nonce := v\<rparr>) = cache_inv s" "cache_inv (s\<lparr>watches := ws\<rparr>) = cache_inv s"
  "order (s\<lparr>draws := r\<rparr>) = order s" "order (s\<lparr>version := v\<rparr>) = order s"
  "order (s\<lparr>nonce := v\<rparr>) = order s" "order (s\<lparr>watches := ws\<rparr>) = order s"
  "cached (s\<lparr>draws := r\<rparr>) n = cached s n" "cached (s\<lparr>version := v\<rparr>) n = cached s n"
  "cached (s\<lparr>nonce := v\<rparr>) n = cached s n" "cached (s\<lparr>watches := ws\<rparr>) n = cached s n"
  by (simp_all add: cache_inv_def order_def cached_def)

lemma evict_removed:
  "removed (evict_if_full b) =
     (if length (lru (srv b)) = capacity (srv b) \<and> lru (srv b) \<noteq> []
      then List.insert (last (order (srv b))) (removed b) else removed b)"
  "found (evict_if_full b) =
     (if length (lru (srv b)) = capacity (srv b) \<and> lru (srv b) \<noteq> []
      then AList.delete (last (order (srv b))) (found b) else found b)"
  by (simp_all add: evict_if_full_def Let_def order_last)

lemma evict_eq:
  "(evict_if_full b)\<lparr>srv := s, found := f\<rparr> = b\<lparr>srv := s, found := f, removed := removed (evict_if_full b)\<rparr>"
  by (cases b) (simp add: evict_if_full_def Let_def)

lemma evict_counters:
  "found (evict_if_full (b\<lparr>srv := (srv b)\<lparr>draws := r, version := v\<rparr>\<rparr>)) = found (evict_if_full b)"
  "removed (evict_if_full (b\<lparr>srv := (srv b)\<lparr>draws := r, version := v\<rparr>\<rparr>)) = removed (evict_if_full b)"
  by (simp_all add: evict_removed)

text \<open>
  The three ways an iteration goes: the name is refused, it is served from the cache, or a
  certificate is issued for it after what was cached under it is dropped.
\<close>

lemma serve_name_cases:
  assumes "cache_inv (srv b)" "serve_name cr now n b = (b', e)"
  obtains
    (refused) "canonicalName n = None" "e = None" "b' = b\<lparr>removed := List.insert n (removed b)\<rparr>"
  | (hit) m c where "canonicalName n = Some m" "cached (srv b) n = Some c" "now < cs_expires c" "e = None"
      "b' = b\<lparr>srv := promote n (srv b), found := AList.update n (cs_resource c) (found b)\<rparr>"
  | (miss) m where "canonicalName n = Some m"
      "\<And>c. cached (srv b) n = Some c \<Longrightarrow> \<not> now < cs_expires c"
      "issue_secret cr now n m (b\<lparr>srv := remove_secret n (srv b)\<rparr>) = (b', e)"
proof (cases "canonicalName n")
  case None
  then show thesis using assms(2) refused by (simp add: serve_name_def)
next
  case m: (Some m)
  show thesis
  proof (cases "map_of (entries (srv b)) n")
    case None
    moreover from None have "cached (srv b) n = None" by (simp add: cached_def)
    moreover from None have "b\<lparr>srv := remove_secret n (srv b)\<rparr> = b" by (simp add: remove_secret_def)
    ultimately show thesis using assms(2) m miss by (simp add: serve_name_def)
  next
    case (Some p)
    then obtain c where c: "map_of (lru (srv b)) p = Some c" "cached (srv b) n = Some c"
      using entry_iff_cached(2) [OF assms(1)] by blast
    show thesis
    proof (cases "now < cs_expires c")
      case True
      then show thesis using assms(2) m Some c hit by (simp add: serve_name_def promote_def)
    next
      case False
      then show thesis using assms(2) m Some c miss by (simp add: serve_name_def)
    qed
  qed
qed

lemma issue_secret_error:
  assumes "issue_secret cr now n m b = (b', Some e)"
  shows "\<exists>r. b' = b\<lparr>srv := (srv b)\<lparr>draws := r\<rparr>\<rparr>"
  using assms by (auto simp: issue_secret_def Let_def split: sum.splits option.splits prod.splits)

lemma issue_secret_ok:
  assumes "issue_secret cr now n m b = (b', None)" "canonicalName n = Some m"
  obtains res r where
    "b' = b\<lparr>srv := insert_secret n (res, now + secretTTL) ((srv b)\<lparr>draws := r, version := version (srv b) + 1\<rparr>),
            found := AList.update n res (found (evict_if_full b)), removed := removed (evict_if_full b)\<rparr>"
    "secret_ok \<lparr>cs_name = n, cs_resource = res, cs_expires = now + secretTTL\<rparr>" "r_Name res = n"
    "r_Version res = version (srv b) + 1"
proof -
  obtain c k leaf r where i: "issue cr (authority (srv b)) m now (draws (srv b)) = (Inr (c, k, leaf), r)"
    using assms(1) by (auto simp: issue_secret_def Let_def split: sum.splits option.splits prod.splits)
  then obtain v where v: "MarshalSecret cr n c k = Some v"
    using assms(1) by (auto simp: issue_secret_def Let_def split: option.splits)
  let ?s = "(srv b)\<lparr>draws := r, version := version (srv b) + 1\<rparr>"
  let ?r = "\<lparr>r_Name = n, r_Version = version (srv b) + 1, r_Resource = v, r_Ttl = secretTTL, r_Leaf = leaf\<rparr>"
  have "DNSNames leaf = [m]" using issue_Inr(3) [OF i] by (auto simp: leaf_template_def Let_def)
  then have "secret_ok \<lparr>cs_name = n, cs_resource = ?r, cs_expires = now + secretTTL\<rparr>"
    using assms(2) by (simp add: secret_ok_def)
  moreover have "b' = b\<lparr>srv := insert_secret n (?r, now + secretTTL) ?s,
      found := AList.update n ?r (found (evict_if_full b)), removed := removed (evict_if_full b)\<rparr>"
    using assms(1) i v by (simp add: issue_secret_def Let_def insert_secret_eq evict_eq evict_counters)
  ultimately show thesis by (intro that) auto
qed

lemma secretTTL_pos [simp]: "0 < secretTTL"
  by (simp add: secretTTL_def minute_def second_def)

text \<open>The effect of a miss; \<open>ev\<close> is the evicted name, if the cache was full.\<close>

lemma miss_effect:
  assumes inv: "cache_inv (srv b)"
    and issued: "issue_secret cr now n m (b\<lparr>srv := remove_secret n (srv b)\<rparr>) = (b', None)"
    and name: "canonicalName n = Some m"
  obtains res ev where "cache_inv (srv b')"
    "order (srv b') = touch (capacity (srv b)) n (order (srv b))"
    "set (order (srv b')) = insert n (set (order (srv b)) - set_option ev)"
    "set_option ev \<subseteq> set (order (srv b)) - {n}" "ev \<noteq> None \<Longrightarrow> n \<notin> set (order (srv b))"
    "set (removed b') = set (removed b) \<union> set_option ev"
    "map_of (found b') = (\<lambda>k. if k = n then Some res else if k \<in> set_option ev then None else map_of (found b) k)"
    "cached (srv b') = (\<lambda>k. if k = n then Some \<lparr>cs_name = n, cs_resource = res, cs_expires = now + secretTTL\<rparr>
      else if k \<in> set_option ev then None else cached (srv b) k)"
    "capacity (srv b') = capacity (srv b)" "watches (srv b') = watches (srv b)" "nonce (srv b') = nonce (srv b)"
proof -
  define s1 where "s1 = remove_secret n (srv b)"
  have inv1: "cache_inv s1" unfolding s1_def by (rule remove_secret_inv [OF inv])
  have order1: "order s1 = filter (\<lambda>m. m \<noteq> n) (order (srv b))"
    unfolding s1_def by (rule remove_secret_order [OF inv])
  obtain res r where
    b': "b' = b\<lparr>srv := insert_secret n (res, now + secretTTL) (s1\<lparr>draws := r, version := version s1 + 1\<rparr>),
        found := AList.update n res (found (evict_if_full (b\<lparr>srv := s1\<rparr>))),
        removed := removed (evict_if_full (b\<lparr>srv := s1\<rparr>))\<rparr>"
    and ok: "secret_ok \<lparr>cs_name = n, cs_resource = res, cs_expires = now + secretTTL\<rparr>"
    by (rule issue_secret_ok [OF issued name], rule that) (simp_all add: s1_def)
  let ?s2 = "s1\<lparr>draws := r, version := version s1 + 1\<rparr>"
  define ev where "ev = (if length (lru s1) = capacity s1 \<and> lru s1 \<noteq> [] then Some (last (order s1)) else None)"
  have srv': "srv b' = insert_secret n (res, now + secretTTL) ?s2" by (simp add: b')
  have inv': "cache_inv (srv b')"
    unfolding srv' using inv1 ok by (intro insert_secret_inv) (simp_all add: order1)
  have order': "order (srv b') = take (capacity s1) (n # order s1)"
    unfolding srv' using insert_secret_order [of ?s2 n] inv1 by simp
  have ev: "set_option ev \<subseteq> set (order s1)"
    by (auto simp: ev_def simp flip: order_empty intro!: last_in_set split: if_splits)
  have set': "set (order (srv b')) = insert n (set (order s1) - set_option ev)"
  proof (cases "length (lru s1) = capacity s1 \<and> lru s1 \<noteq> []")
    case True
    then obtain ys y where ys: "order s1 = ys @ [y]" by (metis order_empty(1) rev_exhaust)
    then have "capacity s1 = Suc (length ys)" using True order_empty(2) [of s1] by simp
    then show ?thesis using order' ys True cache_invD(2) [OF inv1] by (auto simp: ev_def)
  next
    case False
    then have "length (n # order s1) \<le> capacity s1" using cache_invD(7,8) [OF inv1] by auto
    then show ?thesis using order' False by (auto simp: ev_def)
  qed
  have cached': "cached (srv b') = (\<lambda>k. if k = n then Some \<lparr>cs_name = n, cs_resource = res,
        cs_expires = now + secretTTL\<rparr> else if k \<in> set_option ev then None else cached (srv b) k)"
  proof
    fix k
    have "k \<notin> set (order s1) \<Longrightarrow> cached s1 k = None" using cached_in_order [OF inv1, of k] by (cases "cached s1 k") auto
    then have "cached (srv b') k = (if k = n then Some \<lparr>cs_name = n, cs_resource = res,
        cs_expires = now + secretTTL\<rparr> else if k \<in> set_option ev then None else cached s1 k)"
      using insert_secret_cached [of ?s2 n "(res, now + secretTTL)" k] inv1 inv' set' ev
      unfolding srv' by auto
    then show "cached (srv b') k = (if k = n then Some \<lparr>cs_name = n, cs_resource = res,
        cs_expires = now + secretTTL\<rparr> else if k \<in> set_option ev then None else cached (srv b) k)"
      using remove_secret_cached [OF inv, of n k] by (simp add: s1_def)
  qed
  have ev_n: "ev \<noteq> None \<Longrightarrow> n \<notin> set (order (srv b))"
  proof
    assume "ev \<noteq> None" "n \<in> set (order (srv b))"
    then have "length (order s1) = capacity (srv b)"
      by (auto simp: ev_def s1_def order_def split: if_splits)
    moreover have "length (order s1) < length (order (srv b))"
      using \<open>n \<in> set (order (srv b))\<close> unfolding order1 by (rule length_filter_less) simp
    ultimately show False using cache_invD(7) [OF inv] by simp
  qed
  show thesis
  proof (rule that [of ev res])
    show "order (srv b') = touch (capacity (srv b)) n (order (srv b))"
      using order' by (simp add: touch_def order1) (simp add: s1_def)
    show "set (order (srv b')) = insert n (set (order (srv b)) - set_option ev)"
      using set' ev by (auto simp: order1)
    show "set_option ev \<subseteq> set (order (srv b)) - {n}" using ev by (auto simp: order1)
    show "set (removed b') = set (removed b) \<union> set_option ev"
      by (auto simp: b' ev_def evict_removed)
    show "map_of (found b') = (\<lambda>k. if k = n then Some res else if k \<in> set_option ev then None else map_of (found b) k)"
      by (rule ext) (simp add: b' ev_def evict_removed update_conv delete_conv)
  qed (use inv' cached' ev_n in \<open>simp_all add: srv' s1_def\<close>)
qed

section \<open>The loop over the requested names\<close>

text \<open>The loop invariant: \<open>D\<close> is the set of the names already served.\<close>

definition batch_inv :: "time \<Rightarrow> server \<Rightarrow> string set \<Rightarrow> batch \<Rightarrow> bool" where
  "batch_inv now s0 D b \<longleftrightarrow>
     cache_inv (srv b) \<and> capacity (srv b) = capacity s0 \<and> watches (srv b) = watches s0 \<and>
     (\<forall>n\<in>D. n \<in> dom (map_of (found b)) \<longleftrightarrow> canonicalName n \<noteq> None \<and> n \<in> set (order (srv b))) \<and>
     D \<subseteq> dom (map_of (found b)) \<union> set (removed b) \<and>
     (\<forall>n r. map_of (found b) n = Some r \<longrightarrow> n \<in> D \<and>
        (\<exists>c. cached (srv b) n = Some c \<and> cs_resource c = r \<and> now < cs_expires c)) \<and>
     set (removed b) \<subseteq> D \<union> set (order s0) \<and>
     set (order s0) \<subseteq> set (order (srv b)) \<union> set (removed b) \<and>
     set (order (srv b)) \<subseteq> set (order s0) \<union> D \<and>
     dom (map_of (found b)) \<inter> set (removed b) \<subseteq> set (order s0)"

lemma batch_invD:
  assumes "batch_inv now s0 D b"
  shows "cache_inv (srv b)" "capacity (srv b) = capacity s0" "watches (srv b) = watches s0"
    "n \<in> D \<Longrightarrow> n \<in> dom (map_of (found b)) \<longleftrightarrow> canonicalName n \<noteq> None \<and> n \<in> set (order (srv b))"
    "D \<subseteq> dom (map_of (found b)) \<union> set (removed b)"
    "map_of (found b) n = Some r \<Longrightarrow> n \<in> D"
    "map_of (found b) n = Some r \<Longrightarrow> \<exists>c. cached (srv b) n = Some c \<and> cs_resource c = r \<and> now < cs_expires c"
    "set (removed b) \<subseteq> D \<union> set (order s0)" "set (order s0) \<subseteq> set (order (srv b)) \<union> set (removed b)"
    "set (order (srv b)) \<subseteq> set (order s0) \<union> D"
    "dom (map_of (found b)) \<inter> set (removed b) \<subseteq> set (order s0)"
  using assms unfolding batch_inv_def by blast+

lemma batch_inv_start:
  "cache_inv s \<Longrightarrow> batch_inv now s {} \<lparr>srv = s, found = [], removed = []\<rparr>"
  by (simp add: batch_inv_def)

lemma cached_valid:
  assumes "cache_inv s" "cached s n = Some c"
  shows "canonicalName n \<noteq> None" "r_Name (cs_resource c) = n" "cs_name c = n"
  using assms cached_iff [OF assms(1), of n c] cache_invD(6) [OF assms(1)] by (fastforce simp: secret_ok_def)+

lemma batch_inv_refused:
  assumes b: "batch_inv now s0 D b" and n: "canonicalName n = None"
  shows "batch_inv now s0 (insert n D) (b\<lparr>removed := List.insert n (removed b)\<rparr>)"
proof -
  note d = batch_invD [OF b]
  have "n \<notin> dom (map_of (found b))"
    using d(7) [of n] cached_valid(1) [OF d(1), of n] n by fastforce
  then show ?thesis using b n unfolding batch_inv_def by auto
qed

lemma batch_inv_hit:
  assumes b: "batch_inv now s0 D b" and new: "n \<notin> D" and c: "cached (srv b) n = Some c" "now < cs_expires c"
  shows "batch_inv now s0 (insert n D)
    (b\<lparr>srv := promote n (srv b), found := AList.update n (cs_resource c) (found b)\<rparr>)"
proof -
  note d = batch_invD [OF b]
  have n: "n \<in> set (order (srv b))" "canonicalName n \<noteq> None"
    using cached_in_order [OF d(1), of n] c(1) cached_valid(1) [OF d(1) c(1)] by auto
  then have o: "set (order (promote n (srv b))) = set (order (srv b))"
    by (auto simp: promote_order [OF d(1)])
  have f: "dom (map_of (AList.update n (cs_resource c) (found b))) = insert n (dom (map_of (found b)))"
    by (simp add: update_conv')
  define b' where "b' = b\<lparr>srv := promote n (srv b), found := AList.update n (cs_resource c) (found b)\<rparr>"
  have b': "srv b' = promote n (srv b)" "found b' = AList.update n (cs_resource c) (found b)"
    "removed b' = removed b" by (simp_all add: b'_def)
  have "batch_inv now s0 (insert n D) b'"
    unfolding batch_inv_def b' promote_fields f o
  proof (intro conjI)
    show "cache_inv (promote n (srv b))" by (rule promote_inv [OF d(1)])
    show "\<forall>k r. map_of (AList.update n (cs_resource c) (found b)) k = Some r \<longrightarrow> k \<in> insert n D \<and>
        (\<exists>c. cached (promote n (srv b)) k = Some c \<and> cs_resource c = r \<and> now < cs_expires c)"
      using d(6,7) c by (auto simp: promote_cached [OF d(1)] update_conv)
    show "\<forall>k\<in>insert n D. k \<in> insert n (dom (map_of (found b))) \<longleftrightarrow>
        canonicalName k \<noteq> None \<and> k \<in> set (order (srv b))"
      using d(4) n by blast
  qed (use d(2,3,5,8,9,10,11) new in auto)
  then show ?thesis unfolding b'_def .
qed

lemma batch_inv_miss:
  assumes b: "batch_inv now s0 D b" and n: "canonicalName n = Some m" "n \<notin> D"
    and issued: "issue_secret cr now n m (b\<lparr>srv := remove_secret n (srv b)\<rparr>) = (b', None)"
  shows "batch_inv now s0 (insert n D) b'"
proof (rule miss_effect [OF batch_invD(1) [OF b] issued n(1)])
  note d = batch_invD [OF b]
  fix res ev
  assume e: "cache_inv (srv b')" "set (order (srv b')) = insert n (set (order (srv b)) - set_option ev)"
      "set_option ev \<subseteq> set (order (srv b)) - {n}" "set (removed b') = set (removed b) \<union> set_option ev"
      "map_of (found b') = (\<lambda>k. if k = n then Some res else if k \<in> set_option ev then None else map_of (found b) k)"
      "cached (srv b') = (\<lambda>k. if k = n then Some \<lparr>cs_name = n, cs_resource = res, cs_expires = now + secretTTL\<rparr>
        else if k \<in> set_option ev then None else cached (srv b) k)"
      "capacity (srv b') = capacity (srv b)" "watches (srv b') = watches (srv b)"
  have f: "dom (map_of (found b')) = insert n (dom (map_of (found b)) - set_option ev)"
    by (auto simp: e(5) split: if_splits)
  show ?thesis
    unfolding batch_inv_def e(2,4,6,7,8) f
  proof (intro conjI)
    show "\<forall>k\<in>insert n D. k \<in> insert n (dom (map_of (found b)) - set_option ev) \<longleftrightarrow>
        canonicalName k \<noteq> None \<and> k \<in> insert n (set (order (srv b)) - set_option ev)"
      using d(4) n by blast
    show "\<forall>k r. map_of (found b') k = Some r \<longrightarrow> k \<in> insert n D \<and>
        (\<exists>c. (if k = n then Some \<lparr>cs_name = n, cs_resource = res, cs_expires = now + secretTTL\<rparr>
            else if k \<in> set_option ev then None else cached (srv b) k) = Some c \<and> cs_resource c = r \<and> now < cs_expires c)"
      using d(6,7) by (simp add: e(5))
    show "set (order s0) \<subseteq> insert n (set (order (srv b)) - set_option ev) \<union> (set (removed b) \<union> set_option ev)"
      using d(9) by blast
    show "set (removed b) \<union> set_option ev \<subseteq> insert n D \<union> set (order s0)"
      using d(8,10) e(3) by blast
    show "insert n (set (order (srv b)) - set_option ev) \<subseteq> set (order s0) \<union> insert n D"
      using d(10) by blast
    show "insert n D \<subseteq> insert n (dom (map_of (found b)) - set_option ev) \<union> (set (removed b) \<union> set_option ev)"
      using d(5) by blast
    show "insert n (dom (map_of (found b)) - set_option ev) \<inter> (set (removed b) \<union> set_option ev) \<subseteq> set (order s0)"
      using d(8,11) e(3) n(2) by blast
  qed (use d(2,3) e(1) in simp_all)
qed

text \<open>The whole loop, for a list of distinct names.\<close>

lemma serve_names_batch:
  assumes "batch_inv now s0 D b" "serve_names cr now ns b = (b', None)" "distinct ns" "set ns \<inter> D = {}"
  shows "batch_inv now s0 (D \<union> set ns) b'"
  using assms
proof (induction ns arbitrary: D b)
  case (Cons n ns)
  obtain b1 where b1: "serve_name cr now n b = (b1, None)" "serve_names cr now ns b1 = (b', None)"
    using Cons.prems(2) by (auto split: prod.splits option.splits)
  have "batch_inv now s0 (insert n D) b1"
    using batch_invD(1) [OF Cons.prems(1)] b1(1)
  proof (cases rule: serve_name_cases)
    case refused
    then show ?thesis using batch_inv_refused [OF Cons.prems(1)] by simp
  next
    case (hit m c)
    then show ?thesis using batch_inv_hit [OF Cons.prems(1)] Cons.prems(4) by simp
  next
    case (miss m)
    then show ?thesis using batch_inv_miss [OF Cons.prems(1), of n m cr b1] Cons.prems(4) by simp
  qed
  then have "batch_inv now s0 (insert n D \<union> set ns) b'"
    using Cons.prems(3,4) b1(2) by (intro Cons.IH) auto
  then show ?case by simp
qed simp

text \<open>What every iteration keeps, also when issuing fails.\<close>

lemma serve_name_keeps:
  assumes "cache_inv (srv b)" "serve_name cr now n b = (b', e)"
  shows "cache_inv (srv b') \<and> capacity (srv b') = capacity (srv b) \<and> watches (srv b') = watches (srv b) \<and>
    nonce (srv b') = nonce (srv b)"
  using assms
proof (cases rule: serve_name_cases)
  case (miss m)
  show ?thesis
  proof (cases e)
    case None
    from miss_effect [OF assms(1) miss(3) [unfolded None] miss(1)] show ?thesis by metis
  next
    case (Some x)
    obtain r where "b' = b\<lparr>srv := (remove_secret n (srv b))\<lparr>draws := r\<rparr>\<rparr>"
      using issue_secret_error [OF miss(3) [unfolded Some]] by auto
    then show ?thesis using remove_secret_inv [OF assms(1)] by simp
  qed
qed (simp_all add: assms(1) promote_inv)

lemma serve_names_keeps:
  assumes "cache_inv (srv b)" "serve_names cr now ns b = (b', e)"
  shows "cache_inv (srv b') \<and> capacity (srv b') = capacity (srv b) \<and> watches (srv b') = watches (srv b) \<and>
    nonce (srv b') = nonce (srv b)"
  using assms
proof (induction ns arbitrary: b)
  case (Cons n ns)
  obtain b1 e1 where b1: "serve_name cr now n b = (b1, e1)" by (cases "serve_name cr now n b")
  note k = serve_name_keeps [OF Cons.prems(1) b1]
  show ?case
  proof (cases e1)
    case None
    then have "serve_names cr now ns b1 = (b', e)" using Cons.prems(2) b1 by simp
    then show ?thesis using Cons.IH [of b1] k by simp
  next
    case (Some x)
    then show ?thesis using Cons.prems(2) b1 k by auto
  qed
qed auto

text \<open>The order of the cache after the loop: every valid name is used once.\<close>

lemma serve_names_order:
  assumes "cache_inv (srv b)" "serve_names cr now ns b = (b', None)"
  shows "order (srv b') =
    fold (touch (capacity (srv b))) (filter (\<lambda>n. canonicalName n \<noteq> None) ns) (order (srv b))"
  using assms
proof (induction ns arbitrary: b)
  case (Cons n ns)
  obtain b1 where b1: "serve_name cr now n b = (b1, None)" "serve_names cr now ns b1 = (b', None)"
    using Cons.prems(2) by (auto split: prod.splits option.splits)
  note k = serve_name_keeps [OF Cons.prems(1) b1(1)]
  have "order (srv b1) = (if canonicalName n = None then order (srv b) else touch (capacity (srv b)) n (order (srv b)))"
    using Cons.prems(1) b1(1)
  proof (cases rule: serve_name_cases)
    case (hit m c)
    then have "n \<in> set (order (srv b))" using cached_in_order [OF Cons.prems(1)] by blast
    then show ?thesis using hit sds_cache.hit [OF Cons.prems(1)] by simp
  next
    case (miss m)
    from miss_effect [OF Cons.prems(1) miss(3,1)] show ?thesis using miss(1) by fastforce
  qed simp
  then show ?case using Cons.IH [of b1] k b1(2) by simp
qed simp

section \<open>A whole update\<close>

lemma interested_remove [simp]: "interested (remove_secret n s) = interested s"
  by (simp add: interested_def fun_eq_iff)

lemma drop_unwatched_fold:
  "fold drop_unwatched ks s = fold remove_secret (filter (\<lambda>n. \<not> interested s n) ks) s"
  by (induction ks arbitrary: s) (simp_all add: drop_unwatched_def)

lemma fold_remove_fields [simp]:
  "watches (fold remove_secret ks s) = watches s" "nonce (fold remove_secret ks s) = nonce s"
  "draws (fold remove_secret ks s) = draws s" "version (fold remove_secret ks s) = version s"
  by (induction ks arbitrary: s) simp_all

lemma drop_unwatched_effect:
  assumes "cache_inv s"
  shows "cache_inv (fold drop_unwatched ks s)" "capacity (fold drop_unwatched ks s) = capacity s"
    "watches (fold drop_unwatched ks s) = watches s" "nonce (fold drop_unwatched ks s) = nonce s"
    "draws (fold drop_unwatched ks s) = draws s" "version (fold drop_unwatched ks s) = version s"
    "order (fold drop_unwatched ks s) = filter (\<lambda>n. n \<notin> set ks \<or> interested s n) (order s)"
proof -
  note d = sds_cache.drops [OF assms, of "filter (\<lambda>n. \<not> interested s n) ks"]
  show "cache_inv (fold drop_unwatched ks s)" "capacity (fold drop_unwatched ks s) = capacity s"
    using d(1,3) by (simp_all add: drop_unwatched_fold)
  have "order (fold drop_unwatched ks s) = filter (\<lambda>m. m \<notin> set (filter (\<lambda>n. \<not> interested s n) ks)) (order s)"
    unfolding drop_unwatched_fold by (rule d(2))
  also have "\<dots> = filter (\<lambda>n. n \<notin> set ks \<or> interested s n) (order s)" by (rule filter_cong) auto
  finally show "order (fold drop_unwatched ks s) = filter (\<lambda>n. n \<notin> set ks \<or> interested s n) (order s)" .
qed (simp_all add: drop_unwatched_fold)

lemma requested_set:
  "set (requested req) = set (ResourceNamesSubscribe req) \<union> set (InitialResourceVersions req)"
  "distinct (requested req)"
  by (auto simp: requested_def)

text \<open>The state after the unsubscriptions, on which the loop starts.\<close>

definition after_unsubscribe :: "request \<Rightarrow> server \<Rightarrow> server" where
  "after_unsubscribe req s = fold drop_unwatched (ResourceNamesUnsubscribe req) s"

lemma updateLocked_ok:
  assumes "cache_inv s" "updateLocked cr req now s = (s', Inr res)"
  obtains b where
    "serve_names cr now (requested req) \<lparr>srv = after_unsubscribe req s, found = [], removed = []\<rparr> = (b, None)"
    "batch_inv now (after_unsubscribe req s) (set (requested req)) b" "respond b = (s', res)"
proof -
  let ?b = "\<lparr>srv = after_unsubscribe req s, found = [], removed = []\<rparr>"
  obtain b where b: "serve_names cr now (requested req) ?b = (b, None)" "respond b = (s', res)"
    using assms(2) by (auto simp: updateLocked_def after_unsubscribe_def Let_def split: prod.splits option.splits)
  have "batch_inv now (after_unsubscribe req s) {} ?b"
    using drop_unwatched_effect(1) [OF assms(1)] by (intro batch_inv_start) (simp add: after_unsubscribe_def)
  from serve_names_batch [OF this b(1) requested_set(2)] b show thesis by (intro that) simp_all
qed

lemma respond_fields:
  assumes "respond b = (s, res)"
  shows "s = (srv b)\<lparr>nonce := nonce (srv b) + 1\<rparr>" "Nonce res = nonce (srv b) + 1"
    "set (RemovedResources res) = set (removed b)"
    "sorted (RemovedResources res)" "distinct (RemovedResources res)"
    "Resources res = map (\<lambda>n. the (map_of (found b) n)) (sort (remdups (map fst (found b))))"
  using assms by (auto simp: respond_def Let_def)

lemma respond_resources:
  assumes b: "batch_inv now s0 D b" and r: "respond b = (s, res)"
  shows "map r_Name (Resources res) = sort (remdups (map fst (found b)))"
    "set (Resources res) = ran (map_of (found b))"
    "r_Name ` set (Resources res) = dom (map_of (found b))"
proof -
  have name: "map_of (found b) n = Some x \<Longrightarrow> r_Name x = n" for n x
    using batch_invD(7) [OF b] cached_valid(2) [OF batch_invD(1) [OF b]] by metis
  have in_dom: "n \<in> fst ` set (found b) \<Longrightarrow> \<exists>x. map_of (found b) n = Some x" for n
    by (metis map_of_eq_None_iff not_None_eq)
  show names: "map r_Name (Resources res) = sort (remdups (map fst (found b)))"
    unfolding respond_fields(6) [OF r] map_map by (rule map_idI) (use name in_dom in fastforce)
  show "set (Resources res) = ran (map_of (found b))"
  proof
    show "set (Resources res) \<subseteq> ran (map_of (found b))"
      using in_dom by (fastforce simp: respond_fields(6) [OF r] intro: ranI)
    show "ran (map_of (found b)) \<subseteq> set (Resources res)"
    proof
      fix x assume "x \<in> ran (map_of (found b))"
      then obtain n where n: "map_of (found b) n = Some x" by (auto simp: ran_def)
      then have "n \<in> fst ` set (found b)" by (metis map_of_eq_None_iff option.distinct(1))
      then show "x \<in> set (Resources res)"
        using n by (auto simp: respond_fields(6) [OF r] intro!: image_eqI [of _ _ n])
    qed
  qed
  have "r_Name ` set (Resources res) = set (map r_Name (Resources res))" by simp
  then show "r_Name ` set (Resources res) = dom (map_of (found b))"
    unfolding names by (simp add: dom_map_of_conv_image_fst)
qed

text \<open>
  What a successful update promises: every requested name is answered, an invalid one as
  removed, what is served is in the cache and fresh, and what left the cache is reported.
\<close>

lemma updateLocked_contract:
  assumes inv: "cache_inv s" and u: "updateLocked cr req now s = (s', Inr res)"
  shows "cache_inv s'" "capacity s' = capacity s" "watches s' = watches s"
    "n \<in> set (requested req) \<Longrightarrow> n \<in> r_Name ` set (Resources res) \<longleftrightarrow> canonicalName n \<noteq> None \<and> n \<in> set (order s')"
    "set (requested req) \<subseteq> r_Name ` set (Resources res) \<union> set (RemovedResources res)"
    "r \<in> set (Resources res) \<Longrightarrow> r_Name r \<in> set (requested req) \<and>
        (\<exists>c. cached s' (r_Name r) = Some c \<and> cs_resource c = r \<and> now < cs_expires c)"
    "set (order (after_unsubscribe req s)) \<subseteq> set (order s') \<union> set (RemovedResources res)"
    "set (order s') \<subseteq> set (order s) \<union> set (requested req)"
    "r_Name ` set (Resources res) \<inter> set (RemovedResources res) \<subseteq> set (order (after_unsubscribe req s))"
    "distinct (map r_Name (Resources res))" "sorted (map r_Name (Resources res))"
    "order s' = fold (touch (capacity s)) (filter (\<lambda>n. canonicalName n \<noteq> None) (requested req))
        (order (after_unsubscribe req s))"
proof -
  obtain b where
    b: "serve_names cr now (requested req) \<lparr>srv = after_unsubscribe req s, found = [], removed = []\<rparr> = (b, None)"
      "batch_inv now (after_unsubscribe req s) (set (requested req)) b" "respond b = (s', res)"
    by (rule updateLocked_ok [OF inv u])
  note a = drop_unwatched_effect [OF inv, of "ResourceNamesUnsubscribe req", folded after_unsubscribe_def]
  note d = batch_invD [OF b(2)]
  note f = respond_fields [OF b(3)]
  note g = respond_resources [OF b(2,3)]
  have s': "order s' = order (srv b)" "cached s' = cached (srv b)" by (auto simp: f(1))
  show "cache_inv s'" "capacity s' = capacity s" "watches s' = watches s"
    using d(1-3) a(2,3) by (simp_all add: f(1))
  show "n \<in> set (requested req) \<Longrightarrow> n \<in> r_Name ` set (Resources res) \<longleftrightarrow> canonicalName n \<noteq> None \<and> n \<in> set (order s')"
    unfolding g(3) s' by (rule d(4))
  show "set (requested req) \<subseteq> r_Name ` set (Resources res) \<union> set (RemovedResources res)"
    unfolding g(3) f(3) by (rule d(5))
  show "r \<in> set (Resources res) \<Longrightarrow> r_Name r \<in> set (requested req) \<and>
        (\<exists>c. cached s' (r_Name r) = Some c \<and> cs_resource c = r \<and> now < cs_expires c)"
  proof -
    assume "r \<in> set (Resources res)"
    then obtain n where n: "map_of (found b) n = Some r" unfolding g(2) by (auto simp: ran_def)
    then obtain c where c: "cached (srv b) n = Some c" "cs_resource c = r" "now < cs_expires c" using d(7) by blast
    then have "r_Name r = n" using cached_valid(2) [OF d(1) c(1)] by simp
    then show ?thesis using c d(6) [OF n] by (simp add: s')
  qed
  show "set (order (after_unsubscribe req s)) \<subseteq> set (order s') \<union> set (RemovedResources res)"
    unfolding f(3) s' by (rule d(9))
  show "set (order s') \<subseteq> set (order s) \<union> set (requested req)" using d(10) a(7) by (auto simp: s')
  show "r_Name ` set (Resources res) \<inter> set (RemovedResources res) \<subseteq> set (order (after_unsubscribe req s))"
    unfolding g(3) f(3) by (rule d(11))
  show "distinct (map r_Name (Resources res))" "sorted (map r_Name (Resources res))" unfolding g(1) by simp_all
  show "order s' = fold (touch (capacity s)) (filter (\<lambda>n. canonicalName n \<noteq> None) (requested req))
        (order (after_unsubscribe req s))"
    using serve_names_order [OF _ b(1)] a(1,2) by (simp add: s')
qed

text \<open>Also a failed update leaves a consistent cache and the same subscriptions.\<close>

lemma updateLocked_keeps:
  assumes "cache_inv s" "updateLocked cr req now s = (s', r)"
  shows "cache_inv s'" "capacity s' = capacity s" "watches s' = watches s"
proof -
  let ?b = "\<lparr>srv = after_unsubscribe req s, found = [], removed = []\<rparr>"
  obtain b e where b: "serve_names cr now (requested req) ?b = (b, e)" by fastforce
  note a = drop_unwatched_effect [OF assms(1), of "ResourceNamesUnsubscribe req", folded after_unsubscribe_def]
  have k: "cache_inv (srv b) \<and> capacity (srv b) = capacity s \<and> watches (srv b) = watches s"
    using serve_names_keeps [OF _ b] a(1-3) by simp
  have "s' = srv b \<or> s' = (srv b)\<lparr>nonce := nonce (srv b) + 1\<rparr>"
    using assms(2) b by (auto simp: updateLocked_def after_unsubscribe_def respond_def Let_def
        split: prod.splits option.splits)
  then show "cache_inv s'" "capacity s' = capacity s" "watches s' = watches s" using k by auto
qed

end
