(* ===== verification/SecretStreams.thy ===== *)
theory SecretStreams
  imports SDS
begin

text \<open>
  The theorems on the certificate service of \<^verbatim>\<open>internal/inspection/sds.go\<close>: the
  bounds every interleaving of its streams keeps, what one update promises, the cache as a
  bounded recency list, and what the watchers of a name learn.
\<close>

section \<open>Streams and their bounds\<close>

definition watch_ok :: "secretWatch \<Rightarrow> bool" where
  "watch_ok w \<longleftrightarrow>
     distinct (names w) \<and> length (updates w) \<le> updateQueue \<and>
     length (names w) \<le> (if stopped w then 2 * maxRequestNames else maxRequestNames)"

definition service_ok :: "server \<Rightarrow> bool" where
  "service_ok s \<longleftrightarrow>
     cache_inv s \<and> capacity s \<le> maxRequestNames \<and> length (watches s) \<le> 2 * capacity s \<and>
     distinct (map fst (watches s)) \<and> (\<forall>p\<in>set (watches s). watch_ok (snd p))"

lemma fail_fields [simp]:
  "names (fail e w) = names w" "updates (fail e w) = updates w" "stopped (fail e w) = stopped w"
  "errors (fail e w) \<noteq> None"
  by (auto simp: fail_def split: option.splits)

lemma enqueue_fields [simp]:
  "names (enqueue res w) = names w" "stopped (enqueue res w) = stopped w"
  by (simp_all add: enqueue_def)

lemma enqueue_updates: "length (updates w) \<le> updateQueue \<Longrightarrow> length (updates (enqueue res w)) \<le> updateQueue"
  by (simp add: enqueue_def)

lemma deliver_ok: "watch_ok w \<Longrightarrow> watch_ok (deliver res w)"
proof -
  assume w: "watch_ok w"
  have "length (names (deliver res w)) \<le> length (names w)" by (simp add: deliver_def)
  moreover have "length (updates (deliver res w)) \<le> updateQueue"
    using w by (auto simp: deliver_def watch_ok_def intro: enqueue_updates)
  ultimately show ?thesis using w unfolding watch_ok_def by (auto simp: deliver_def intro: order_trans [OF length_filter_le])
qed

lemma update_watches:
  assumes "distinct (map fst ws)" "map_of ws w = Some x" "\<forall>p\<in>set ws. P (snd p)" "P y"
  shows "distinct (map fst (AList.update w y ws))" "length (AList.update w y ws) = length ws"
    "\<forall>p\<in>set (AList.update w y ws). P (snd p)"
proof -
  show d: "distinct (map fst (AList.update w y ws))" by (rule distinct_update [OF assms(1)])
  have k: "w \<in> fst ` set ws" using assms(2) by (metis map_of_eq_None_iff option.distinct(1))
  then have "map fst (AList.update w y ws) = map fst ws" by (simp add: update_keys)
  then show "length (AList.update w y ws) = length ws" by (metis length_map)
  show "\<forall>p\<in>set (AList.update w y ws). P (snd p)"
  proof
    fix p assume "p \<in> set (AList.update w y ws)"
    then have "map_of (AList.update w y ws) (fst p) = Some (snd p)" using d by simp
    then have "snd p = y \<or> map_of ws (fst p) = Some (snd p)" by (auto simp: update_conv split: if_splits)
    then show "P (snd p)" using assms(3,4) map_of_SomeD by fastforce
  qed
qed

lemma service_update_watch:
  assumes "service_ok s" "map_of (watches s) w = Some x" "watch_ok y"
  shows "service_ok (s\<lparr>watches := AList.update w y (watches s)\<rparr>)"
  using assms update_watches [of "watches s" w x watch_ok y] by (simp add: service_ok_def)

lemma stop_reader_ok:
  assumes "service_ok s"
  shows "service_ok (stop_reader w err s)"
proof (cases "map_of (watches s) w")
  case (Some x)
  then have "watch_ok x" using assms map_of_SomeD by (fastforce simp: service_ok_def)
  then have "watch_ok ((fail err x)\<lparr>stopped := True\<rparr>)" by (auto simp: watch_ok_def split: if_splits)
  then show ?thesis using service_update_watch [OF assms Some] Some by (simp add: stop_reader_def)
qed (use assms in \<open>simp add: stop_reader_def\<close>)

lemma subscribe_names_set:
  "set (names (subscribe_names req w)) =
     set (names w) - set (ResourceNamesUnsubscribe req) \<union> set (requested req)"
proof -
  have "set (fold List.insert xs ys) = set xs \<union> set ys" for xs ys :: "string list"
    by (induction xs arbitrary: ys) auto
  then show ?thesis by (auto simp: subscribe_names_def requested_set)
qed

lemma fold_insert_bounds:
  "distinct ys \<Longrightarrow> distinct (fold List.insert xs ys) \<and> length (fold List.insert xs ys) \<le> length xs + length ys"
proof (induction xs arbitrary: ys)
  case (Cons x xs)
  from Cons.IH [of "List.insert x ys"] Cons.prems show ?case
    by (auto simp: List.insert_def split: if_splits)
qed simp

lemma subscribe_names_bounds:
  assumes "watch_ok w" "\<not> stopped w" "request_ok req"
  shows "distinct (names (subscribe_names req w))" "length (names (subscribe_names req w)) \<le> 2 * maxRequestNames"
    "updates (subscribe_names req w) = updates w" "stopped (subscribe_names req w) = stopped w"
proof -
  let ?ys = "filter (\<lambda>n. n \<notin> set (ResourceNamesUnsubscribe req)) (names w)"
  have "distinct ?ys" "length ?ys \<le> maxRequestNames"
    using assms(1,2) by (auto simp: watch_ok_def intro: order_trans [OF length_filter_le])
  then show "distinct (names (subscribe_names req w))" "length (names (subscribe_names req w)) \<le> 2 * maxRequestNames"
    using fold_insert_bounds [of ?ys "ResourceNamesSubscribe req @ InitialResourceVersions req"] assms(3)
    by (auto simp: subscribe_names_def request_ok_def)
qed (simp_all add: subscribe_names_def)

text \<open>The error of a failed request ends its reader, whatever the subscription holds by then.\<close>

lemma stop_reader_update:
  assumes "service_ok s" "map_of (watches s) w = Some x" "distinct (names y)"
    "length (names y) \<le> 2 * maxRequestNames" "length (updates y) \<le> updateQueue"
  shows "service_ok (stop_reader w err (s\<lparr>watches := AList.update w y (watches s)\<rparr>))"
proof -
  let ?y = "(fail err y)\<lparr>stopped := True\<rparr>"
  have "AList.update w ?y (AList.update w y (watches s)) = AList.update w ?y (watches s)"
    by simp
  then have "stop_reader w err (s\<lparr>watches := AList.update w y (watches s)\<rparr>) =
      s\<lparr>watches := AList.update w ?y (watches s)\<rparr>"
    by (simp add: stop_reader_def update_conv)
  moreover have "watch_ok ?y" using assms(3-5) by (simp add: watch_ok_def)
  ultimately show ?thesis using service_update_watch [OF assms(1,2)] by simp
qed

lemma deliver_all:
  assumes "service_ok s"
  shows "service_ok (s\<lparr>watches := map (\<lambda>p. (fst p, deliver res (snd p))) (watches s)\<rparr>)"
  using assms deliver_ok by (auto simp: service_ok_def comp_def)

lemma service_after_update:
  assumes "service_ok s" "updateLocked cr req now s = (s', r)"
  shows "service_ok s'"
  using assms(1) updateLocked_keeps [OF _ assms(2)] by (simp add: service_ok_def)

text \<open>A request that changes nothing of its stream but the certificates: its three outcomes.\<close>

lemma process_cases:
  assumes "map_of (watches s) w = Some x"
  obtains
    (limit) "maxRequestNames < length (names (subscribe_names req x))"
      "process cr w req now s = (s\<lparr>watches := AList.update w (subscribe_names req x) (watches s)\<rparr>,
         Some (ResourceExhausted ''inspection subscription name limit''))"
  | (failed) t e where "length (names (subscribe_names req x)) \<le> maxRequestNames"
      "updateLocked cr req now (s\<lparr>watches := AList.update w (subscribe_names req x) (watches s)\<rparr>) = (t, Inl e)"
      "process cr w req now s = (t, Some (Internal ''inspection certificate issuance failed''))"
  | (served) t res where "length (names (subscribe_names req x)) \<le> maxRequestNames"
      "updateLocked cr req now (s\<lparr>watches := AList.update w (subscribe_names req x) (watches s)\<rparr>) = (t, Inr res)"
      "process cr w req now s = (t\<lparr>watches := map (\<lambda>p. (fst p, deliver res (snd p))) (watches t)\<rparr>, None)"
proof (cases "maxRequestNames < length (names (subscribe_names req x))")
  case True
  then show thesis using assms by (intro limit) (simp_all add: process_def Let_def)
next
  case False
  let ?s = "s\<lparr>watches := AList.update w (subscribe_names req x) (watches s)\<rparr>"
  obtain t r where u: "updateLocked cr req now ?s = (t, r)" by fastforce
  show thesis
  proof (cases r)
    case (Inl e)
    show thesis by (rule failed) (use False u Inl assms in \<open>simp_all add: process_def Let_def\<close>)
  next
    case (Inr res)
    show thesis by (rule served) (use False u Inr assms in \<open>simp_all add: process_def Let_def\<close>)
  qed
qed

lemma on_request_ok:
  assumes s: "service_ok s" and x: "map_of (watches s) w = Some x" "\<not> stopped x"
  shows "service_ok (on_request cr w req now s)"
proof (cases "ErrorDetail req \<or> \<not> request_ok req")
  case True
  then show ?thesis using stop_reader_ok [OF s] by (auto simp: on_request_def)
next
  case False
  then have req: "request_ok req" "\<not> ErrorDetail req" by auto
  have wx: "watch_ok x" using s x(1) map_of_SomeD by (fastforce simp: service_ok_def)
  note b = subscribe_names_bounds [OF wx x(2) req(1)]
  let ?s = "s\<lparr>watches := AList.update w (subscribe_names req x) (watches s)\<rparr>"
  have up: "length (names (subscribe_names req x)) \<le> maxRequestNames \<Longrightarrow> service_ok ?s"
    using service_update_watch [OF s x(1)] b wx x(2) by (simp add: watch_ok_def)
  show ?thesis
    using x(1)
  proof (cases rule: process_cases [of s w x req cr now])
    case limit
    then show ?thesis
      using stop_reader_update [OF s x(1) b(1,2)] b(3) wx req by (simp add: on_request_def watch_ok_def)
  next
    case (failed t e)
    then show ?thesis
      using stop_reader_ok [OF service_after_update [OF up failed(2)]] req by (simp add: on_request_def)
  next
    case (served t res)
    then show ?thesis
      using deliver_all [OF service_after_update [OF up served(2)]] req by (simp add: on_request_def)
  qed
qed

lemma update_new_key: "w \<notin> fst ` set ws \<Longrightarrow> AList.update w x ws = ws @ [(w, x)]"
  by (induction ws) auto

lemma service_step:
  assumes "sds_step cr s t" "service_ok s"
  shows "service_ok t"
  using assms
proof (cases rule: sds_step.cases)
  case (opened w)
  then have "AList.update w new_watch (watches s) = watches s @ [(w, new_watch)]"
    by (intro update_new_key)
  then show ?thesis
    using opened assms(2)
    by (auto simp: open_stream_def service_ok_def watch_ok_def new_watch_def split: if_splits)
next
  case (received w x req now)
  then show ?thesis using on_request_ok assms(2) by simp
next
  case (receive_failed w x err)
  then show ?thesis using stop_reader_ok assms(2) by simp
next
  case (sent w x)
  then have "watch_ok x" using assms(2) map_of_SomeD by (fastforce simp: service_ok_def)
  then have "watch_ok (x\<lparr>updates := tl (updates x)\<rparr>)" by (auto simp: watch_ok_def)
  then show ?thesis using service_update_watch [OF assms(2) sent(2)] sent by (simp add: send_update_def)
next
  case (closed w)
  have "set (AList.delete w (watches s)) \<subseteq> set (watches s)" by (auto simp: AList.delete_eq)
  then show ?thesis
    using closed assms(2) order_trans [OF length_delete_le]
    by (auto simp: close_stream_def service_ok_def distinct_delete)
qed

lemma service_start: "NewSecretServer (Some a) cap = Some s \<Longrightarrow> service_ok s"
  by (auto simp: NewSecretServer_def service_ok_def cache_inv_def order_def split: if_splits)

lemma reachable_service: "sds_reachable cr s \<Longrightarrow> service_ok s"
  by (induction rule: sds_reachable.induct) (auto intro: service_start service_step)

section \<open>Properties of one update\<close>

text \<open>
  C11: in every interleaving of streams the service stays within its bounds: at most
  \<open>capacity\<close> cached certificates, \<open>2 * capacity\<close> streams, 4 queued updates and, while its
  reader runs, 128 names per stream; each cached entry is stored under its own name, for a
  host name that is the only name of its certificate.
\<close>

theorem service_within_bounds:
  assumes "sds_reachable cr s"
  shows "length (lru s) \<le> capacity s \<and> capacity s \<le> 128 \<and> length (watches s) \<le> 2 * capacity s \<and>
    distinct (order s) \<and> set (order s) = dom (map_of (entries s)) \<and>
    (\<forall>n c. cached s n = Some c \<longrightarrow> r_Name (cs_resource c) = n \<and>
       (\<exists>m. canonicalName n = Some m \<and> DNSNames (r_Leaf (cs_resource c)) = [m])) \<and>
    (\<forall>(w, x)\<in>set (watches s). length (updates x) \<le> 4 \<and> (\<not> stopped x \<longrightarrow> length (names x) \<le> 128))"
proof (intro conjI)
  have ok: "service_ok s" by (rule reachable_service [OF assms])
  then have inv: "cache_inv s" by (simp add: service_ok_def)
  show "length (lru s) \<le> capacity s" "distinct (order s)" using cache_invD [OF inv] by simp_all
  show "capacity s \<le> 128" "length (watches s) \<le> 2 * capacity s"
    using ok by (simp_all add: service_ok_def maxRequestNames_def)
  show "set (order s) = dom (map_of (entries s))" using entry_iff_cached(1) [OF inv] by (auto simp: dom_def)
  show "\<forall>n c. cached s n = Some c \<longrightarrow> r_Name (cs_resource c) = n \<and>
       (\<exists>m. canonicalName n = Some m \<and> DNSNames (r_Leaf (cs_resource c)) = [m])"
    using cached_iff [OF inv] cache_invD(6) [OF inv] by (fastforce simp: secret_ok_def)
  show "\<forall>(w, x)\<in>set (watches s). length (updates x) \<le> 4 \<and> (\<not> stopped x \<longrightarrow> length (names x) \<le> 128)"
    using ok by (fastforce simp: service_ok_def watch_ok_def updateQueue_def maxRequestNames_def)
qed

text \<open>A concrete run for the witnesses: a capacity of one and a stream that asks for a name.\<close>

definition toy_server :: server where
  "toy_server = the (NewSecretServer (Some toy_authority) 1)"

definition ask :: "string list \<Rightarrow> string list \<Rightarrow> request" where
  "ask ns us = \<lparr>TypeUrl = secretType, ResourceNamesSubscribe = ns, ResourceNamesUnsubscribe = us,
     InitialResourceVersions = [], ErrorDetail = False\<rparr>"

definition toy_open :: server where
  "toy_open = toy_server\<lparr>watches := [(0, new_watch)]\<rparr>"

lemma toy_server_eq:
  "toy_server = \<lparr>authority = toy_authority, capacity = 1, watches = [], entries = [], lru = [],
     version = 0, nonce = 0, next_element = 0, draws = 0\<rparr>"
  by (simp add: toy_server_def NewSecretServer_def maxRequestNames_def)

lemma toy_inv: "cache_inv toy_server" "cache_inv toy_open" "service_ok toy_open"
  by (simp_all add: toy_server_eq toy_open_def cache_inv_def order_def service_ok_def watch_ok_def
      new_watch_def maxRequestNames_def)

lemma toy_open_reachable: "sds_reachable toy_crypto toy_open"
proof -
  have "NewSecretServer (Some toy_authority) 1 = Some toy_server"
    by (simp add: toy_server_def NewSecretServer_def maxRequestNames_def)
  then have "sds_reachable toy_crypto toy_server" by (rule sds_reachable.start)
  moreover have "open_stream 0 toy_server = Inr toy_open"
    by (simp add: open_stream_def toy_open_def toy_server_eq)
  then have "sds_step toy_crypto toy_server toy_open"
    by (intro sds_step.opened) (simp_all add: toy_server_eq)
  ultimately show ?thesis by (rule sds_reachable.step)
qed

definition toy_asked :: server where
  "toy_asked = on_request toy_crypto 0 (ask [''b.test''] []) hour toy_open"

lemma toy_asked_reachable: "sds_reachable toy_crypto toy_asked"
  unfolding toy_asked_def
  by (rule sds_reachable.step [OF toy_open_reachable sds_step.received [of _ _ new_watch]])
     (simp_all add: toy_open_def new_watch_def)

theorem service_within_bounds_witness: "length (lru toy_asked) \<le> capacity toy_asked"
  using service_within_bounds [OF toy_asked_reachable] by blast

text \<open>
  C28: a successful update answers every requested name: an invalid name as removed and never
  with a certificate, any other with the certificate the cache holds for it, unexpired, or as
  removed when the batch pushed it out again; nothing else is sent, names come sorted and
  once, and every name that left the cache without being unsubscribed is reported removed.
\<close>

theorem updateLocked_answers_every_name:
  assumes "cache_inv s" and "updateLocked cr req now s = (s', Inr res)"
  shows "cache_inv s' \<and>
    (\<forall>n\<in>set (requested req). if canonicalName n = None
       then n \<in> set (RemovedResources res) \<and> n \<notin> r_Name ` set (Resources res)
       else if n \<in> set (order s') then n \<in> r_Name ` set (Resources res)
       else n \<in> set (RemovedResources res) \<and> n \<notin> r_Name ` set (Resources res)) \<and>
    (\<forall>r\<in>set (Resources res). r_Name r \<in> set (requested req) \<and>
       (\<exists>c. cached s' (r_Name r) = Some c \<and> cs_resource c = r \<and> now < cs_expires c)) \<and>
    distinct (map r_Name (Resources res)) \<and> sorted (map r_Name (Resources res)) \<and>
    (\<forall>n\<in>set (order s). n \<in> set (order s') \<or> n \<in> set (RemovedResources res) \<or>
       (n \<in> set (ResourceNamesUnsubscribe req) \<and> \<not> interested s n))"
proof -
  note c = updateLocked_contract [OF assms]
  have "order (after_unsubscribe req s) =
      filter (\<lambda>n. n \<notin> set (ResourceNamesUnsubscribe req) \<or> interested s n) (order s)"
    unfolding after_unsubscribe_def by (rule drop_unwatched_effect(7) [OF assms(1)])
  then have left: "\<forall>n\<in>set (order s). n \<in> set (order s') \<or> n \<in> set (RemovedResources res) \<or>
       (n \<in> set (ResourceNamesUnsubscribe req) \<and> \<not> interested s n)"
    using c(7) by auto
  have answers: "\<forall>n\<in>set (requested req). if canonicalName n = None
       then n \<in> set (RemovedResources res) \<and> n \<notin> r_Name ` set (Resources res)
       else if n \<in> set (order s') then n \<in> r_Name ` set (Resources res)
       else n \<in> set (RemovedResources res) \<and> n \<notin> r_Name ` set (Resources res)"
  proof
    fix n assume n: "n \<in> set (requested req)"
    then have "n \<in> r_Name ` set (Resources res) \<or> n \<in> set (RemovedResources res)" using c(5) by blast
    with c(4) [OF n] show "if canonicalName n = None
       then n \<in> set (RemovedResources res) \<and> n \<notin> r_Name ` set (Resources res)
       else if n \<in> set (order s') then n \<in> r_Name ` set (Resources res)
       else n \<in> set (RemovedResources res) \<and> n \<notin> r_Name ` set (Resources res)" by auto
  qed
  have served: "\<forall>r\<in>set (Resources res). r_Name r \<in> set (requested req) \<and>
       (\<exists>c. cached s' (r_Name r) = Some c \<and> cs_resource c = r \<and> now < cs_expires c)"
    using c(6) by blast
  show ?thesis by (intro conjI c(1) answers served c(10,11) left)
qed

text \<open>Concrete updates for the witnesses, on a cache of one and then on the cache it leaves.\<close>

definition toy_warm :: server where
  "toy_warm = fst (updateLocked toy_crypto (ask [''b.test'', ''_''] []) hour toy_server)"

definition toy_response :: response where
  "toy_response = projr (snd (updateLocked toy_crypto (ask [''b.test'', ''_''] []) hour toy_server))"

lemma toy_update_run:
  "case updateLocked toy_crypto (ask [''b.test'', ''_''] []) hour toy_server of
     (s, Inr r) \<Rightarrow> order s = [''b.test''] \<and> map r_Name (Resources r) = [''b.test''] \<and>
       RemovedResources r = [''_''] \<and> version s = 1 \<and> draws s = 3 \<and> watches s = [] \<and> capacity s = 1 \<and>
       (case cached s ''b.test'' of Some c \<Rightarrow> cs_expires c = hour + secretTTL | None \<Rightarrow> False)
   | _ \<Rightarrow> False"
  by code_simp

lemma toy_update:
  "updateLocked toy_crypto (ask [''b.test'', ''_''] []) hour toy_server = (toy_warm, Inr toy_response)"
  "order toy_warm = [''b.test'']" "map r_Name (Resources toy_response) = [''b.test'']"
  "RemovedResources toy_response = [''_'']" "version toy_warm = 1" "draws toy_warm = 3"
  "watches toy_warm = []" "capacity toy_warm = 1"
  "\<exists>c. cached toy_warm ''b.test'' = Some c \<and> cs_expires c = hour + secretTTL"
  using toy_update_run
  by (auto simp: toy_warm_def toy_response_def split: prod.splits sum.splits option.splits)

theorem updateLocked_answers_every_name_witness:
  "cache_inv toy_warm \<and> distinct (map r_Name (Resources toy_response))"
  using updateLocked_answers_every_name [OF toy_inv(1) toy_update(1)] by blast

text \<open>
  C14: the cache is a least-recently-used list.  After an update the order of the cached names
  is that of a list of at most \<open>capacity\<close> names in which each requested valid name, in
  sorted order, is moved or put to the front and the overflow falls off the end; so a batch
  of at most \<open>capacity\<close> valid names is answered with a certificate for every one of them.
\<close>

theorem updateLocked_refines_lru_list:
  assumes "cache_inv s" and "updateLocked cr req now s = (s', Inr res)"
  shows "order s' = fold (touch (capacity s)) (filter (\<lambda>n. canonicalName n \<noteq> None) (requested req))
      (filter (\<lambda>n. n \<notin> set (ResourceNamesUnsubscribe req) \<or> interested s n) (order s)) \<and>
    (length (filter (\<lambda>n. canonicalName n \<noteq> None) (requested req)) \<le> capacity s \<longrightarrow>
       {n \<in> set (requested req). canonicalName n \<noteq> None} \<subseteq> r_Name ` set (Resources res))"
proof
  note c = updateLocked_contract [OF assms]
  let ?valid = "filter (\<lambda>n. canonicalName n \<noteq> None) (requested req)"
  let ?start = "filter (\<lambda>n. n \<notin> set (ResourceNamesUnsubscribe req) \<or> interested s n) (order s)"
  have "order (after_unsubscribe req s) = ?start"
    unfolding after_unsubscribe_def by (rule drop_unwatched_effect(7) [OF assms(1)])
  then show order: "order s' = fold (touch (capacity s)) ?valid ?start" using c(12) by simp
  show "length ?valid \<le> capacity s \<longrightarrow>
       {n \<in> set (requested req). canonicalName n \<noteq> None} \<subseteq> r_Name ` set (Resources res)"
  proof
    assume fits: "length ?valid \<le> capacity s"
    have "order s' = take (capacity s) (rev ?valid @ filter (\<lambda>m. m \<notin> set ?valid) ?start)"
      unfolding order using cache_invD(2,7,8) [OF assms(1)] requested_set(2) [of req]
      by (intro fold_touch) (auto intro: order_trans [OF length_filter_le])
    then have "set ?valid \<subseteq> set (order s')" using fits by auto
    then show "{n \<in> set (requested req). canonicalName n \<noteq> None} \<subseteq> r_Name ` set (Resources res)"
      using c(4) by auto
  qed
qed

theorem updateLocked_refines_lru_list_witness:
  "order toy_warm = fold (touch (capacity toy_server))
     (filter (\<lambda>n. canonicalName n \<noteq> None) (requested (ask [''b.test'', ''_''] [])))
     (filter (\<lambda>n. n \<notin> set (ResourceNamesUnsubscribe (ask [''b.test'', ''_''] [])) \<or> interested toy_server n)
       (order toy_server))"
  by (rule updateLocked_refines_lru_list [OF toy_inv(1) toy_update(1), THEN conjunct1])

text \<open>
  A name is never both sent and removed in one response, as long as none of the requested
  names was cached before the update.
\<close>

theorem updateLocked_disjoint_when_cold:
  assumes "cache_inv s" and "updateLocked cr req now s = (s', Inr res)"
    and "\<forall>n\<in>set (requested req). cached s n = None"
  shows "r_Name ` set (Resources res) \<inter> set (RemovedResources res) = {}"
proof -
  note c = updateLocked_contract [OF assms(1,2)]
  have "order (after_unsubscribe req s) =
      filter (\<lambda>n. n \<notin> set (ResourceNamesUnsubscribe req) \<or> interested s n) (order s)"
    unfolding after_unsubscribe_def by (rule drop_unwatched_effect(7) [OF assms(1)])
  then have "set (order (after_unsubscribe req s)) \<subseteq> set (order s)" by auto
  moreover have "set (requested req) \<inter> set (order s) = {}"
  proof (rule ccontr)
    assume "set (requested req) \<inter> set (order s) \<noteq> {}"
    then obtain n where n: "n \<in> set (requested req)" "n \<in> set (order s)" by blast
    then have "\<exists>c. cached s n = Some c" using cached_in_order [OF assms(1)] by blast
    with assms(3) n(1) show False by simp
  qed
  ultimately show ?thesis using c(6,9) by blast
qed

theorem updateLocked_disjoint_when_cold_witness:
  "r_Name ` set (Resources toy_response) \<inter> set (RemovedResources toy_response) = {}"
proof (rule updateLocked_disjoint_when_cold [OF toy_inv(1) toy_update(1)])
  show "\<forall>n\<in>set (requested (ask [''b.test'', ''_''] [])). cached toy_server n = None"
    by (simp add: toy_server_eq cached_def)
qed


text \<open>Requests that the cache can answer: the loop only promotes.\<close>

lemma serve_warm:
  assumes "cache_inv (srv b)" "\<forall>n\<in>set ns. \<exists>c. cached (srv b) n = Some c \<and> now < cs_expires c"
  shows "\<exists>b'. serve_names cr now ns b = (b', None) \<and> cache_inv (srv b') \<and> cached (srv b') = cached (srv b) \<and>
    draws (srv b') = draws (srv b) \<and> version (srv b') = version (srv b) \<and> removed b' = removed b \<and>
    (\<forall>n\<in>set ns. map_of (found b') n = map_option cs_resource (cached (srv b) n)) \<and>
    (\<forall>n. n \<notin> set ns \<longrightarrow> map_of (found b') n = map_of (found b) n)"
  using assms
proof (induction ns arbitrary: b)
  case (Cons n ns)
  obtain c where c: "cached (srv b) n = Some c" "now < cs_expires c" using Cons.prems(2) by auto
  obtain b1 e where b1: "serve_name cr now n b = (b1, e)" by fastforce
  have hit: "e = None" "b1 = b\<lparr>srv := promote n (srv b), found := AList.update n (cs_resource c) (found b)\<rparr>"
    using Cons.prems(1) b1 by (cases rule: serve_name_cases; use c cached_valid(1) [OF Cons.prems(1) c(1)] in auto)+
  have "cached (srv b1) = cached (srv b)" by (simp add: fun_eq_iff hit promote_cached [OF Cons.prems(1)])
  then obtain b' where "serve_names cr now ns b1 = (b', None)" "cache_inv (srv b')" "cached (srv b') = cached (srv b)"
      "draws (srv b') = draws (srv b)" "version (srv b') = version (srv b)" "removed b' = removed b"
      "\<forall>m\<in>set ns. map_of (found b') m = map_option cs_resource (cached (srv b) m)"
      "\<forall>m. m \<notin> set ns \<longrightarrow> map_of (found b') m = map_of (found b1) m"
    using Cons.IH [of b1] Cons.prems promote_inv [OF Cons.prems(1)] by (auto simp: hit)
  then show ?case using b1 c by (cases "n \<in> set ns") (auto simp: hit update_conv)
qed auto

text \<open>
  Asking again is free.  A request for names that are all cached and unexpired is answered
  with exactly the cached certificates: nothing is issued, no randomness is drawn, nothing is
  evicted or removed and the version does not move.
\<close>

theorem updateLocked_warm_reuses:
  assumes "cache_inv s" and "ResourceNamesUnsubscribe req = []"
    and "\<forall>n\<in>set (requested req). \<exists>c. cached s n = Some c \<and> now < cs_expires c"
  shows "\<exists>s' res. updateLocked cr req now s = (s', Inr res) \<and> draws s' = draws s \<and> version s' = version s \<and>
    cached s' = cached s \<and> RemovedResources res = [] \<and>
    map Some (Resources res) = map (\<lambda>n. map_option cs_resource (cached s n)) (requested req)"
proof -
  obtain b where b: "serve_names cr now (requested req) \<lparr>srv = s, found = [], removed = []\<rparr> = (b, None)"
    "cached (srv b) = cached s" "draws (srv b) = draws s" "version (srv b) = version s" "removed b = []"
    "\<forall>n\<in>set (requested req). map_of (found b) n = map_option cs_resource (cached s n)"
    "\<forall>n. n \<notin> set (requested req) \<longrightarrow> map_of (found b) n = None"
    using serve_warm [of "\<lparr>srv = s, found = [], removed = []\<rparr>" "requested req" now cr] assms by auto
  obtain s' res where r: "respond b = (s', res)" by fastforce
  note f = respond_fields [OF r]
  have "n \<in> fst ` set (found b) \<longleftrightarrow> n \<in> set (requested req)" for n
  proof
    assume "n \<in> fst ` set (found b)"
    then have "map_of (found b) n \<noteq> None" by (simp add: map_of_eq_None_iff)
    then show "n \<in> set (requested req)" using b(7) by auto
  next
    assume n: "n \<in> set (requested req)"
    then have "map_of (found b) n \<noteq> None" using b(6) assms(3) by auto
    then show "n \<in> fst ` set (found b)" by (simp add: map_of_eq_None_iff)
  qed
  then have "set (map fst (found b)) = set (requested req)" by auto
  then have "sort (remdups (map fst (found b))) = requested req"
    using requested_set(2) [of req] by (intro sorted_distinct_set_unique) (auto simp: requested_def)
  then have "map Some (Resources res) = map (\<lambda>n. map_option cs_resource (cached s n)) (requested req)"
    using b(6) assms(3) by (auto simp: f(6))
  moreover have "updateLocked cr req now s = (s', Inr res)"
    using assms(2) b(1) r by (simp add: updateLocked_def Let_def)
  moreover have "RemovedResources res = []" using f(3) b(5) by simp
  moreover have "draws s' = draws s" "version s' = version s" "cached s' = cached s" using b(2-4) by (auto simp: f(1))
  ultimately show ?thesis by blast
qed

lemma toy_warm_inv: "cache_inv toy_warm"
  using updateLocked_keeps(1) [OF toy_inv(1) toy_update(1)] .

theorem updateLocked_warm_reuses_witness:
  "\<exists>s' res. updateLocked toy_crypto (ask [''b.test''] []) (hour + 1) toy_warm = (s', Inr res) \<and> draws s' = 3"
proof -
  have "\<forall>n\<in>set (requested (ask [''b.test''] [])). \<exists>c. cached toy_warm n = Some c \<and> hour + 1 < cs_expires c"
    using toy_update(9) by (auto simp: requested_def ask_def secretTTL_def minute_def second_def)
  from updateLocked_warm_reuses [OF toy_warm_inv _ this] show ?thesis
    using toy_update(6) by (fastforce simp: ask_def)
qed

section \<open>Properties of the streams\<close>

text \<open>One watcher's subscription just after a request has been entered into it.\<close>

definition with_request :: "nat \<Rightarrow> request \<Rightarrow> secretWatch \<Rightarrow> server \<Rightarrow> server" where
  "with_request w req x s = s\<lparr>watches := AList.update w (subscribe_names req x) (watches s)\<rparr>"

lemma process_success:
  assumes "process cr w req now s = (s', None)"
  obtains x t res where "map_of (watches s) w = Some x"
    "updateLocked cr req now (with_request w req x s) = (t, Inr res)"
    "s' = t\<lparr>watches := map (\<lambda>p. (fst p, deliver res (snd p))) (watches t)\<rparr>"
proof (cases "map_of (watches s) w")
  case None
  then show thesis using assms by (simp add: process_def)
next
  case (Some x)
  show thesis
    using Some
  proof (cases rule: process_cases [of s w x req cr now])
    case (served t res)
    show thesis by (rule that [OF Some, of t res]) (use assms served in \<open>simp_all add: with_request_def\<close>)
  qed (use assms in simp_all)
qed

lemma map_of_map_snd: "map_of (map (\<lambda>p. (fst p, f (snd p))) ws) v = map_option f (map_of ws v)"
  by (induction ws) auto

lemma deliver_names:
  "names (deliver res w) = filter (\<lambda>n. n \<notin> set (RemovedResources res)) (names w)"
  by (auto simp: deliver_def event_for_def intro: filter_cong)

lemma interested_watch:
  "map_of (watches s) v = Some y \<Longrightarrow> n \<in> set (names y) \<Longrightarrow> interested s n"
  by (auto simp: interested_def list_ex_iff dest!: map_of_SomeD intro!: bexI)

text \<open>
  C12: the names a stream is subscribed to stay cached.  If every subscribed name of every
  stream is in the cache, a processed request keeps it so: the new names of the requesting
  stream are issued, and a name the cache had to drop is taken out of every subscription.
\<close>

theorem process_keeps_subscribed_names_cached:
  assumes "service_ok s" and "process cr w req now s = (s', None)"
    and "\<forall>(v, y)\<in>set (watches s). set (names y) \<subseteq> set (order s)"
  shows "\<forall>(v, y)\<in>set (watches s'). set (names y) \<subseteq> set (order s')"
proof -
  obtain x t res where x: "map_of (watches s) w = Some x"
    and u: "updateLocked cr req now (with_request w req x s) = (t, Inr res)"
    and s': "s' = t\<lparr>watches := map (\<lambda>p. (fst p, deliver res (snd p))) (watches t)\<rparr>"
    by (rule process_success [OF assms(2)])
  let ?s = "with_request w req x s"
  have inv: "cache_inv ?s" and dist: "distinct (map fst (watches ?s))"
    using assms(1) by (simp_all add: service_ok_def with_request_def distinct_update)
  note c = updateLocked_contract [OF inv u]
  have start: "order (after_unsubscribe req ?s) =
      filter (\<lambda>n. n \<notin> set (ResourceNamesUnsubscribe req) \<or> interested ?s n) (order s)"
    unfolding after_unsubscribe_def using drop_unwatched_effect(7) [OF inv] by (simp add: with_request_def)
  have "n \<in> set (order t)" if v: "(v, y) \<in> set (watches t)" and n: "n \<in> set (names (deliver res y))" for v y n
  proof -
    have y: "map_of (watches ?s) v = Some y" using v dist c(3) by simp
    have n': "n \<in> set (names y)" "n \<notin> set (RemovedResources res)" using n by (simp_all add: deliver_names)
    show ?thesis
    proof (cases "n \<in> set (requested req)")
      case True
      then show ?thesis using c(4) [OF True] c(5) n'(2) by blast
    next
      case False
      have "n \<in> set (order s)"
      proof (cases "v = w")
        case True
        then have "n \<in> set (names x)" using y n'(1) False
          by (simp add: with_request_def update_conv) (metis Diff_iff UnE subscribe_names_set)
        then show ?thesis using assms(3) map_of_SomeD [OF x] by auto
      next
        case False
        then have "(v, y) \<in> set (watches s)" using y by (simp add: with_request_def update_conv map_of_SomeD)
        then show ?thesis using assms(3) n'(1) by auto
      qed
      then have "n \<in> set (order (after_unsubscribe req ?s))"
        unfolding start using interested_watch [OF y n'(1)] by simp
      then show ?thesis using c(7) n'(2) by blast
    qed
  qed
  then show ?thesis unfolding s' by auto
qed

definition toy_processed :: server where
  "toy_processed = fst (process toy_crypto 0 (ask [''b.test''] []) hour toy_open)"

lemma toy_process_run:
  "snd (process toy_crypto 0 (ask [''b.test''] []) hour toy_open) = None \<and>
   map (\<lambda>p. names (snd p)) (watches toy_processed) = [[''b.test'']] \<and> order toy_processed = [''b.test'']"
  unfolding toy_processed_def by code_simp

lemma toy_process: "process toy_crypto 0 (ask [''b.test''] []) hour toy_open = (toy_processed, None)"
  using toy_process_run by (simp add: toy_processed_def prod_eq_iff)

theorem process_keeps_subscribed_names_cached_witness:
  "list_all (\<lambda>(v, y). set (names y) \<subseteq> set (order toy_processed)) (watches toy_processed)"
  unfolding list_all_iff
  by (rule process_keeps_subscribed_names_cached [OF toy_inv(3) toy_process]) (simp add: toy_open_def new_watch_def)


text \<open>
  A stream that reports an error or sends a request of another type or of too many names
  is stopped before it can reach the cache: nothing but its own error slot changes.
\<close>

theorem rejected_request_leaves_cache:
  assumes "ErrorDetail req \<or> \<not> request_ok req"
  shows "\<exists>err. on_request cr w req now s = stop_reader w err s \<and>
    order (stop_reader w err s) = order s \<and> cached (stop_reader w err s) = cached s \<and>
    draws (stop_reader w err s) = draws s \<and>
    (\<forall>v. v \<noteq> w \<longrightarrow> map_of (watches (stop_reader w err s)) v = map_of (watches s) v) \<and>
    (\<forall>x. map_of (watches (stop_reader w err s)) w = Some x \<longrightarrow> stopped x \<and> errors x \<noteq> None)"
proof -
  have "order (stop_reader w err s) = order s \<and> cached (stop_reader w err s) = cached s \<and>
    draws (stop_reader w err s) = draws s \<and>
    (\<forall>v. v \<noteq> w \<longrightarrow> map_of (watches (stop_reader w err s)) v = map_of (watches s) v) \<and>
    (\<forall>x. map_of (watches (stop_reader w err s)) w = Some x \<longrightarrow> stopped x \<and> errors x \<noteq> None)" for err
    by (cases "map_of (watches s) w") (simp_all add: stop_reader_def fun_eq_iff update_conv fail_def split: option.splits)
  then show ?thesis using assms by (auto simp: on_request_def)
qed

theorem rejected_request_leaves_cache_witness:
  "cached (on_request toy_crypto 0 ((ask [''b.test''] [])\<lparr>TypeUrl := ''other''\<rparr>) hour toy_open) = cached toy_open"
proof -
  have "\<not> request_ok ((ask [''b.test''] [])\<lparr>TypeUrl := ''other''\<rparr>)"
    by (simp add: request_ok_def ask_def secretType_def)
  then show ?thesis
    using rejected_request_leaves_cache [of "(ask [''b.test''] [])\<lparr>TypeUrl := ''other''\<rparr>" toy_crypto 0 hour toy_open]
    by metis
qed

text \<open>A second stream that is subscribed to the one cached name.\<close>

definition toy_pair :: server where
  "toy_pair = toy_processed\<lparr>watches := watches toy_processed @ [(1, new_watch)]\<rparr>"

definition toy_evicted :: server where
  "toy_evicted = fst (process toy_crypto 1 (ask [''c.test''] []) hour toy_pair)"

lemma toy_pair_run:
  "snd (process toy_crypto 1 (ask [''c.test''] []) hour toy_pair) = None \<and> order toy_evicted = [''c.test''] \<and>
   map (\<lambda>p. (fst p, names (snd p))) (watches toy_pair) = [(0, [''b.test'']), (1, [])] \<and> order toy_pair = [''b.test'']"
  unfolding toy_evicted_def toy_pair_def toy_processed_def by code_simp

lemma toy_pair_ok: "service_ok toy_pair"
proof -
  have "service_ok (on_request toy_crypto 0 (ask [''b.test''] []) hour toy_open)"
    by (rule on_request_ok [OF toy_inv(3), of 0 new_watch]) (simp_all add: toy_open_def new_watch_def)
  moreover have "on_request toy_crypto 0 (ask [''b.test''] []) hour toy_open = toy_processed"
    using toy_process by (simp add: on_request_def ask_def request_ok_def maxRequestNames_def)
  moreover have "map (\<lambda>p. fst p) (watches toy_pair) = [0, 1]" using toy_pair_run by (auto simp: map_eq_Cons_conv)
  moreover have "capacity toy_processed = 1"
    unfolding toy_processed_def by code_simp
  ultimately show ?thesis
    by (auto simp: service_ok_def toy_pair_def new_watch_def watch_ok_def)
qed


end
