(* ===== verification/Json.thy ===== *)
theory Json
  imports Prelude
begin

text \<open>
  JSON values as \<^verbatim>\<open>encoding/json\<close> hands them to the code, their encoding by
  \<^verbatim>\<open>json.Marshal\<close>, and edits of a decoded document.  An object is the list of its fields
  in no particular order (a Go map), a number keeps its text (\<^verbatim>\<open>UseNumber\<close>).  An edit
  visits a part of a document, may fail and carries a state; the locale \<open>edit\<close> is its
  contract: outside the places it declares nothing changes, and doing it again changes
  nothing.  The lemmas build the contract of a nested walk from that of its innermost step.
\<close>

section \<open>Values\<close>

datatype json =
    JNull
  | JBool bool
  | JNum string
  | JStr string
  | JArr "json list"
  | JObj "(string \<times> json) list"

type_synonym fields = "(string \<times> json) list"

text \<open>\<open>v.(map[string]any)\<close> and \<open>v.([]any)\<close> with the nil value for any other type.\<close>

definition as_object :: "json option \<Rightarrow> fields" where
  "as_object v = (case v of Some (JObj m) \<Rightarrow> m | _ \<Rightarrow> [])"

definition is_object :: "json option \<Rightarrow> bool" where
  "is_object v = (case v of Some (JObj m) \<Rightarrow> True | _ \<Rightarrow> False)"

definition named :: "fields \<Rightarrow> string \<Rightarrow> bool" where
  "named m n \<longleftrightarrow> map_of m ''name'' = Some (JStr n)"

function show_int :: "int \<Rightarrow> string" where
  "show_int n = (if n < 10 then [char_of (nat (48 + n))] else show_int (n div 10) @ [char_of (nat (48 + n mod 10))])"
  by auto
termination by (relation "measure nat") auto

declare show_int.simps [simp del]

definition number :: "int \<Rightarrow> json" where
  "number n = JNum (show_int n)"

section \<open>Encoding\<close>

definition hex_digit :: "nat \<Rightarrow> char" where
  "hex_digit n = ''0123456789abcdef'' ! (n mod 16)"

definition escape_char :: "char \<Rightarrow> string" where
  "escape_char c =
     (let n = of_char c :: nat in
      if c = CHR 0x22 \<or> c = CHR 0x5C then [CHR 0x5C, c]
      else if n = 8 then [CHR 0x5C, CHR ''b'']
      else if n = 12 then [CHR 0x5C, CHR ''f'']
      else if n = 10 then [CHR 0x5C, CHR ''n'']
      else if n = 13 then [CHR 0x5C, CHR ''r'']
      else if n = 9 then [CHR 0x5C, CHR ''t'']
      else if n < 32 \<or> c \<in> set ''<>&'' then CHR 0x5C # ''u00'' @ [hex_digit (n div 16), hex_digit n]
      else [c])"

text \<open>The line separators U+2028 and U+2029 are escaped as well.\<close>

fun escape :: "string \<Rightarrow> string" where
  "escape [] = []"
| "escape (c # s) =
     (case s of
        d # e # t \<Rightarrow>
          if c = CHR 0xE2 \<and> d = CHR 0x80 \<and> (e = CHR 0xA8 \<or> e = CHR 0xA9)
          then CHR 0x5C # ''u202'' @ [hex_digit (of_char e - 0xA0)] @ escape t
          else escape_char c @ escape s
      | _ \<Rightarrow> escape_char c @ escape s)"

definition quote :: "string \<Rightarrow> string" where
  "quote s = CHR 0x22 # escape s @ [CHR 0x22]"

text \<open>Go sorts the keys of an encoded map.\<close>

fun Marshal :: "json \<Rightarrow> string" where
  "Marshal JNull = ''null''"
| "Marshal (JBool b) = (if b then ''true'' else ''false'')"
| "Marshal (JNum n) = n"
| "Marshal (JStr s) = quote s"
| "Marshal (JArr xs) = CHR ''['' # join_with (CHR '','') (map Marshal xs) @ '']''"
| "Marshal (JObj m) =
     CHR ''{'' # join_with (CHR '','')
       (map (\<lambda>(k, e). quote k @ CHR '':'' # e) (sort_key fst (map (\<lambda>(k, v). (k, Marshal v)) m))) @ ''}''"

declare Marshal.simps [simp del]

section \<open>Places\<close>

datatype step = Key string | Idx nat

fun lookup_at :: "json \<Rightarrow> step list \<Rightarrow> json option" where
  "lookup_at v [] = Some v"
| "lookup_at (JObj m) (Key k # p) = (case map_of m k of None \<Rightarrow> None | Some x \<Rightarrow> lookup_at x p)"
| "lookup_at (JArr xs) (Idx i # p) = (if i < length xs then lookup_at (xs ! i) p else None)"
| "lookup_at _ (_ # p) = None"

lemma at_update: "lookup_at (JObj (AList.update k x m)) (Key j # p) = (if j = k then lookup_at x p else lookup_at (JObj m) (Key j # p))"
  by (simp add: update_conv')

lemma at_append: "lookup_at v (p @ q) = (case lookup_at v p of None \<Rightarrow> None | Some x \<Rightarrow> lookup_at x q)"
  by (induction v p rule: lookup_at.induct) (auto split: option.splits)

lemma at_append_Some: "lookup_at v (p @ q) = Some y \<longleftrightarrow> (\<exists>x. lookup_at v p = Some x \<and> lookup_at x q = Some y)"
  by (simp add: at_append split: option.splits)

lemma at_Key: "lookup_at v (Key k # p) = Some y \<longleftrightarrow> (\<exists>m x. v = JObj m \<and> map_of m k = Some x \<and> lookup_at x p = Some y)"
  by (cases v) (auto split: option.splits)

lemma at_Idx: "lookup_at v (Idx i # p) = Some y \<longleftrightarrow> (\<exists>xs. v = JArr xs \<and> i < length xs \<and> lookup_at (xs ! i) p = Some y)"
  by (cases v) auto

lemma update_same: "map_of m k = Some x \<Longrightarrow> AList.update k x m = m"
  by (induction m) (auto split: if_splits)

lemma update_twice: "AList.update k y (AList.update k x m) = AList.update k y m"
  by (induction m) auto

lemma map_of_update [simp]: "map_of (AList.update k x m) j = (if j = k then Some x else map_of m j)"
  by (simp add: update_conv')

lemma update_swap_same:
  "map_of m k = Some x \<Longrightarrow> j \<noteq> k \<Longrightarrow> AList.update k x (AList.update j y m) = AList.update j y m"
  by (rule update_same) simp

section \<open>Edits\<close>

type_synonym ('e, 's) editor = "'s \<Rightarrow> json \<Rightarrow> ('e, 's \<times> json) result"

fun mapS :: "('s \<Rightarrow> 'a \<Rightarrow> ('e, 's \<times> 'a) result) \<Rightarrow> 's \<Rightarrow> 'a list \<Rightarrow> ('e, 's \<times> 'a list) result" where
  "mapS f s [] = Inr (s, [])"
| "mapS f s (x # xs) =
     bindR (f s x) (\<lambda>(s, y). bindR (mapS f s xs) (\<lambda>(s, ys). Inr (s, y # ys)))"

text \<open>A loop over the items of an array; nothing happens on any other value.\<close>

definition each :: "('e, 's) editor \<Rightarrow> ('e, 's) editor" where
  "each f s v =
     (case v of
        JArr xs \<Rightarrow> bindR (mapS f s xs) (\<lambda>(s, ys). Inr (s, JArr ys))
      | _ \<Rightarrow> Inr (s, v))"

text \<open>The value of a present field.\<close>

definition at_field :: "string \<Rightarrow> ('e, 's) editor \<Rightarrow> ('e, 's) editor" where
  "at_field k f s v =
     (case v of
        JObj m \<Rightarrow>
          (case map_of m k of
             None \<Rightarrow> Inr (s, v)
           | Some x \<Rightarrow> bindR (f s x) (\<lambda>(s, y). Inr (s, JObj (AList.update k y m))))
      | _ \<Rightarrow> Inr (s, v))"

definition both :: "('e, 's) editor \<Rightarrow> ('e, 's) editor \<Rightarrow> ('e, 's) editor" where
  "both f g s v = bindR (f s v) (\<lambda>(s, w). g s w)"

type_synonym places = "json \<Rightarrow> step list \<Rightarrow> bool"

definition items :: "places \<Rightarrow> places" where
  "items T v p \<longleftrightarrow> p = [] \<or> (\<exists>i q x. p = Idx i # q \<and> lookup_at v [Idx i] = Some x \<and> T x q)"

definition inside :: "string \<Rightarrow> places \<Rightarrow> places" where
  "inside k T v p \<longleftrightarrow> p = [] \<or> (\<exists>q x. p = Key k # q \<and> lookup_at v [Key k] = Some x \<and> T x q)"

locale edit =
  fixes f :: "'s \<Rightarrow> json \<Rightarrow> 'e + 's \<times> json"
    and touched :: "json \<Rightarrow> step list \<Rightarrow> bool"
  assumes frame: "f s v = Inr (s', w) \<Longrightarrow> \<not> touched v p \<Longrightarrow> lookup_at w p = lookup_at v p"
    and stable: "f s v = Inr (s', w) \<Longrightarrow> f s w = Inr (s', w)"
begin

lemma mapS_frame:
  assumes "mapS f s xs = Inr (s', ys)"
  shows "length ys = length xs \<and> (\<forall>i < length xs. \<forall>p. \<not> touched (xs ! i) p \<longrightarrow> lookup_at (ys ! i) p = lookup_at (xs ! i) p)"
  using assms
proof (induction xs arbitrary: s ys)
  case (Cons x xs)
  then obtain s1 y zs where h: "f s x = Inr (s1, y)" "mapS f s1 xs = Inr (s', zs)" "ys = y # zs"
    by (auto simp: result_simps)
  show ?case using Cons.IH [OF h(2)] frame [OF h(1)] h(3) by (auto simp: nth_Cons split: nat.splits)
qed simp

lemma mapS_stable: "mapS f s xs = Inr (s', ys) \<Longrightarrow> mapS f s ys = Inr (s', ys)"
proof (induction xs arbitrary: s ys)
  case (Cons x xs)
  then obtain s1 y zs where h: "f s x = Inr (s1, y)" "mapS f s1 xs = Inr (s', zs)" "ys = y # zs"
    by (auto simp: result_simps)
  show ?case using Cons.IH [OF h(2)] stable [OF h(1)] h(3) by simp
qed simp

lemma each_edit: "edit (each f) (items touched)"
proof
  fix s v s' w p
  assume e: "each f s v = Inr (s', w)" and n: "\<not> items touched v p"
  show "lookup_at w p = lookup_at v p"
  proof (cases v)
    case (JArr xs)
    then obtain ys where ys: "mapS f s xs = Inr (s', ys)" "w = JArr ys"
      using e by (auto simp: each_def result_simps)
    show ?thesis
    proof (cases "\<exists>i q. p = Idx i # q")
      case True
      then obtain i q where p: "p = Idx i # q" by blast
      show ?thesis using mapS_frame [OF ys(1)] n p by (auto simp: JArr ys(2) items_def)
    next
      case False
      then obtain k q where "p = Key k # q" using n by (cases p; cases "hd p") (auto simp: items_def)
      then show ?thesis by (simp add: JArr ys(2))
    qed
  qed (use e in \<open>auto simp: each_def\<close>)
next
  fix s v s' w
  assume e: "each f s v = Inr (s', w)"
  show "each f s w = Inr (s', w)"
    using e by (cases v) (auto simp: each_def result_simps mapS_stable)
qed

lemma at_field_edit: "edit (at_field k f) (inside k touched)"
proof
  fix s v s' w p
  assume e: "at_field k f s v = Inr (s', w)" and n: "\<not> inside k touched v p"
  show "lookup_at w p = lookup_at v p"
  proof (cases "\<exists>m x. v = JObj m \<and> map_of m k = Some x")
    case True
    then obtain m x where v: "v = JObj m" "map_of m k = Some x" by blast
    then obtain y where y: "f s x = Inr (s', y)" "w = JObj (AList.update k y m)"
      using e by (auto simp: at_field_def result_simps)
    obtain j q where p: "p = j # q" using n by (cases p) (auto simp: inside_def)
    show ?thesis using frame [OF y(1), of q] n v y(2) p by (cases j) (auto simp: inside_def)
  next
    case False
    then show ?thesis using e by (auto simp: at_field_def split: json.splits option.splits)
  qed
next
  fix s v s' w
  assume e: "at_field k f s v = Inr (s', w)"
  show "at_field k f s w = Inr (s', w)"
    using e by (auto simp: at_field_def result_simps update_twice update_same stable split: json.splits option.splits)
qed

end

text \<open>Edits of two different fields, one after the other.\<close>

lemma at_field_other:
  assumes "at_field k f s (JObj m) = Inr (s', w)"
  shows "\<exists>m'. w = JObj m' \<and> (\<forall>j. j \<noteq> k \<longrightarrow> map_of m' j = map_of m j)"
  using assms by (auto simp: at_field_def result_simps split: option.splits)

lemma at_field_update_other:
  assumes "at_field k f s (JObj m) = Inr (s', JObj m)" and "j \<noteq> k"
  shows "at_field k f s (JObj (AList.update j y m)) = Inr (s', JObj (AList.update j y m))"
  using assms by (auto simp: at_field_def result_simps update_swap_same split: option.splits)
    (metis map_of_update update_same)

lemma both_fields:
  assumes f: "edit f T" and g: "edit g U" and "j \<noteq> k"
  shows "edit (both (at_field k f) (at_field j g)) (\<lambda>v p. inside k T v p \<or> inside j U v p)"
proof
  note F = edit.at_field_edit [OF f, of k] and G = edit.at_field_edit [OF g, of j]
  fix s v s' w p
  assume e: "both (at_field k f) (at_field j g) s v = Inr (s', w)" and n: "\<not> (inside k T v p \<or> inside j U v p)"
  from e obtain s1 w1 where w1: "at_field k f s v = Inr (s1, w1)" "at_field j g s1 w1 = Inr (s', w)"
    by (auto simp: both_def result_simps)
  have "lookup_at w1 [Key j] = lookup_at v [Key j]"
    using edit.frame [OF F w1(1), of "[Key j]"] \<open>j \<noteq> k\<close> by (auto simp: inside_def)
  then have "\<not> inside j U w1 p" using n by (simp add: inside_def)
  then show "lookup_at w p = lookup_at v p"
    using edit.frame [OF F w1(1)] edit.frame [OF G w1(2)] n by simp
next
  note F = edit.at_field_edit [OF f, of k] and G = edit.at_field_edit [OF g, of j]
  fix s v s' w
  assume e: "both (at_field k f) (at_field j g) s v = Inr (s', w)"
  then obtain s1 w1 where w1: "at_field k f s v = Inr (s1, w1)" "at_field j g s1 w1 = Inr (s', w)"
    by (auto simp: both_def result_simps)
  have "at_field k f s w = Inr (s1, w)"
  proof (cases w1)
    case (JObj m)
    then show ?thesis
      using edit.stable [OF F w1(1)] w1(2) at_field_update_other [of k f s m s1 j] \<open>j \<noteq> k\<close>
      by (auto simp: at_field_def [of j] result_simps split: option.splits)
  next
  qed (use edit.stable [OF F w1(1)] w1(2) in \<open>auto simp: at_field_def [of j]\<close>)
  then show "both (at_field k f) (at_field j g) s w = Inr (s', w)"
    using edit.stable [OF G w1(2)] by (simp add: both_def)
qed

text \<open>Two edits of the same field are one edit of it; a document an edit leaves alone.\<close>

lemma both_at_field: "both (at_field k f) (at_field k g) s v = at_field k (both f g) s v"
  by (cases v) (auto simp: both_def at_field_def bindR_def update_twice split: option.splits sum.splits)

definition fixed :: "('e, 's) editor \<Rightarrow> json \<Rightarrow> bool" where
  "fixed f v \<longleftrightarrow> (\<exists>s s'. f s v = Inr (s', v))"

lemma mapS_fixed: "mapS f s xs = Inr (s', xs) \<Longrightarrow> i < length xs \<Longrightarrow> fixed f (xs ! i)"
proof (induction xs arbitrary: s i)
  case (Cons x xs)
  then obtain s1 where h: "f s x = Inr (s1, x)" "mapS f s1 xs = Inr (s', xs)" by (auto simp: result_simps)
  then show ?case using Cons.IH [OF h(2)] Cons.prems(2) by (cases i) (auto simp: fixed_def)
qed simp

lemma fixed_each: "fixed (each f) v \<Longrightarrow> lookup_at v [Idx i] = Some x \<Longrightarrow> fixed f x"
  by (cases v) (auto simp: fixed_def [of "each f"] each_def result_simps mapS_fixed split: if_splits)

lemma fixed_at_field: "fixed (at_field k f) v \<Longrightarrow> lookup_at v [Key k] = Some x \<Longrightarrow> fixed f x"
proof (cases v)
  case (JObj m)
  assume "fixed (at_field k f) v" "lookup_at v [Key k] = Some x"
  then obtain s s' y where "map_of m k = Some x" "f s x = Inr (s', y)" "AList.update k y m = m"
    by (auto simp: fixed_def JObj at_field_def result_simps split: option.splits)
  then have "y = x" using map_of_update [of k y m k] by simp
  then show ?thesis using \<open>f s x = Inr (s', y)\<close> by (auto simp: fixed_def)
qed auto


lemma both_fields_fixed:
  assumes "both (at_field k f) (at_field j g) s v = Inr (s', v)" and "j \<noteq> k"
  shows "\<exists>s1. at_field k f s v = Inr (s1, v) \<and> at_field j g s1 v = Inr (s', v)"
proof -
  obtain s1 w where w: "at_field k f s v = Inr (s1, w)" "at_field j g s1 w = Inr (s', v)"
    using assms(1) by (auto simp: both_def result_simps)
  have "w = v"
  proof (cases v)
    case (JObj m)
    obtain m1 where m1: "w = JObj m1" "\<forall>i. i \<noteq> k \<longrightarrow> map_of m1 i = map_of m i"
      using at_field_other [OF w(1) [unfolded JObj]] by blast
    have "map_of m k = map_of m1 k"
      using at_field_other [OF w(2) [unfolded JObj m1(1)]] assms(2) by auto
    then have "map_of m1 k = Some y \<Longrightarrow> AList.update k y m = m" for y by (simp add: update_same)
    then show ?thesis using w(1) m1(1) JObj by (auto simp: at_field_def result_simps split: option.splits)
  qed (use w(1) in \<open>auto simp: at_field_def\<close>)
  then show ?thesis using w by blast
qed

lemma fixed_both_fields:
  assumes "fixed (both (at_field k f) (at_field j g)) v" and "j \<noteq> k"
  shows "fixed (at_field k f) v" "fixed (at_field j g) v"
  using assms both_fields_fixed [of k f j g] unfolding fixed_def by metis+

text \<open>An editor whose state is a flag, on a document it leaves alone: where the flag was set.\<close>

definition raised :: "('e, bool) editor \<Rightarrow> json \<Rightarrow> bool" where
  "raised f v \<longleftrightarrow> f False v = Inr (True, v)"

lemma raised_each: "raised (each f) v \<Longrightarrow> \<exists>i x. lookup_at v [Idx i] = Some x \<and> raised f x"
proof (cases v)
  case (JArr xs)
  assume "raised (each f) v"
  then have "mapS f False xs = Inr (True, xs)" by (auto simp: raised_def JArr each_def result_simps)
  then have "\<exists>i < length xs. raised f (xs ! i)"
  proof (induction xs)
    case (Cons x xs)
    then obtain s1 where h: "f False x = Inr (s1, x)" "mapS f s1 xs = Inr (True, xs)" by (auto simp: result_simps)
    show ?case
    proof (cases s1)
      case True
      then show ?thesis using h(1) by (intro exI [of _ 0]) (simp add: raised_def)
    next
      case False
      then obtain i where "i < length xs" "raised f (xs ! i)" using Cons.IH h(2) by auto
      then show ?thesis by (intro exI [of _ "Suc i"]) simp
    qed
  qed simp
  then show ?thesis by (auto simp: JArr)
qed (auto simp: raised_def each_def)

lemma raised_at_field: "raised (at_field k f) v \<Longrightarrow> \<exists>x. lookup_at v [Key k] = Some x \<and> raised f x"
proof (cases v)
  case (JObj m)
  assume "raised (at_field k f) v"
  then obtain x y where "map_of m k = Some x" "f False x = Inr (True, y)" "AList.update k y m = m"
    by (auto simp: raised_def JObj at_field_def result_simps split: option.splits)
  moreover from this have "y = x" using map_of_update [of k y m k] by simp
  ultimately show ?thesis by (auto simp: JObj raised_def)
qed (auto simp: raised_def at_field_def)

text \<open>Walking down a place one step at a time.\<close>

lemma lookup_at_steps:
  "lookup_at v (i # j # p) = Some y \<longleftrightarrow> (\<exists>x. lookup_at v [i] = Some x \<and> lookup_at x (j # p) = Some y)"
  using at_append_Some [of v "[i]" "j # p" y] by simp

lemma lookup_at_first: "lookup_at v [i] = Some x \<Longrightarrow> lookup_at v (i # p) = lookup_at x p"
  using at_append [of v "[i]" p] by simp

end
