(* ===== verification/RequestGuard.thy ===== *)
theory RequestGuard
  imports Leaf Json
begin

text \<open>
  \<^verbatim>\<open>internal/request/filter.go\<close> and its embedded \<^verbatim>\<open>guard.lua\<close>: the Envoy filter that
  fixes the target of a request before authorization and checks after it that the target is
  still the same.  \<open>guard\<close> is the embedded text, \<open>Source\<close> and \<open>HTTPSource\<close> the program handed
  to Envoy; \<open>hostname\<close>, \<open>target\<close> and \<open>envoy_on_request\<close> are the meaning of its three
  functions on what Envoy's Lua filter passes: the headers, the dynamic metadata the guard
  keeps under \<^verbatim>\<open>gateway.request\<close>, and the facts of the downstream connection.  The contract
  \<open>name_check\<close> of the certificate service is interpreted on \<open>hostname\<close> here.
\<close>

section \<open>The Lua program\<close>

definition guard_lines :: "string list" where
  "guard_lines =
    [''local function reject(handle, message)'',
     ''  handle:respond({[\":status\"] = \"400\"}, message)'',
     ''end'',
     '''',
     ''local function hostname(value)'',
     ''  if not value or #value == 0 or #value > 253 then return nil end'',
     ''  value = string.lower(value)'',
     ''  if value:find(\"[^a-z0-9.-]\") or value:sub(-1) == \".\" or value:find(\"..\", 1, true) then return nil end'',
     ''  if value:match(\"^%d+%.%d+%.%d+%.%d+$\") then return nil end'',
     ''  for label in value:gmatch(\"[^.]+\") do'',
     ''    if #label > 63 or label:sub(1,1) == \"-\" or label:sub(-1) == \"-\" then return nil end'',
     ''  end'',
     ''  if value:sub(1,1) == \".\" then return nil end'',
     ''  return value'',
     ''end'',
     '''',
     ''local function target(authority, scheme)'',
     ''  if not authority then return nil end'',
     ''  local name, port = authority:match(\"^([^:]+):(%d+)$\")'',
     ''  if not name then name = authority end'',
     ''  name = hostname(name)'',
     ''  if not name then return nil end'',
     ''  if port then'',
     ''    port = tonumber(port)'',
     ''    if not port or port < 1 or port > 65535 then return nil end'',
     ''  else'',
     ''    port = scheme == \"https\" and 443 or 80'',
     ''  end'',
     ''  return name, tostring(port)'',
     ''end'',
     '''',
     ''function envoy_on_request(handle)'',
     ''  local headers = handle:headers()'',
     ''  local info = handle:streamInfo()'',
     ''  local authorized = info:dynamicMetadata():get(\"gateway.request\")'',
     ''  if authorized then'',
     ''    if headers:get(\":authority\") ~= authorized.authority or headers:get(\":path\") ~= authorized.path or headers:get(\":scheme\") ~= authorized.scheme then'',
     ''      handle:respond({[\":status\"] = \"403\"}, \"authorization changed request target\")'',
     ''    end'',
     ''    return'',
     ''  end'',
     ''  local encoding = headers:get(\"content-encoding\")'',
     ''  if encoding and encoding ~= \"\" and string.lower(encoding) ~= \"identity\" then'',
     ''    handle:respond({[\":status\"] = \"415\"}, \"unsupported content encoding\")'',
     ''    return'',
     ''  end'',
     ''  local tls = info:downstreamSslConnection()'',
     ''  if (scheme == \"https\" or role == \"egress\") and not tls then reject(handle, \"TLS required\"); return end'',
     ''  -- The trusted listener requires a client certificate and verifies its chain.'',
     ''  -- Envoy's per-handshake validated flag is false on resumed TLS sessions;'',
     ''  -- the authenticated peer certificate remains available to ext_authz.'',
     ''  if role == \"egress\" and not tls:peerCertificatePresented() then'',
     ''    handle:respond({[\":status\"] = \"403\"}, \"verified workload identity required\")'',
     ''    return'',
     ''  end'',
     ''  local name, port = target(headers:get(\":authority\"), scheme)'',
     ''  if not name then reject(handle, \"invalid target authority\"); return end'',
     ''  if role == \"workload\" and scheme == \"https\" and hostname(info:requestedServerName()) ~= name then'',
     ''    reject(handle, \"target authority conflicts with TLS server name\")'',
     ''    return'',
     ''  end'',
     ''  local path = headers:get(\":path\")'',
     ''  if headers:get(\":method\") == \"CONNECT\" or not path or path:sub(1,1) ~= \"/\" then'',
     ''    reject(handle, \"unsupported request target\")'',
     ''    return'',
     ''  end'',
     ''  -- Authorization and forwarding consume the same canonical target. Identity'',
     ''  -- remains the verified TLS principal in the official OPA plugin input.'',
     ''  headers:replace(\":authority\", name .. \":\" .. port)'',
     ''  headers:replace(\":scheme\", scheme)'',
     ''  headers:replace(\"x-forwarded-proto\", scheme)'',
     ''  info:dynamicMetadata():set(\"gateway.request\", \"authority\", name .. \":\" .. port)'',
     ''  info:dynamicMetadata():set(\"gateway.request\", \"scheme\", scheme)'',
     ''  info:dynamicMetadata():set(\"gateway.request\", \"path\", path)'',
     ''end'']"

definition guard :: string where
  "guard = concat (map (\<lambda>l. l @ [CHR 0x0A]) guard_lines)"

text \<open>\<^verbatim>\<open>strconv.Quote\<close> of printable text: the two roles and schemes are ASCII letters.\<close>

definition go_quote_char :: "char \<Rightarrow> string" where
  "go_quote_char c =
     (let n = of_char c :: nat in
      if c = CHR 0x22 \<or> c = CHR 0x5C then [CHR 0x5C, c]
      else if 7 \<le> n \<and> n \<le> 13 then [CHR 0x5C, ''abtnvfr'' ! (n - 7)]
      else if n < 32 \<or> n = 127 then CHR 0x5C # ''x'' @ [hex_digit (n div 16), hex_digit n]
      else [c])"

definition go_quote :: "string \<Rightarrow> string" where
  "go_quote s = CHR 0x22 # concat (map go_quote_char s) @ [CHR 0x22]"

definition source :: "string \<Rightarrow> string \<Rightarrow> string" where
  "source role scheme =
     ''local role = '' @ go_quote role @ [CHR 0x0A] @ ''local scheme = '' @ go_quote scheme @ [CHR 0x0A] @ guard"

definition Source :: "string \<Rightarrow> string" where "Source role = source role ''https''"
definition HTTPSource :: "string \<Rightarrow> string" where "HTTPSource role = source role ''http''"

definition Filter :: "string \<Rightarrow> json" where
  "Filter role =
     JObj [(''@type'', JStr ''type.googleapis.com/envoy.extensions.filters.http.lua.v3.Lua''),
           (''default_source_code'', JObj [(''inline_string'', JStr (Source role))])]"

section \<open>Host names and targets\<close>

definition contains_dots :: "string \<Rightarrow> bool" where
  "contains_dots s \<longleftrightarrow> sublist ''..'' s"

text \<open>The pattern \<^verbatim>\<open>^%d+%.%d+%.%d+%.%d+$\<close>.\<close>

definition digit_quad :: "string \<Rightarrow> bool" where
  "digit_quad s \<longleftrightarrow>
     (let ps = split_on (CHR ''.'') s in length ps = 4 \<and> list_all (\<lambda>p. p \<noteq> [] \<and> list_all is_digit p) ps)"

text \<open>The labels that \<^verbatim>\<open>gmatch("[^.]+")\<close> visits.\<close>

definition labels :: "string \<Rightarrow> string list" where
  "labels s = filter (\<lambda>l. l \<noteq> []) (split_on (CHR ''.'') s)"

definition bad_label :: "string \<Rightarrow> bool" where
  "bad_label l \<longleftrightarrow> length l > 63 \<or> hd l = CHR ''-'' \<or> last l = CHR ''-''"

definition hostname :: "string option \<Rightarrow> string option" where
  "hostname val =
     (case val of
        None \<Rightarrow> None
      | Some val \<Rightarrow>
          if length val = 0 \<or> length val > 253 then None
          else let val = map lower_char val in
            if \<not> list_all host_char val \<or> last val = CHR ''.'' \<or> contains_dots val then None
            else if digit_quad val then None
            else if list_ex bad_label (labels val) then None
            else if hd val = CHR ''.'' then None
            else Some val)"

text \<open>The pattern \<^verbatim>\<open>^([^:]+):(%d+)$\<close>.\<close>

definition host_port :: "string \<Rightarrow> (string \<times> string) option" where
  "host_port authority =
     (case split_on (CHR '':'') authority of
        [name, port] \<Rightarrow> if name \<noteq> [] \<and> port \<noteq> [] \<and> list_all is_digit port then Some (name, port) else None
      | _ \<Rightarrow> None)"

definition target :: "string option \<Rightarrow> string \<Rightarrow> (string \<times> string) option" where
  "target authority scheme =
     (case authority of
        None \<Rightarrow> None
      | Some authority \<Rightarrow>
          (let (name, port) = (case host_port authority of None \<Rightarrow> (authority, None) | Some (n, p) \<Rightarrow> (n, Some p)) in
           case hostname (Some name) of
             None \<Rightarrow> None
           | Some name \<Rightarrow>
               (case port of
                  None \<Rightarrow> Some (name, show_int (if scheme = ''https'' then 443 else 80))
                | Some port \<Rightarrow>
                    (let port = digits_value port in
                     if port < 1 \<or> port > 65535 then None else Some (name, show_int port)))))"

section \<open>A request\<close>

record authorized =
  a_authority :: string
  a_scheme :: string
  a_path :: string

text \<open>
  The downstream connection: \<open>None\<close> without TLS, otherwise whether a peer certificate was
  presented.
\<close>

record lua_request =
  headers :: "(string \<times> string) list"
  metadata :: "authorized option"
  downstreamSsl :: "bool option"
  requestedServerName :: string

datatype verdict = Respond nat string | Forward lua_request

definition header :: "lua_request \<Rightarrow> string \<Rightarrow> string option" where
  "header r k = map_of (headers r) k"

definition replace_header :: "string \<Rightarrow> string \<Rightarrow> lua_request \<Rightarrow> lua_request" where
  "replace_header k v r = r\<lparr>headers := AList.update k v (headers r)\<rparr>"

definition encoded :: "string option \<Rightarrow> bool" where
  "encoded e = (case e of None \<Rightarrow> False | Some e \<Rightarrow> e \<noteq> [] \<and> map lower_char e \<noteq> ''identity'')"

definition envoy_on_request :: "string \<Rightarrow> string \<Rightarrow> lua_request \<Rightarrow> verdict" where
  "envoy_on_request role scheme r =
     (case metadata r of
        Some a \<Rightarrow>
          if header r '':authority'' \<noteq> Some (a_authority a) \<or> header r '':path'' \<noteq> Some (a_path a) \<or>
             header r '':scheme'' \<noteq> Some (a_scheme a)
          then Respond 403 ''authorization changed request target''
          else Forward r
      | None \<Rightarrow>
          if encoded (header r ''content-encoding'') then Respond 415 ''unsupported content encoding''
          else if (scheme = ''https'' \<or> role = Egress) \<and> downstreamSsl r = None then Respond 400 ''TLS required''
          else if role = Egress \<and> downstreamSsl r \<noteq> Some True then Respond 403 ''verified workload identity required''
          else case target (header r '':authority'') scheme of
            None \<Rightarrow> Respond 400 ''invalid target authority''
          | Some (name, port) \<Rightarrow>
              if role = Workload \<and> scheme = ''https'' \<and> hostname (Some (requestedServerName r)) \<noteq> Some name
              then Respond 400 ''target authority conflicts with TLS server name''
              else case header r '':path'' of
                None \<Rightarrow> Respond 400 ''unsupported request target''
              | Some path \<Rightarrow>
                  if header r '':method'' = Some ''CONNECT'' \<or> take 1 path \<noteq> ''/''
                  then Respond 400 ''unsupported request target''
                  else let authority = name @ '':'' @ port in
                    Forward ((replace_header ''x-forwarded-proto'' scheme
                      (replace_header '':scheme'' scheme (replace_header '':authority'' authority r)))
                      \<lparr>metadata := Some \<lparr>a_authority = authority, a_scheme = scheme, a_path = path\<rparr>\<rparr>))"

section \<open>Host names: the guard and the certificate service\<close>

lemma join_append: "xs \<noteq> [] \<Longrightarrow> ys \<noteq> [] \<Longrightarrow> join_with c (xs @ ys) = join_with c xs @ c # join_with c ys"
proof (induction xs rule: join_with.induct)
  case (2 c x)
  then show ?case by (cases ys) auto
qed auto

lemma empty_label_iff:
  "[] \<in> set (split_on c v) \<longleftrightarrow> v = [] \<or> hd v = c \<or> last v = c \<or> sublist [c, c] v"
proof
  assume "[] \<in> set (split_on c v)"
  then obtain xs ys where s: "split_on c v = xs @ [[]] @ ys" by (metis append_Cons append_Nil split_list)
  have v: "v = join_with c (xs @ [[]] @ ys)" using join_split [of c v] s by simp
  have j: "xs \<noteq> [] \<Longrightarrow> join_with c (xs @ [[]]) = join_with c xs @ [c]" "ys \<noteq> [] \<Longrightarrow> join_with c ([[]] @ ys) = c # join_with c ys"
    by (simp_all add: join_append del: append.simps)
  have "xs \<noteq> [] \<Longrightarrow> ys \<noteq> [] \<Longrightarrow> v = join_with c xs @ [c, c] @ join_with c ys"
    using v join_append [of xs "[[]] @ ys" c] j(2) by simp
  then show "v = [] \<or> hd v = c \<or> last v = c \<or> sublist [c, c] v"
    using v j sublist_appendI [of "[c, c]" "join_with c xs" "join_with c ys"]
    by (cases "xs = []"; cases "ys = []") auto
next
  assume "v = [] \<or> hd v = c \<or> last v = c \<or> sublist [c, c] v"
  moreover have "v \<noteq> [] \<Longrightarrow> hd v = c \<Longrightarrow> [] \<in> set (split_on c v)" by (cases v) auto
  moreover have "[] \<in> set (split_on c v)" if "v \<noteq> []" "last v = c"
    using split_append [of c "butlast v" "[]"] append_butlast_last_id [OF that(1)] that(2) by simp
  moreover have "[] \<in> set (split_on c v)" if "sublist [c, c] v"
  proof -
    obtain a b where "v = a @ c # c # b" using \<open>sublist [c, c] v\<close> by (auto simp: sublist_def)
    then show ?thesis using split_append [of c a "c # b"] by simp
  qed
  ultimately show "[] \<in> set (split_on c v)" by fastforce
qed

lemma host_char_label: "list_all host_char v \<Longrightarrow> l \<in> set (split_on (CHR ''.'') v) \<Longrightarrow> list_all label_char l"
  using split_no_sep [of l "CHR ''.''" v] set_split_subset [of l "CHR ''.''" v]
  by (fastforce simp: list_all_iff host_char_def)

lemma labels_ok_iff:
  "list_all label_ok (split_on (CHR ''.'') v) \<longleftrightarrow>
     v \<noteq> [] \<and> list_all host_char v \<and> hd v \<noteq> CHR ''.'' \<and> last v \<noteq> CHR ''.'' \<and> \<not> contains_dots v \<and>
     \<not> list_ex bad_label (labels v)"
proof -
  have "list_all label_ok (split_on (CHR ''.'') v) \<longleftrightarrow>
      list_all host_char v \<and> [] \<notin> set (split_on (CHR ''.'') v) \<and> \<not> list_ex bad_label (labels v)"
  proof
    assume a: "list_all label_ok (split_on (CHR ''.'') v)"
    then show "list_all host_char v \<and> [] \<notin> set (split_on (CHR ''.'') v) \<and> \<not> list_ex bad_label (labels v)"
      using host_name_chars [OF a] by (auto simp: list_all_iff list_ex_iff label_ok_def bad_label_def labels_def)
  next
    assume "list_all host_char v \<and> [] \<notin> set (split_on (CHR ''.'') v) \<and> \<not> list_ex bad_label (labels v)"
    then show "list_all label_ok (split_on (CHR ''.'') v)"
      using host_char_label [of v] by (auto simp: list_all_iff list_ex_iff label_ok_def bad_label_def labels_def)
  qed
  then show ?thesis by (auto simp: empty_label_iff contains_dots_def)
qed

lemma parse_ipv4_digit_quad: "parse_ipv4 s \<Longrightarrow> digit_quad s"
  by (auto simp: parse_ipv4_def digit_quad_def octet_def list_all_iff Let_def)

lemma host_char_lower_ascii: "host_char (lower_char c) \<Longrightarrow> is_ascii c"
  by (auto simp: host_char_def label_char_def lower_char_def is_lower_def is_digit_def is_ascii_def is_upper_def split: if_splits)

lemma hostname_Some:
  "hostname (Some s) = Some m \<longleftrightarrow>
     m = map lower_char s \<and> 0 < length s \<and> length s \<le> 253 \<and> \<not> digit_quad m \<and> list_all label_ok (split_on (CHR ''.'') m)"
proof (cases "m = map lower_char s")
  case True
  then show ?thesis unfolding hostname_def Let_def labels_ok_iff by auto
next
  case False
  then show ?thesis by (simp add: hostname_def Let_def)
qed

text \<open>
  C34: the guard and the certificate service agree on names: the guard accepts exactly the
  ASCII names that the certificate service accepts and that are not four groups of digits,
  with the same canonical form.
\<close>

theorem hostname_iff_canonicalName:
  "hostname (Some s) = Some m \<longleftrightarrow> canonicalName s = Some m \<and> list_all is_ascii s \<and> \<not> digit_quad m"
proof
  assume h: "hostname (Some s) = Some m"
  then have l: "list_all label_ok (split_on (CHR ''.'') m)" "m = map lower_char s"
    unfolding hostname_Some by blast+
  then have a: "\<forall>c\<in>set s. is_ascii c"
    using host_name_chars [OF l(1)] by (auto simp: list_all_iff host_char_lower_ascii)
  have "\<not> suffix ''.'' s"
  proof
    assume "suffix ''.'' s"
    then have "suffix ''.'' m" using l(2) by (auto simp: suffix_def lower_char_def is_upper_def)
    then show False using host_name_no_trailing_dot [OF l(1)] by simp
  qed
  then have "canonicalName s = Some m"
    using h a parse_ipv4_digit_quad [of m] by (auto simp: canonicalName_def hostname_Some to_lower_ascii Let_def)
  then show "canonicalName s = Some m \<and> list_all is_ascii s \<and> \<not> digit_quad m"
    using h a unfolding hostname_Some list_all_iff by blast
next
  assume "canonicalName s = Some m \<and> list_all is_ascii s \<and> \<not> digit_quad m"
  then show "hostname (Some s) = Some m"
    using canonicalName_host [of s m] by (simp add: hostname_Some host_name_def to_lower_ascii list_all_iff)
qed

interpretation guard_name: name_check "\<lambda>s. hostname (Some s)" host_char
proof unfold_locales
  fix n m assume n: "hostname (Some n) = Some m"
  then have c: "canonicalName n = Some m" "\<not> digit_quad m" by (simp_all add: hostname_iff_canonicalName)
  show "list_all host_char m" by (rule server_name.check_legal [OF c(1)])
  then show "hostname (Some m) = Some m"
    using c server_name.check_fixed [OF c(1)] host_char_ascii by (auto simp: hostname_iff_canonicalName list_all_iff)
  show "0 < length m \<and> length m \<le> 253" by (rule server_name.check_length [OF c(1)])
qed

section \<open>The target of a request\<close>

lemma host_port_Some:
  "host_port a = Some (n, p) \<Longrightarrow> p \<noteq> [] \<and> list_all is_digit p \<and> a = n @ CHR '':'' # p"
  using join_split [of "CHR '':''" a] by (auto simp: host_port_def split: list.splits if_splits)

lemma target_Some:
  assumes "target a scheme = Some (name, port)"
  shows "\<exists>auth raw n. a = Some auth \<and> hostname (Some raw) = Some name \<and> 0 < n \<and> n \<le> 65535 \<and> port = show_int n \<and>
    (auth = raw \<and> n = (if scheme = ''https'' then 443 else 80) \<or>
     (\<exists>ds. auth = raw @ CHR '':'' # ds \<and> list_all is_digit ds \<and> digits_value ds = n))"
proof -
  obtain auth where a: "a = Some auth" using assms by (auto simp: target_def split: option.splits)
  show ?thesis
  proof (cases "host_port auth")
    case None
    then show ?thesis using assms a
      by (auto simp: target_def split: option.splits intro!: exI [of _ "if scheme = ''https'' then 443 else (80 :: int)"])
  next
    case (Some np)
    then obtain raw ds where np: "host_port auth = Some (raw, ds)" by (cases np) auto
    then have t: "hostname (Some raw) = Some name" "1 \<le> digits_value ds" "digits_value ds \<le> 65535"
        "port = show_int (digits_value ds)"
      using assms a by (auto simp: target_def Let_def split: option.splits if_splits)
    show ?thesis
      using t a host_port_Some [OF np] by (intro exI [of _ auth] exI [of _ raw] exI [of _ "digits_value ds"]) auto
  qed
qed

text \<open>
  C10: a request the guard forwards to authorization has the one target that is recorded: its
  authority is a host name the certificate service serves with a port of 16 bits, its scheme
  is the guard's, its path starts with a slash and is not that of a CONNECT; on the HTTPS
  route and at the egress it arrived over TLS, at the egress with a peer certificate, and on
  the workload's HTTPS route the server name of the TLS handshake is the same name.
\<close>

theorem guard_forwards_bound_target:
  assumes "envoy_on_request role scheme r = Forward r'" and "metadata r = None"
  shows "\<exists>name n path. 0 < n \<and> n \<le> 65535 \<and> canonicalName name = Some name \<and> take 1 path = ''/'' \<and>
    header r '':method'' \<noteq> Some ''CONNECT'' \<and>
    metadata r' = Some \<lparr>a_authority = name @ '':'' @ show_int n, a_scheme = scheme, a_path = path\<rparr> \<and>
    header r' '':authority'' = Some (name @ '':'' @ show_int n) \<and> header r' '':scheme'' = Some scheme \<and>
    header r' ''x-forwarded-proto'' = Some scheme \<and> header r' '':path'' = Some path \<and>
    (scheme = ''https'' \<or> role = Egress \<longrightarrow> downstreamSsl r \<noteq> None) \<and>
    (role = Egress \<longrightarrow> downstreamSsl r = Some True) \<and>
    (role = Workload \<and> scheme = ''https'' \<longrightarrow> canonicalName (requestedServerName r) = Some name)"
proof -
  obtain name port path where t: "target (header r '':authority'') scheme = Some (name, port)"
      "header r '':path'' = Some path" "take 1 path = ''/''" "header r '':method'' \<noteq> Some ''CONNECT''"
      "scheme = ''https'' \<or> role = Egress \<Longrightarrow> downstreamSsl r \<noteq> None" "role = Egress \<Longrightarrow> downstreamSsl r = Some True"
      "role = Workload \<and> scheme = ''https'' \<Longrightarrow> hostname (Some (requestedServerName r)) = Some name"
    and r': "r' = (replace_header ''x-forwarded-proto'' scheme
        (replace_header '':scheme'' scheme (replace_header '':authority'' (name @ '':'' @ port) r)))
        \<lparr>metadata := Some \<lparr>a_authority = name @ '':'' @ port, a_scheme = scheme, a_path = path\<rparr>\<rparr>"
    using assms by (auto simp: envoy_on_request_def Let_def split: if_splits option.splits prod.splits)
  obtain n raw where n: "0 < n" "n \<le> 65535" "port = show_int n" "hostname (Some raw) = Some name"
    using target_Some [OF t(1)] by blast
  have "canonicalName raw = Some name" using n(4) by (simp add: hostname_iff_canonicalName)
  then have "canonicalName name = Some name" by (rule server_name.check_fixed)
  moreover have "header r' '':authority'' = Some (name @ '':'' @ port)" "header r' '':scheme'' = Some scheme"
      "header r' ''x-forwarded-proto'' = Some scheme" "header r' '':path'' = Some path"
    using t(2) by (simp_all add: r' header_def replace_header_def)
  moreover have "metadata r' = Some \<lparr>a_authority = name @ '':'' @ port, a_scheme = scheme, a_path = path\<rparr>"
    by (simp add: r')
  moreover have "role = Workload \<and> scheme = ''https'' \<longrightarrow> canonicalName (requestedServerName r) = Some name"
    using t(7) by (simp add: hostname_iff_canonicalName)
  ultimately show ?thesis
    using n(1,2) t(3-6) unfolding n(3) by (intro exI [of _ name] exI [of _ n] exI [of _ path]) blast
qed

text \<open>
  What was authorized is what is forwarded: after the first pass a second pass with any
  other headers forwards the request unchanged when its authority, path and scheme are those
  of the first pass, and answers 403 otherwise.
\<close>

theorem guard_detects_changed_target:
  assumes "envoy_on_request role scheme r = Forward r'" and "metadata r = None"
  shows "envoy_on_request role' scheme' (r'\<lparr>headers := hs\<rparr>) =
    (if list_all (\<lambda>k. map_of hs k = header r' k) ['':authority'', '':path'', '':scheme'']
     then Forward (r'\<lparr>headers := hs\<rparr>) else Respond 403 ''authorization changed request target'')"
  using guard_forwards_bound_target [OF assms]
  by (elim exE conjE) (simp add: envoy_on_request_def header_def)

definition sample_request :: lua_request where
  "sample_request =
     \<lparr>headers = [('':authority'', ''API.example.com:0443''), ('':path'', ''/v1''), ('':method'', ''POST''), ('':scheme'', ''http'')],
      metadata = None, downstreamSsl = Some False, requestedServerName = ''api.Example.com''\<rparr>"

definition sample_forwarded :: lua_request where
  "sample_forwarded =
     \<lparr>headers = [('':authority'', ''api.example.com:443''), ('':path'', ''/v1''), ('':method'', ''POST''), ('':scheme'', ''https''),
        (''x-forwarded-proto'', ''https'')],
      metadata = Some \<lparr>a_authority = ''api.example.com:443'', a_scheme = ''https'', a_path = ''/v1''\<rparr>,
      downstreamSsl = Some False, requestedServerName = ''api.Example.com''\<rparr>"

lemma sample_pass: "envoy_on_request Workload ''https'' sample_request = Forward sample_forwarded"
  by code_simp

theorem guard_forwards_bound_target_witness:
  "header sample_forwarded '':authority'' = Some ''api.example.com:443'' \<and> canonicalName ''api.Example.com'' = Some ''api.example.com''"
proof -
  have m: "metadata sample_request = None" by (simp add: sample_request_def)
  from guard_forwards_bound_target [OF sample_pass m] obtain name n where
    h: "header sample_forwarded '':authority'' = Some (name @ '':'' @ show_int n)"
    "canonicalName (requestedServerName sample_request) = Some name" by blast
  have "canonicalName (requestedServerName sample_request) = Some ''api.example.com''"
    "header sample_forwarded '':authority'' = Some ''api.example.com:443''" by code_simp+
  with h show ?thesis by (simp add: sample_request_def)
qed

theorem guard_detects_changed_target_witness:
  "envoy_on_request Egress ''http'' (sample_forwarded\<lparr>headers := [('':authority'', ''other:443'')]\<rparr>) =
     Respond 403 ''authorization changed request target''"
proof -
  have m: "metadata sample_request = None" by (simp add: sample_request_def)
  show ?thesis
    using guard_detects_changed_target [OF sample_pass m, of Egress "''http''" "[('':authority'', ''other:443'')]"]
    by (simp add: header_def sample_forwarded_def)
qed

end
