(* ===== verification/FileSystem.thy ===== *)
theory FileSystem
  imports X509
begin

text \<open>
  The part of \<^verbatim>\<open>os\<close>, \<^verbatim>\<open>path/filepath\<close> and \<^verbatim>\<open>unix\<close> that the inspection
  package calls, over a tree of files, directories, symbolic
  links and sockets.  A program is a
  function from a schedule and a world to an outcome and a world.  The schedule decides for
  every system call whether it runs, fails with an input/output error, or is where the
  process is killed; a failed or killed write leaves a part of its data.  A killed process
  runs no deferred call and loses its locks.  Theorems that hold for every schedule are
  therefore about every interruption.
\<close>

unbundle bit_operations_syntax

section \<open>Worlds and schedules\<close>

type_synonym path = "string list"
type_synonym filemode = "32 word"

datatype node = File filemode bytes | Dir filemode | Symlink string | Socket filemode

datatype event = Run | Fault nat | Kill nat

text \<open>The number of a fault or a kill is how many bytes an interrupted write has stored.\<close>

record os =
  sched :: "nat \<Rightarrow> event"
  suffix_of :: "nat \<Rightarrow> string" \<comment> \<open>the random part of temporary names\<close>
  umask :: filemode

record world =
  nodes :: "(path \<times> node) list"
  held :: "path list" \<comment> \<open>files this process has locked\<close>
  foreign :: "path list" \<comment> \<open>files other processes have locked\<close>
  clock :: nat \<comment> \<open>system calls made so far\<close>

datatype io_error = ErrNotExist | ErrExist | ErrNotDir | ErrLoop | ErrIO | Text string

datatype 'a outcome = Done 'a | Failed io_error | Killed

type_synonym 'a io = "os \<Rightarrow> world \<Rightarrow> 'a outcome \<times> world"

definition node :: "world \<Rightarrow> path \<Rightarrow> node option" where
  "node w p = (if p = [] then Some (Dir 493) else map_of (nodes w) p)"

definition set_node :: "path \<Rightarrow> node \<Rightarrow> world \<Rightarrow> world" where
  "set_node p n w = w\<lparr>nodes := AList.update p n (nodes w)\<rparr>"

definition del_node :: "path \<Rightarrow> world \<Rightarrow> world" where
  "del_node p w = w\<lparr>nodes := AList.delete p (nodes w)\<rparr>"

definition tick :: "world \<Rightarrow> world" where "tick w = w\<lparr>clock := Suc (clock w)\<rparr>"

definition lose_locks :: "world \<Rightarrow> world" where "lose_locks w = w\<lparr>held := []\<rparr>"

section \<open>Sequencing\<close>

definition ret :: "'a \<Rightarrow> 'a io" where "ret a os w = (Done a, w)"
definition raise :: "io_error \<Rightarrow> 'a io" where "raise e os w = (Failed e, w)"

definition bind_io :: "'a io \<Rightarrow> ('a \<Rightarrow> 'b io) \<Rightarrow> 'b io" where
  "bind_io a f os w =
     (case a os w of
        (Done x, w') \<Rightarrow> f x os w'
      | (Failed e, w') \<Rightarrow> (Failed e, w')
      | (Killed, w') \<Rightarrow> (Killed, w'))"

text \<open>\<open>attempt\<close> hands the error to the caller, as \<^verbatim>\<open>v, err := f()\<close> does.\<close>

definition attempt :: "'a io \<Rightarrow> (io_error, 'a) result io" where
  "attempt a os w =
     (case a os w of
        (Done x, w') \<Rightarrow> (Done (Inr x), w')
      | (Failed e, w') \<Rightarrow> (Done (Inl e), w')
      | (Killed, w') \<Rightarrow> (Killed, w'))"

text \<open>\<open>deferring c a\<close> runs \<open>a\<close> and then, unless the process was killed, the deferred call \<open>c\<close>, whose error is dropped.\<close>

definition deferring :: "unit io \<Rightarrow> 'a io \<Rightarrow> 'a io" where
  "deferring c a os w =
     (case a os w of
        (Killed, w') \<Rightarrow> (Killed, w')
      | (r, w') \<Rightarrow> (case c os w' of (Killed, w'') \<Rightarrow> (Killed, w'') | (_, w'') \<Rightarrow> (r, w'')))"

definition on_error :: "unit io \<Rightarrow> 'a io \<Rightarrow> 'a io" where
  "on_error c a os w =
     (case a os w of
        (Failed e, w') \<Rightarrow> (case c os w' of (Killed, w'') \<Rightarrow> (Killed, w'') | (_, w'') \<Rightarrow> (Failed e, w''))
      | (r, w') \<Rightarrow> (r, w'))"

definition guard_io :: "bool \<Rightarrow> io_error \<Rightarrow> unit io" where
  "guard_io b e = (if b then ret () else raise e)"

text \<open>A system call: \<open>part\<close> is what an interrupted call has done.\<close>

definition sys :: "(nat \<Rightarrow> world \<Rightarrow> world) \<Rightarrow> (os \<Rightarrow> world \<Rightarrow> (io_error, 'a) result \<times> world) \<Rightarrow> 'a io" where
  "sys part f os w =
     (case sched os (clock w) of
        Kill n \<Rightarrow> (Killed, lose_locks (tick (part n w)))
      | Fault n \<Rightarrow> (Failed ErrIO, tick (part n w))
      | Run \<Rightarrow> (case f os w of
            (Inl e, w') \<Rightarrow> (Failed e, tick w')
          | (Inr a, w') \<Rightarrow> (Done a, tick w')))"

definition query :: "(world \<Rightarrow> (io_error, 'a) result) \<Rightarrow> 'a io" where
  "query f = sys (\<lambda>_ w. w) (\<lambda>_ w. (f w, w))"

definition change :: "(os \<Rightarrow> world \<Rightarrow> (io_error, world \<times> 'a) result) \<Rightarrow> 'a io" where
  "change f = sys (\<lambda>_ w. w) (\<lambda>os w. case f os w of Inl e \<Rightarrow> (Inl e, w) | Inr (w', a) \<Rightarrow> (Inr a, w'))"

section \<open>Path resolution\<close>

text \<open>The view of a world: what is at each location.\<close>

type_synonym view = "path \<Rightarrow> node option"

text \<open>Resolution follows at most \<open>k\<close> symbolic links; \<open>cur\<close> is the part resolved so far.\<close>

fun resolve :: "nat \<Rightarrow> view \<Rightarrow> path \<Rightarrow> string list \<Rightarrow> (io_error, path) result" where
  "resolve k v cur [] = Inr cur"
| "resolve k v cur (x # xs) =
     (if x = ''..'' then resolve k v (butlast cur) xs
      else if x = ''.'' \<or> x = [] then resolve k v cur xs
      else case v (cur @ [x]) of
        None \<Rightarrow> Inl ErrNotExist
      | Some (Symlink t) \<Rightarrow>
          (case k of
             0 \<Rightarrow> Inl ErrLoop
           | Suc k' \<Rightarrow> resolve k' v (if is_abs t then [] else cur) (split_on slash t @ xs))
      | Some (Dir m) \<Rightarrow> resolve k v (cur @ [x]) xs
      | Some n \<Rightarrow> if xs = [] then Inr (cur @ [x]) else Inl ErrNotDir)"

definition max_links :: nat where "max_links = 40"

definition follow :: "view \<Rightarrow> string \<Rightarrow> (io_error, path) result" where
  "follow v p = resolve max_links v [] (elems p)"

text \<open>The directory entry of a path: its parent resolved, its last element not followed.\<close>

definition entry :: "view \<Rightarrow> string \<Rightarrow> (io_error, path) result" where
  "entry v p =
     (if elems p = [] then Inr []
      else bindR (resolve max_links v [] (butlast (elems p))) (\<lambda>d.
        case v d of
          Some (Dir m) \<Rightarrow> Inr (d @ [last (elems p)])
        | _ \<Rightarrow> Inl ErrNotDir))"

definition lookup_node :: "view \<Rightarrow> path \<Rightarrow> (io_error, node) result" where
  "lookup_node v l = (case v l of None \<Rightarrow> Inl ErrNotExist | Some n \<Rightarrow> Inr n)"

section \<open>System calls\<close>

definition stat :: "string \<Rightarrow> node io" where
  "stat p = query (\<lambda>w. bindR (follow (node w) p) (lookup_node (node w)))"

definition lstat :: "string \<Rightarrow> node io" where
  "lstat p = query (\<lambda>w. bindR (entry (node w) p) (lookup_node (node w)))"

definition eval_symlinks :: "string \<Rightarrow> string io" where
  "eval_symlinks p = query (\<lambda>w. bindR (follow (node w) p) (\<lambda>l. Inr (abs_path l)))"

definition mkdir :: "string \<Rightarrow> filemode \<Rightarrow> unit io" where
  "mkdir p mode = change (\<lambda>os w. bindR (entry (node w) p) (\<lambda>l.
     if node w l = None then Inr (set_node l (Dir (mode AND NOT (umask os))) w, ()) else Inl ErrExist))"

text \<open>\<^verbatim>\<open>os.MkdirAll\<close>, on the reversed elements of the path.\<close>

primrec mkdir_all :: "filemode \<Rightarrow> string list \<Rightarrow> unit io" where
  "mkdir_all mode [] = ret ()"
| "mkdir_all mode (x # xs) =
     bind_io (attempt (stat (abs_path (rev (x # xs))))) (\<lambda>r.
       case r of
         Inr (Dir m) \<Rightarrow> ret ()
       | Inr _ \<Rightarrow> raise ErrNotDir
       | Inl _ \<Rightarrow>
           bind_io (mkdir_all mode xs) (\<lambda>_.
           bind_io (attempt (mkdir (abs_path (rev (x # xs))) mode)) (\<lambda>r.
             case r of
               Inr _ \<Rightarrow> ret ()
             | Inl e \<Rightarrow>
                 bind_io (attempt (lstat (abs_path (rev (x # xs))))) (\<lambda>r.
                   case r of Inr (Dir m) \<Rightarrow> ret () | _ \<Rightarrow> raise e))))"

text \<open>Opened files are handles: the location of the file.\<close>

definition open_read :: "string \<Rightarrow> path io" where
  "open_read p = query (\<lambda>w. bindR (entry (node w) p) (\<lambda>l.
     case node w l of
       None \<Rightarrow> Inl ErrNotExist
     | Some (Symlink t) \<Rightarrow> Inl ErrLoop
     | Some (Socket m) \<Rightarrow> Inl ErrIO
     | Some n \<Rightarrow> Inr l))"

definition open_create :: "string \<Rightarrow> filemode \<Rightarrow> path io" where
  "open_create p perm = change (\<lambda>os w. bindR (entry (node w) p) (\<lambda>l.
     case node w l of
       None \<Rightarrow> Inr (set_node l (File (perm AND NOT (umask os)) []) w, l)
     | Some (Symlink t) \<Rightarrow> Inl ErrLoop
     | Some (File m d) \<Rightarrow> Inr (w, l)
     | Some n \<Rightarrow> Inl ErrIO))"

definition flock :: "path \<Rightarrow> unit io" where
  "flock l = change (\<lambda>os w. if l \<in> set (held w) \<or> l \<in> set (foreign w) then Inl ErrIO
     else Inr (w\<lparr>held := l # held w\<rparr>, ()))"

definition close_lock :: "path \<Rightarrow> unit io" where
  "close_lock l = sys (\<lambda>_ w. w\<lparr>held := removeAll l (held w)\<rparr>) (\<lambda>_ w. (Inr (), w\<lparr>held := removeAll l (held w)\<rparr>))"

definition fstat :: "path \<Rightarrow> node io" where
  "fstat l = query (\<lambda>w. lookup_node (node w) l)"

definition read_handle :: "path \<Rightarrow> int \<Rightarrow> bytes io" where
  "read_handle l limit = query (\<lambda>w.
     case node w l of
       Some (File m d) \<Rightarrow> Inr (if int (length d) \<le> limit then d else take (nat limit) d)
     | _ \<Rightarrow> Inl ErrIO)"

definition read_file :: "string \<Rightarrow> bytes io" where
  "read_file p = query (\<lambda>w. bindR (follow (node w) p) (\<lambda>l.
     case node w l of Some (File m d) \<Rightarrow> Inr d | _ \<Rightarrow> Inl ErrIO))"

definition children :: "world \<Rightarrow> path \<Rightarrow> (string \<times> node) list" where
  "children w d =
     map (\<lambda>p. (last p, the (node w p)))
       (filter (\<lambda>p. p \<noteq> [] \<and> butlast p = d) (sort (remdups (map fst (nodes w)))))"

definition read_dir :: "string \<Rightarrow> (string \<times> node) list io" where
  "read_dir p = query (\<lambda>w. bindR (follow (node w) p) (\<lambda>l. Inr (children w l)))"

definition temp_prefix :: string where "temp_prefix = ''.gateway-''"

definition create_excl :: "string \<Rightarrow> path io" where
  "create_excl dir = change (\<lambda>os w. bindR (follow (node w) dir) (\<lambda>d.
     case node w d of
       Some (Dir m) \<Rightarrow>
         (let l = d @ [temp_prefix @ suffix_of os (clock w)] in
          if node w l = None then Inr (set_node l (File (384 AND NOT (umask os)) []) w, l) else Inl ErrExist)
     | _ \<Rightarrow> Inl ErrNotDir))"

primrec create_temp_tries :: "nat \<Rightarrow> string \<Rightarrow> path io" where
  "create_temp_tries 0 dir = raise ErrExist"
| "create_temp_tries (Suc k) dir =
     bind_io (attempt (create_excl dir)) (\<lambda>r.
       case r of
         Inr l \<Rightarrow> ret l
       | Inl e \<Rightarrow> if e = ErrExist then create_temp_tries k dir else raise e)"

definition create_temp :: "string \<Rightarrow> path io" where
  "create_temp = create_temp_tries 10000"

text \<open>For evaluation: the first try alone, so that the other tries are computed only when needed.\<close>

lemma create_temp_code [code]:
  "create_temp dir =
     bind_io (attempt (create_excl dir)) (\<lambda>r.
       case r of
         Inr l \<Rightarrow> ret l
       | Inl e \<Rightarrow> if e = ErrExist then create_temp_tries 9999 dir else raise e)"
  using create_temp_tries.simps(2) [of 9999 dir] by (simp add: create_temp_def)

definition chmod :: "path \<Rightarrow> filemode \<Rightarrow> unit io" where
  "chmod l mode = change (\<lambda>os w.
     case node w l of Some (File m d) \<Rightarrow> Inr (set_node l (File mode d) w, ()) | _ \<Rightarrow> Inl ErrIO)"

text \<open>A write to a freshly created, still empty file.\<close>

definition store :: "path \<Rightarrow> bytes \<Rightarrow> world \<Rightarrow> world" where
  "store l data w =
     (case node w l of Some (File m d) \<Rightarrow> set_node l (File m (d @ data)) w | _ \<Rightarrow> w)"

definition write_file :: "path \<Rightarrow> bytes \<Rightarrow> unit io" where
  "write_file l data = sys (\<lambda>n. store l (take n data)) (\<lambda>_ w. (Inr (), store l data w))"

definition sync :: "unit io" where "sync = query (\<lambda>_. Inr ())"
definition close :: "unit io" where "close = query (\<lambda>_. Inr ())"

definition open_dir :: "string \<Rightarrow> path io" where
  "open_dir p = query (\<lambda>w. follow (node w) p)"

definition rename :: "path \<Rightarrow> string \<Rightarrow> unit io" where
  "rename src p = change (\<lambda>os w. bindR (entry (node w) p) (\<lambda>l.
     case node w src of
       None \<Rightarrow> Inl ErrNotExist
     | Some n \<Rightarrow>
         (case node w l of
            Some (Dir m) \<Rightarrow> Inl ErrExist
          | _ \<Rightarrow> Inr (set_node l n (del_node src w), ()))))"

definition link :: "path \<Rightarrow> string \<Rightarrow> unit io" where
  "link src p = change (\<lambda>os w. bindR (entry (node w) p) (\<lambda>l.
     case node w src of
       None \<Rightarrow> Inl ErrNotExist
     | Some n \<Rightarrow> if node w l = None then Inr (set_node l n w, ()) else Inl ErrExist))"

definition remove_file :: "path \<Rightarrow> unit io" where
  "remove_file l = change (\<lambda>os w.
     if node w l = None then Inl ErrNotExist else Inr (del_node l w, ()))"

text \<open>
  \<^verbatim>\<open>os.OpenFile(path, O_CREATE|O_RDWR, perm)\<close> follows links, also one whose target does not
  exist yet.
\<close>

fun final_entry :: "nat \<Rightarrow> view \<Rightarrow> string \<Rightarrow> (io_error, path) result" where
  "final_entry k v p =
     bindR (entry v p) (\<lambda>l.
       case v l of
         Some (Symlink t) \<Rightarrow>
           (case k of
              0 \<Rightarrow> Inl ErrLoop
            | Suc k' \<Rightarrow> final_entry k' v (if is_abs t then t else abs_path (butlast l @ split_on slash t)))
       | _ \<Rightarrow> Inr l)"

definition open_rw :: "string \<Rightarrow> filemode \<Rightarrow> path io" where
  "open_rw p perm = change (\<lambda>os w. bindR (final_entry max_links (node w) p) (\<lambda>l.
     case node w l of
       None \<Rightarrow> Inr (set_node l (File (perm AND NOT (umask os)) []) w, l)
     | Some (File m d) \<Rightarrow> Inr (w, l)
     | Some n \<Rightarrow> Inl ErrIO))"

text \<open>
  Sockets: binding creates the entry, removal by path deletes it (a directory is refused: the
  program never removes one), and a change of mode follows links.
\<close>

definition listen_unix :: "string \<Rightarrow> unit io" where
  "listen_unix p = change (\<lambda>os w. bindR (entry (node w) p) (\<lambda>l.
     if node w l = None then Inr (set_node l (Socket (511 AND NOT (umask os))) w, ()) else Inl ErrExist))"

definition unlink :: "string \<Rightarrow> unit io" where
  "unlink p = change (\<lambda>os w. bindR (entry (node w) p) (\<lambda>l.
     case node w l of
       None \<Rightarrow> Inl ErrNotExist
     | Some (Dir m) \<Rightarrow> Inl ErrIO
     | Some n \<Rightarrow> Inr (del_node l w, ())))"

definition chmod_path :: "string \<Rightarrow> filemode \<Rightarrow> unit io" where
  "chmod_path p mode = change (\<lambda>os w. bindR (follow (node w) p) (\<lambda>l.
     case node w l of
       None \<Rightarrow> Inl ErrNotExist
     | Some (File m d) \<Rightarrow> Inr (set_node l (File mode d) w, ())
     | Some (Dir m) \<Rightarrow> Inr (set_node l (Dir mode) w, ())
     | Some (Symlink t) \<Rightarrow> Inl ErrLoop
     | Some (Socket m) \<Rightarrow> Inr (set_node l (Socket mode) w, ())))"

section \<open>Reasoning about interrupted programs\<close>

text \<open>
  \<open>spec P a Q E X\<close>: from a view with \<open>P\<close>, under any schedule, \<open>a\<close> ends normally with \<open>Q\<close>,
  fails with \<open>E\<close> or is killed with \<open>X\<close>.
\<close>

definition spec ::
  "(view \<Rightarrow> bool) \<Rightarrow> 'a io \<Rightarrow> ('a \<Rightarrow> view \<Rightarrow> bool) \<Rightarrow> (io_error \<Rightarrow> view \<Rightarrow> bool) \<Rightarrow> (view \<Rightarrow> bool) \<Rightarrow> bool" where
  "spec P a Q E X \<longleftrightarrow>
     (\<forall>os w. P (node w) \<longrightarrow>
        (case a os w of (r, w') \<Rightarrow>
           (case r of Done x \<Rightarrow> Q x (node w') | Failed e \<Rightarrow> E e (node w') | Killed \<Rightarrow> X (node w'))))"

declare final_entry.simps [simp del]

named_theorems spec_intros "rules of the interruption logic"

lemma node_simps [simp]:
  "node (tick w) = node w" "node (lose_locks w) = node w" "node (w\<lparr>held := h\<rparr>) = node w"
  "node (w\<lparr>clock := c\<rparr>) = node w"
  by (simp_all add: node_def tick_def lose_locks_def fun_eq_iff)

lemma node_set_node [simp]: "p \<noteq> [] \<Longrightarrow> node (set_node p n w) = (node w)(p := Some n)"
  by (auto simp: node_def set_node_def update_conv fun_eq_iff)

lemma node_del_node [simp]: "p \<noteq> [] \<Longrightarrow> node (del_node p w) = (node w)(p := None)"
  by (auto simp: node_def del_node_def delete_conv fun_eq_iff)

lemma node_root [simp]: "node w [] = Some (Dir 493)"
  by (simp add: node_def)

lemma specI:
  assumes "\<And>os w r w'. P (node w) \<Longrightarrow> a os w = (r, w') \<Longrightarrow>
    case r of Done x \<Rightarrow> Q x (node w') | Failed e \<Rightarrow> E e (node w') | Killed \<Rightarrow> X (node w')"
  shows "spec P a Q E X"
  using assms unfolding spec_def by blast

lemma specD:
  assumes "spec P a Q E X" "P (node w)" "a os w = (r, w')"
  shows "case r of Done x \<Rightarrow> Q x (node w') | Failed e \<Rightarrow> E e (node w') | Killed \<Rightarrow> X (node w')"
  using assms(1) [unfolded spec_def, rule_format, OF assms(2), of os] assms(3) by simp

lemma spec_ret [spec_intros]: "(\<And>v. P v \<Longrightarrow> Q x v) \<Longrightarrow> spec P (ret x) Q E X"
  by (simp add: spec_def ret_def)

lemma spec_raise [spec_intros]: "(\<And>v. P v \<Longrightarrow> E e v) \<Longrightarrow> spec P (raise e) Q E X"
  by (simp add: spec_def raise_def)

lemma spec_guard [spec_intros]:
  "(\<And>v. P v \<Longrightarrow> b \<Longrightarrow> Q () v) \<Longrightarrow> (\<And>v. P v \<Longrightarrow> \<not> b \<Longrightarrow> E e v) \<Longrightarrow> spec P (guard_io b e) Q E X"
  by (simp add: spec_def guard_io_def ret_def raise_def)

lemma spec_bind:
  assumes "spec P a R E X" "\<And>x. spec (R x) (f x) Q E X"
  shows "spec P (bind_io a f) Q E X"
proof (rule specI)
  fix os w r w'
  assume "P (node w)" and run: "bind_io a f os w = (r, w')"
  obtain r1 w1 where 1: "a os w = (r1, w1)" by fastforce
  note d = specD [OF assms(1) \<open>P (node w)\<close> 1]
  show "case r of Done x \<Rightarrow> Q x (node w') | Failed e \<Rightarrow> E e (node w') | Killed \<Rightarrow> X (node w')"
  proof (cases r1)
    case (Done x)
    then have "f x os w1 = (r, w')" using run 1 by (simp add: bind_io_def)
    then show ?thesis using specD [OF assms(2)] d Done by simp
  qed (use run 1 d in \<open>auto simp: bind_io_def\<close>)
qed

lemma spec_attempt:
  assumes "spec P a (\<lambda>x. Q (Inr x)) (\<lambda>e. Q (Inl e)) X"
  shows "spec P (attempt a) Q E X"
proof (rule specI)
  fix os w r w'
  assume "P (node w)" and run: "attempt a os w = (r, w')"
  obtain r1 w1 where 1: "a os w = (r1, w1)" by fastforce
  show "case r of Done x \<Rightarrow> Q x (node w') | Failed e \<Rightarrow> E e (node w') | Killed \<Rightarrow> X (node w')"
    using specD [OF assms \<open>P (node w)\<close> 1] run 1 by (cases r1) (auto simp: attempt_def)
qed

text \<open>A deferred call keeps what holds when it starts.\<close>

lemma spec_deferring:
  assumes "spec P a Q E X" "\<And>x. spec (Q x) c (\<lambda>_. Q' x) (\<lambda>_. Q' x) X"
    "\<And>e. spec (E e) c (\<lambda>_. E' e) (\<lambda>_. E' e) X"
  shows "spec P (deferring c a) Q' E' X"
proof (rule specI)
  fix os w r w'
  assume "P (node w)" and run: "deferring c a os w = (r, w')"
  obtain r1 w1 where 1: "a os w = (r1, w1)" by fastforce
  obtain r2 w2 where 2: "c os w1 = (r2, w2)" by fastforce
  note d = specD [OF assms(1) \<open>P (node w)\<close> 1]
  show "case r of Done x \<Rightarrow> Q' x (node w') | Failed e \<Rightarrow> E' e (node w') | Killed \<Rightarrow> X (node w')"
  proof (cases r1)
    case (Done x)
    then show ?thesis
      using specD [OF assms(2) _ 2] d run 1 2 by (cases r2) (auto simp: deferring_def)
  next
    case (Failed e)
    then show ?thesis
      using specD [OF assms(3) _ 2] d run 1 2 by (cases r2) (auto simp: deferring_def)
  next
    case Killed
    then show ?thesis using d run 1 by (simp add: deferring_def)
  qed
qed

lemma spec_on_error:
  assumes "spec P a Q E X" "\<And>e. spec (E e) c (\<lambda>_. E e) (\<lambda>_. E e) X"
  shows "spec P (on_error c a) Q E X"
proof (rule specI)
  fix os w r w'
  assume "P (node w)" and run: "on_error c a os w = (r, w')"
  obtain r1 w1 where 1: "a os w = (r1, w1)" by fastforce
  obtain r2 w2 where 2: "c os w1 = (r2, w2)" by fastforce
  note d = specD [OF assms(1) \<open>P (node w)\<close> 1]
  show "case r of Done x \<Rightarrow> Q x (node w') | Failed e \<Rightarrow> E e (node w') | Killed \<Rightarrow> X (node w')"
    using d run 1 2 specD [OF assms(2) _ 2] by (cases r1; cases r2) (auto simp: on_error_def)
qed

lemma spec_weaken:
  assumes "spec P a Q E X" "\<And>v. P' v \<Longrightarrow> P v" "\<And>x v. Q x v \<Longrightarrow> Q' x v" "\<And>e v. E e v \<Longrightarrow> E' e v" "\<And>v. X v \<Longrightarrow> X' v"
  shows "spec P' a Q' E' X'"
proof (rule specI)
  fix os w r w'
  assume "P' (node w)" "a os w = (r, w')"
  from specD [OF assms(1) assms(2) [OF this(1)] this(2)]
  show "case r of Done x \<Rightarrow> Q' x (node w') | Failed e \<Rightarrow> E' e (node w') | Killed \<Rightarrow> X' (node w')"
    by (cases r) (auto intro: assms(3-5))
qed

lemma spec_disj:
  assumes "spec P a Q E X" "spec P' a Q E X"
  shows "spec (\<lambda>v. P v \<or> P' v) a Q E X"
proof (rule specI)
  fix os w r w'
  assume "P (node w) \<or> P' (node w)" and run: "a os w = (r, w')"
  then show "case r of Done x \<Rightarrow> Q x (node w') | Failed e \<Rightarrow> E e (node w') | Killed \<Rightarrow> X (node w')"
    using specD [OF assms(1) _ run] specD [OF assms(2) _ run] by blast
qed

text \<open>A query changes nothing, a change happens or does not.\<close>

lemma spec_query:
  assumes "\<And>w. P (node w) \<Longrightarrow> case f w of Inr x \<Rightarrow> Q x (node w) | Inl e \<Rightarrow> E e (node w)"
    and "\<And>v. P v \<Longrightarrow> E ErrIO v" "\<And>v. P v \<Longrightarrow> X v"
  shows "spec P (query f) Q E X"
  using assms by (fastforce simp: spec_def query_def sys_def split: event.splits sum.splits prod.splits)

lemma spec_change:
  assumes "\<And>os w. P (node w) \<Longrightarrow> case f os w of Inr (w', x) \<Rightarrow> Q x (node w') | Inl e \<Rightarrow> E e (node w)"
    and "\<And>v. P v \<Longrightarrow> E ErrIO v" "\<And>v. P v \<Longrightarrow> X v"
  shows "spec P (change f) Q E X"
  using assms by (fastforce simp: spec_def change_def sys_def split: event.splits sum.splits prod.splits)

section \<open>Locks\<close>

text \<open>Programs that do not lock: foreign locks stay, and so do the process's own unless it is killed.\<close>

definition lockless :: "'a io \<Rightarrow> bool" where
  "lockless a \<longleftrightarrow> (\<forall>os w r w'. a os w = (r, w') \<longrightarrow>
     foreign w' = foreign w \<and> (r \<noteq> Killed \<longrightarrow> held w' = held w))"

named_theorems lockless_intros "programs that do not lock"

lemma locklessD:
  "lockless a \<Longrightarrow> a os w = (r, w') \<Longrightarrow> foreign w' = foreign w \<and> (r \<noteq> Killed \<longrightarrow> held w' = held w)"
  by (simp add: lockless_def)

lemma locks_of_nodes [simp]:
  "foreign (set_node p n w) = foreign w" "held (set_node p n w) = held w"
  "foreign (del_node p w) = foreign w" "held (del_node p w) = held w"
  "foreign (tick w) = foreign w" "held (tick w) = held w" "foreign (lose_locks w) = foreign w"
  "foreign (store p d w) = foreign w" "held (store p d w) = held w"
  by (simp_all add: set_node_def del_node_def tick_def lose_locks_def store_def split: option.splits node.splits)

lemma lockless_ret [lockless_intros]: "lockless (ret x)" "lockless (raise e)" "lockless (guard_io c e)"
  by (simp_all add: lockless_def ret_def raise_def guard_io_def)

lemma lockless_bind [lockless_intros]:
  assumes "lockless a" "\<And>x. lockless (f x)"
  shows "lockless (bind_io a f)"
  unfolding lockless_def
proof (intro allI impI)
  fix os w r w' assume run: "bind_io a f os w = (r, w')"
  obtain r1 w1 where 1: "a os w = (r1, w1)" by fastforce
  note d = locklessD [OF assms(1) 1]
  show "foreign w' = foreign w \<and> (r \<noteq> Killed \<longrightarrow> held w' = held w)"
  proof (cases r1)
    case (Done x)
    then have "f x os w1 = (r, w')" using run 1 by (simp add: bind_io_def)
    from locklessD [OF assms(2) this] d Done show ?thesis by simp
  qed (use run 1 d in \<open>auto simp: bind_io_def\<close>)
qed

lemma lockless_attempt [lockless_intros]:
  assumes "lockless a"
  shows "lockless (attempt a)"
  unfolding lockless_def
proof (intro allI impI)
  fix os w r w' assume run: "attempt a os w = (r, w')"
  obtain r1 w1 where 1: "a os w = (r1, w1)" by fastforce
  from locklessD [OF assms 1] run 1 show "foreign w' = foreign w \<and> (r \<noteq> Killed \<longrightarrow> held w' = held w)"
    by (cases r1) (auto simp: attempt_def)
qed

lemma lockless_deferring [lockless_intros]:
  assumes "lockless a" "lockless c"
  shows "lockless (deferring c a)"
  unfolding lockless_def
proof (intro allI impI)
  fix os w r w' assume run: "deferring c a os w = (r, w')"
  obtain r1 w1 where 1: "a os w = (r1, w1)" by fastforce
  obtain r2 w2 where 2: "c os w1 = (r2, w2)" by fastforce
  from locklessD [OF assms(1) 1] locklessD [OF assms(2) 2] run 1 2
  show "foreign w' = foreign w \<and> (r \<noteq> Killed \<longrightarrow> held w' = held w)"
    by (cases r1; cases r2) (auto simp: deferring_def)
qed

lemma lockless_query [lockless_intros]: "lockless (query f)"
  unfolding lockless_def
proof (intro allI impI)
  fix os w r w' assume run: "query f os w = (r, w')"
  then show "foreign w' = foreign w \<and> (r \<noteq> Killed \<longrightarrow> held w' = held w)"
    by (cases "sched os (clock w)"; cases "f w") (auto simp: query_def sys_def)
qed

lemma lockless_change:
  assumes "\<And>os w w' x. f os w = Inr (w', x) \<Longrightarrow> foreign w' = foreign w \<and> held w' = held w"
  shows "lockless (change f)"
  unfolding lockless_def
proof (intro allI impI)
  fix os w r w' assume run: "change f os w = (r, w')"
  show "foreign w' = foreign w \<and> (r \<noteq> Killed \<longrightarrow> held w' = held w)"
  proof (cases "sched os (clock w)")
    case Run
    show ?thesis
    proof (cases "f os w")
      case (Inr p)
      obtain u x where "p = (u, x)" by fastforce
      then show ?thesis using run Run Inr assms [of os w u x] by (auto simp: change_def sys_def)
    qed (use run Run in \<open>auto simp: change_def sys_def\<close>)
  qed (use run in \<open>auto simp: change_def sys_def\<close>)
qed

lemma lockless_queries [lockless_intros]:
  "lockless (stat p)" "lockless (lstat p)" "lockless (eval_symlinks p)" "lockless (open_read p)"
  "lockless (fstat l)" "lockless (read_handle l k)" "lockless (read_file p)" "lockless (read_dir p)"
  "lockless (open_dir p)" "lockless sync" "lockless close"
  unfolding stat_def lstat_def eval_symlinks_def open_read_def fstat_def read_handle_def
    read_file_def read_dir_def open_dir_def sync_def close_def
  by (rule lockless_query)+

lemma case_Inr [result_simps]:
  "(case x of None \<Rightarrow> Inl e | Some y \<Rightarrow> f y) = Inr z \<longleftrightarrow> (\<exists>y. x = Some y \<and> f y = Inr z)"
  "(case n of File m d \<Rightarrow> Inl e | Dir m \<Rightarrow> g m | Symlink t \<Rightarrow> Inl e' | Socket k \<Rightarrow> Inl e'') = Inr z \<longleftrightarrow> (\<exists>m. n = Dir m \<and> g m = Inr z)"
  "(case n of File m d \<Rightarrow> h m d | Dir m \<Rightarrow> Inl e | Symlink t \<Rightarrow> Inl e' | Socket k \<Rightarrow> Inl e'') = Inr z \<longleftrightarrow> (\<exists>m d. n = File m d \<and> h m d = Inr z)"
  by (auto split: option.splits node.splits)

lemma lockless_changes [lockless_intros]:
  "lockless (mkdir p m)" "lockless (open_create p m)" "lockless (create_excl p)" "lockless (chmod l m)"
  "lockless (link l p)" "lockless (remove_file l)"
  unfolding mkdir_def open_create_def create_excl_def chmod_def link_def remove_file_def
  subgoal by (rule lockless_change) (auto simp: result_simps split: if_split_asm)
  subgoal by (rule lockless_change) (auto simp: result_simps split: option.split_asm node.split_asm)
  subgoal by (rule lockless_change) (auto simp: result_simps Let_def split: if_split_asm)
  subgoal by (rule lockless_change) (auto simp: result_simps)
  subgoal by (rule lockless_change) (auto simp: result_simps split: if_split_asm)
  subgoal by (rule lockless_change) (auto split: if_split_asm)
  done

lemma lockless_paths [lockless_intros]:
  "lockless (open_rw p m)" "lockless (listen_unix p)" "lockless (unlink p)" "lockless (chmod_path p m)"
  unfolding open_rw_def listen_unix_def unlink_def chmod_path_def
  by (rule lockless_change; auto simp: bindR_def split: sum.split_asm option.split_asm node.split_asm if_split_asm)+

lemma lockless_rename [lockless_intros]: "lockless (rename l p)"
  unfolding rename_def
proof (rule lockless_change)
  fix os w w' x
  assume "bindR (entry (node w) p) (\<lambda>k. case node w l of None \<Rightarrow> Inl ErrNotExist
    | Some n \<Rightarrow> (case node w k of Some (Dir m) \<Rightarrow> Inl ErrExist | _ \<Rightarrow> Inr (set_node k n (del_node l w), ()))) = Inr (w', x)"
  then obtain k n where "(case node w k of Some (Dir m) \<Rightarrow> Inl ErrExist
      | _ \<Rightarrow> Inr (set_node k n (del_node l w), ())) = Inr (w', x)"
    by (auto simp: result_simps)
  then have "w' = set_node k n (del_node l w)"
    by (cases "node w k"; cases "the (node w k)") auto
  then show "foreign w' = foreign w \<and> held w' = held w" by simp
qed

lemma lockless_write [lockless_intros]: "lockless (write_file l d)"
  by (auto simp: lockless_def write_file_def sys_def split: event.splits)

end
