(* ===== verification/CAStore.thy ===== *)
theory CAStore
  imports FileSystem Leaf
begin

text \<open>
  \<^verbatim>\<open>internal/inspection/ca.go\<close>: the private state of the inspection CA, its publication
  and the trust bundle.  \<open>Open\<close> is the whole of \<^verbatim>\<open>Open\<close> as a program over the file
  system of \<^verbatim>\<open>FileSystem\<close>, so its theorems hold for an interruption at any system call.
  \<^verbatim>\<open>encoding/json\<close> on the state record and the PEM and X.509 packages are parameters.
  The locale \<open>atomic_publication\<close> is what \<^verbatim>\<open>writeAtomic\<close> needs of its publishing call;
  it is interpreted on \<^verbatim>\<open>os.Rename\<close> and \<^verbatim>\<open>os.Link\<close>.
\<close>

unbundle bit_operations_syntax

section \<open>Times and material\<close>

text \<open>\<^verbatim>\<open>AddDate(10, 0, 0)\<close> in UTC: the day count of the year that starts in March, and the leap days before it.\<close>

definition march_year :: "int \<Rightarrow> int" where
  "march_year days =
     (let z = days + 719468; era = z div 146097; doe = z mod 146097
      in (doe - doe div 1460 + doe div 36524 - doe div 146096) div 365 + 400 * era)"

definition leap_days :: "int \<Rightarrow> int" where
  "leap_days y = y div 4 - y div 100 + y div 400"

definition add_ten_years :: "time \<Rightarrow> time" where
  "add_ten_years t =
     (let y = march_year (t div (24 * hour))
      in t + (3650 + leap_days (y + 10) - leap_days y) * (24 * hour))"

record codec =
  MarshalState :: "bytes \<times> bytes \<Rightarrow> bytes option"
  UnmarshalState :: "bytes \<Rightarrow> (bytes \<times> bytes) option"

definition ca_template :: "nat \<Rightarrow> time \<Rightarrow> template" where
  "ca_template serial now =
     \<lparr>SerialNumber = serial, CommonName = ''Gateway Pod inspection CA'', DNSNames = [],
      t_NotBefore = now - minute, t_NotAfter = add_ten_years now, t_IsCA = True,
      t_BasicConstraintsValid = True, MaxPathLenZero = True,
      t_KeyUsage = [CertSign, CRLSign], ExtKeyUsage = []\<rparr>"

text \<open>\<open>None\<close> as the parent of a certificate means that it signs itself.\<close>

definition generate :: "crypto \<Rightarrow> time \<Rightarrow> nat \<Rightarrow> (bytes \<times> bytes) option" where
  "generate cr now r =
     Option.bind (GenerateKey cr r) (\<lambda>k.
     Option.bind (RandSerial cr (r + 1)) (\<lambda>serial.
     Option.bind (CreateCertificate cr (r + 2) (ca_template serial now) None k k) (\<lambda>der.
     Option.bind (MarshalPKCS8 cr k) (\<lambda>private.
       Some (PemEncode cr ''CERTIFICATE'' der, PemEncode cr ''PRIVATE KEY'' private)))))"

section \<open>Directories and files\<close>

definition perm :: "node \<Rightarrow> filemode" where
  "perm n = (case n of File m d \<Rightarrow> m AND 511 | Dir m \<Rightarrow> m AND 511 | Socket m \<Rightarrow> m AND 511 | Symlink t \<Rightarrow> 511)"

definition is_dir :: "node \<Rightarrow> bool" where
  "is_dir n = (case n of Dir m \<Rightarrow> True | _ \<Rightarrow> False)"

definition is_regular :: "node \<Rightarrow> bool" where
  "is_regular n = (case n of File m d \<Rightarrow> True | _ \<Rightarrow> False)"

definition node_size :: "node \<Rightarrow> int" where
  "node_size n = (case n of File m d \<Rightarrow> int (length d) | _ \<Rightarrow> 0)"

definition Directory :: "string \<Rightarrow> filemode \<Rightarrow> unit io" where
  "Directory path mode =
     bind_io (guard_io (is_abs path \<and> clean path = path) (Text ''directory requires a clean absolute path'')) (\<lambda>_.
     bind_io (mkdir_all mode (rev (elems path))) (\<lambda>_.
     bind_io (eval_symlinks path) (\<lambda>actual.
     bind_io (guard_io (actual = path) (Text ''directory must not contain symlinks'')) (\<lambda>_.
     bind_io (stat path) (\<lambda>info.
     let forbidden = (if mode = 448 then 63 else 18)
     in guard_io (is_dir info \<and> (perm info AND forbidden) = 0) (Text ''unsafe directory permissions''))))))"

definition readPrivate :: "string \<Rightarrow> bytes io" where
  "readPrivate path =
     bind_io (open_read path) (\<lambda>f.
     deferring close
      (bind_io (fstat f) (\<lambda>info.
       bind_io (guard_io (is_regular info \<and> (perm info AND 63) = 0 \<and> node_size info \<le> 65536)
         (Text ''unsafe inspection CA state file'')) (\<lambda>_.
       read_handle f 65536))))"

definition writeAtomic :: "string \<Rightarrow> bytes \<Rightarrow> filemode \<Rightarrow> (path \<Rightarrow> string \<Rightarrow> unit io) \<Rightarrow> unit io" where
  "writeAtomic path data mode publish =
     bind_io (create_temp (dir_name path)) (\<lambda>f.
     deferring (remove_file f)
      (deferring close
        (bind_io (chmod f mode) (\<lambda>_.
         bind_io (write_file f data) (\<lambda>_.
         bind_io sync (\<lambda>_.
         bind_io close (\<lambda>_.
         bind_io (publish f path) (\<lambda>_.
         bind_io (open_dir (dir_name path)) (\<lambda>dir.
         deferring close sync)))))))))"

definition WriteAtomic :: "string \<Rightarrow> bytes \<Rightarrow> filemode \<Rightarrow> unit io" where
  "WriteAtomic path data mode = writeAtomic path data mode rename"

definition publishCertificate :: "crypto \<Rightarrow> string \<Rightarrow> bytes \<Rightarrow> certificate \<Rightarrow> unit io" where
  "publishCertificate cr path certificate cert =
     bind_io (attempt (writeAtomic path certificate 420 link)) (\<lambda>r.
     case r of
       Inr _ \<Rightarrow> ret ()
     | Inl e \<Rightarrow>
         if e \<noteq> ErrExist then raise e
         else bind_io (read_file path) (\<lambda>published.
           guard_io
             (case PemDecode cr published of
                None \<Rightarrow> False
              | Some (block, rest) \<Rightarrow>
                  BlockType block = ''CERTIFICATE'' \<and> trim_space rest = [] \<and> Bytes block = Raw cert)
             (Text ''published inspection CA does not match private state; refusing replacement'')))"

section \<open>Opening the authority\<close>

definition lockPath :: "string \<Rightarrow> string" where "lockPath privateDir = join_path [privateDir, ''.lock'']"
definition statePath :: "string \<Rightarrow> string" where "statePath privateDir = join_path [privateDir, CAStateFile]"
definition publishedPath :: "string \<Rightarrow> string" where
  "publishedPath publicDir = join_path [publicDir, CACertificateFile]"

text \<open>What a killed first start may leave in the private directory.\<close>

definition leftover :: "string \<times> node \<Rightarrow> bool" where
  "leftover e \<longleftrightarrow> fst e = ''.lock'' \<or> prefix temp_prefix (fst e) \<and> is_regular (snd e)"

definition create_state :: "crypto \<Rightarrow> codec \<Rightarrow> string \<Rightarrow> string \<Rightarrow> time \<Rightarrow> nat \<Rightarrow> (bytes \<times> bytes) io" where
  "create_state cr cd privateDir publicDir now r =
     bind_io (attempt (lstat (publishedPath publicDir))) (\<lambda>e.
     bind_io (guard_io (e = Inl ErrNotExist)
       (Text ''private CA state missing while public trust exists; refusing replacement'')) (\<lambda>_.
     bind_io (read_dir privateDir) (\<lambda>entries.
     bind_io (guard_io (list_all leftover entries)
       (Text ''CA state missing from a nonempty private directory; refusing replacement'')) (\<lambda>_.
     case generate cr now r of
       None \<Rightarrow> raise (Text ''generate'')
     | Some s \<Rightarrow>
         (case MarshalState cd s of
            None \<Rightarrow> raise (Text ''marshal'')
          | Some raw \<Rightarrow> bind_io (WriteAtomic (statePath privateDir) raw 384) (\<lambda>_. ret s))))))"

definition load_state :: "crypto \<Rightarrow> codec \<Rightarrow> string \<Rightarrow> string \<Rightarrow> time \<Rightarrow> nat \<Rightarrow> (bytes \<times> bytes) io" where
  "load_state cr cd privateDir publicDir now r =
     bind_io (attempt (readPrivate (statePath privateDir))) (\<lambda>raw.
     case raw of
       Inl e \<Rightarrow> if e = ErrNotExist then create_state cr cd privateDir publicDir now r else raise e
     | Inr raw \<Rightarrow>
         (case UnmarshalState cd raw of
            None \<Rightarrow> raise (Text ''invalid inspection CA state'')
          | Some s \<Rightarrow> ret s))"

text \<open>The checks of the loaded or generated material.\<close>

definition usable :: "time \<Rightarrow> certificate \<Rightarrow> bool" where
  "usable now cert \<longleftrightarrow>
     IsCA cert \<and> BasicConstraintsValid cert \<and> CertSign \<in> set (KeyUsage cert) \<and>
     \<not> now < NotBefore cert \<and> now + hour < NotAfter cert"

definition check_pair :: "crypto \<Rightarrow> time \<Rightarrow> bytes \<times> bytes \<Rightarrow> (io_error, authority) result" where
  "check_pair cr now s =
     (case X509KeyPair cr (fst s) (snd s) of
        None \<Rightarrow> Inl (Text ''invalid or mismatched inspection CA material'')
      | Some (None, k) \<Rightarrow> Inl (Text ''inspection CA is not currently usable'')
      | Some (Some cert, k) \<Rightarrow>
          refuse (\<not> usable now cert) (Text ''inspection CA is not currently usable'')
         (refuse (\<not> CheckSelfSigned cr cert) (Text ''inspection CA is not self-signed'')
         (case k of
            OtherKey \<Rightarrow> Inl (Text ''unsupported inspection CA key'')
          | ECDSA b \<Rightarrow> Inr \<lparr>Certificate = cert, key = k\<rparr>)))"

text \<open>
  A failed \<^verbatim>\<open>Flock\<close> closes a descriptor that holds no lock, which changes nothing; every
  later failure closes the locked one.  Success keeps it: the directory stays owned.
\<close>

definition Open :: "crypto \<Rightarrow> codec \<Rightarrow> string \<Rightarrow> string \<Rightarrow> time \<Rightarrow> nat \<Rightarrow> authority io" where
  "Open cr cd privateDir publicDir now r =
     bind_io (Directory privateDir 448) (\<lambda>_.
     bind_io (Directory publicDir 493) (\<lambda>_.
     bind_io (guard_io (privateDir \<noteq> publicDir) (Text ''CA public and private directories must differ'')) (\<lambda>_.
     bind_io (open_create (lockPath privateDir) 384) (\<lambda>lock.
     bind_io (attempt (flock lock)) (\<lambda>locked.
     bind_io (guard_io (ok locked) (Text ''inspection state is already owned by another process'')) (\<lambda>_.
     on_error (close_lock lock)
      (bind_io (load_state cr cd privateDir publicDir now r) (\<lambda>s.
       case check_pair cr now s of
         Inl e \<Rightarrow> raise e
       | Inr a \<Rightarrow>
           bind_io (publishCertificate cr (publishedPath publicDir) (fst s) (Certificate a)) (\<lambda>_.
           ret a)))))))))"

section \<open>The trust bundle\<close>

fun from_match :: "string \<Rightarrow> string \<Rightarrow> string option" where
  "from_match pat [] = (if pat = [] then Some [] else None)"
| "from_match pat (c # s) = (if prefix pat (c # s) then Some (c # s) else from_match pat s)"

datatype bundle_error = NotCertificates | InvalidPEM | InvalidCertificate | EncodeFailed | NoCertificates | OutOfFuel

text \<open>
  One input: the bundle so far and the number of certificates.  Every turn consumes a part of
  the input, so \<open>length\<close> of it is enough fuel when \<^verbatim>\<open>pem.Decode\<close> returns a proper rest.
\<close>

fun bundle_blocks :: "crypto \<Rightarrow> nat \<Rightarrow> bytes \<Rightarrow> bytes \<Rightarrow> nat \<Rightarrow> (bundle_error, bytes \<times> nat) result" where
  "bundle_blocks cr fuel remaining bundle count =
     (if remaining = [] then Inr (bundle, count)
      else case from_match ''-----BEGIN '' remaining of
        None \<Rightarrow> Inr (bundle, count)
      | Some remaining \<Rightarrow>
          (case fuel of
             0 \<Rightarrow> Inl OutOfFuel
           | Suc fuel \<Rightarrow>
               if \<not> prefix ''-----BEGIN CERTIFICATE-----'' remaining then Inl NotCertificates
               else case PemDecode cr remaining of
                 None \<Rightarrow> Inl InvalidPEM
               | Some (block, rest) \<Rightarrow>
                   if BlockType block \<noteq> ''CERTIFICATE'' \<or> Headers block \<noteq> 0 then Inl InvalidPEM
                   else if \<not> ParseCertificate cr (Bytes block) then Inl InvalidCertificate
                   else case PemEncodeBlock cr block of
                     None \<Rightarrow> Inl EncodeFailed
                   | Some out \<Rightarrow> bundle_blocks cr fuel (trim_space rest) (bundle @ out) (Suc count)))"

definition bundle_input :: "crypto \<Rightarrow> bytes \<Rightarrow> bytes \<Rightarrow> (bundle_error, bytes) result" where
  "bundle_input cr input bundle =
     bindR (bundle_blocks cr (length input) (trim_space input) bundle 0) (\<lambda>(bundle, count).
       refuse (count = 0) NoCertificates (Inr bundle))"

definition Bundle :: "crypto \<Rightarrow> bytes \<Rightarrow> bytes \<Rightarrow> (bundle_error, bytes) result" where
  "Bundle cr base inspectionCA = foldR (bundle_input cr) [base, inspectionCA] []"

declare join_path.simps [simp del]

section \<open>Paths without links\<close>

text \<open>Every prefix of a plain path is a directory.\<close>

definition plain :: "view \<Rightarrow> path \<Rightarrow> bool" where
  "plain v d \<longleftrightarrow> (\<forall>p. prefix p d \<longrightarrow> (\<exists>m. v p = Some (Dir m)))"

lemma plain_snoc: "plain v (d @ [x]) \<longleftrightarrow> plain v d \<and> (\<exists>m. v (d @ [x]) = Some (Dir m))"
  by (auto simp: plain_def prefix_snoc)

lemma plain_prefix: "plain v d \<Longrightarrow> prefix p d \<Longrightarrow> plain v p"
  by (auto simp: plain_def intro: prefix_order.trans)

lemma plain_self: "plain v d \<Longrightarrow> \<exists>m. v d = Some (Dir m)"
  by (simp add: plain_def)

lemma plain_root [simp]: "plain (node w) []"
  by (simp add: plain_def)

lemma plain_butlast: "plain v d \<Longrightarrow> plain v (butlast d)"
  by (erule plain_prefix) (metis append_butlast_last_id prefixI prefix_order.refl butlast.simps(1))

lemma resolve_plain:
  "proper_all xs \<Longrightarrow> plain v (cur @ xs) \<Longrightarrow> resolve k v cur xs = Inr (cur @ xs)"
proof (induction xs arbitrary: cur)
  case (Cons x xs)
  have "plain v (cur @ [x])" using Cons.prems(2) by (rule plain_prefix) simp
  then obtain m where "v (cur @ [x]) = Some (Dir m)" using plain_self by blast
  then show ?case using Cons by (simp add: proper_def)
qed simp

lemma resolve_result:
  assumes "resolve k v cur xs = Inr l" "plain v cur"
  shows "plain v l \<or> plain v (butlast l) \<and> (\<exists>n. v l = Some n \<and> (\<forall>m. n \<noteq> Dir m))"
  using assms
proof (induction k v cur xs rule: resolve.induct)
  case (2 k v cur x xs)
  show ?case
  proof (cases "x = ''..''")
    case True
    then show ?thesis using 2 plain_butlast by simp
  next
    case nodots: False
    show ?thesis
    proof (cases "x = ''.'' \<or> x = []")
      case True
      then show ?thesis using 2 nodots by auto
    next
      case False
      show ?thesis
      proof (cases "v (cur @ [x])")
        case None
        then show ?thesis using 2(5) nodots False by simp
      next
        case (Some n)
        then show ?thesis
        proof (cases n)
          case (File m d)
          then show ?thesis using 2(5,6) nodots False Some by (auto split: if_splits)
        next
          case (Socket m)
          then show ?thesis using 2(5,6) nodots False Some by (auto split: if_splits)
        next
          case (Dir m)
          then have "plain v (cur @ [x])" using 2(6) Some by (simp add: plain_snoc)
          then show ?thesis using 2(3) 2(5) nodots False Some Dir by simp
        next
          case (Symlink t)
          then show ?thesis
            using 2(4,5,6) nodots False Some
            by (cases k) (auto split: if_splits simp: plain_def)
        qed
      qed
    qed
  qed
qed simp

lemma resolve_result_proper:
  assumes "resolve k v cur xs = Inr l" "proper_all cur" "\<forall>x\<in>set xs. slash \<notin> set x"
  shows "proper_all l"
  using assms
proof (induction k v cur xs rule: resolve.induct)
  case (2 k v cur x xs)
  have b: "proper_all (butlast cur)" using 2(6) by (auto simp: proper_all_def dest: in_set_butlastD)
  show ?case
  proof (cases "x = ''..'' \<or> x = ''.'' \<or> x = []")
    case True
    then show ?thesis using 2(1,2,5-7) b by (auto split: if_splits)
  next
    case False
    then have x: "proper x" using 2(7) by (simp add: proper_def)
    obtain n where n: "v (cur @ [x]) = Some n" using 2(5) False by (cases "v (cur @ [x])") auto
    show ?thesis
    proof (cases n)
      case (File m d)
      then show ?thesis using 2(5,6) False n x by (auto split: if_splits)
    next
      case (Socket m)
      then show ?thesis using 2(5,6) False n x by (auto split: if_splits)
    next
      case (Dir m)
      then show ?thesis using 2(3) 2(5-7) False n x by simp
    next
      case (Symlink t)
      obtain k' where k: "k = Suc k'" using 2(5) False n Symlink by (cases k) auto
      have "\<forall>y\<in>set (split_on slash t @ xs). slash \<notin> set y"
        using 2(7) split_no_sep [of _ slash t] by auto
      then show ?thesis
        using 2(5,6) False n Symlink k by (intro 2(4) [of n t k']) simp_all
    qed
  qed
qed simp

lemma follow_proper: "follow v p = Inr l \<Longrightarrow> proper_all l"
  unfolding follow_def by (erule resolve_result_proper) (auto simp: elems_def dest: split_no_sep)

lemma resolve_proper: "plain v d \<Longrightarrow> proper_all d \<Longrightarrow> resolve k v [] d = Inr d"
  using resolve_plain [of d v "[]"] by simp

lemma follow_plain: "plain v (elems p) \<Longrightarrow> proper_all (elems p) \<Longrightarrow> follow v p = Inr (elems p)"
  by (simp add: follow_def resolve_proper)

lemma entry_plain:
  "elems p = d @ [f] \<Longrightarrow> plain v d \<Longrightarrow> proper_all d \<Longrightarrow> entry v p = Inr (d @ [f])"
  using plain_self [of v d] by (auto simp: entry_def resolve_proper)

lemma entry_nonroot: "entry v p = Inr l \<Longrightarrow> l = [] \<or> (\<exists>d x. l = d @ [x])"
  by (cases l rule: rev_cases) auto

section \<open>Directories are only added\<close>

text \<open>\<open>kept v0 v\<close>: whatever was there is still there, unchanged.\<close>

definition kept :: "view \<Rightarrow> view \<Rightarrow> bool" where
  "kept v0 v \<longleftrightarrow> (\<forall>q n. v0 q = Some n \<longrightarrow> v q = Some n)"

lemma kept_refl [simp]: "kept v v"
  by (simp add: kept_def)

lemma kept_trans: "kept u v \<Longrightarrow> kept v w \<Longrightarrow> kept u w"
  by (auto simp: kept_def)

lemma kept_add: "v q = None \<Longrightarrow> kept v (v(q := Some n))"
  by (auto simp: kept_def)

lemma kept_plain: "kept v0 v \<Longrightarrow> plain v0 d \<Longrightarrow> plain v d"
  unfolding kept_def plain_def by blast

definition dirs_added :: "view \<Rightarrow> view \<Rightarrow> bool" where
  "dirs_added v0 v \<longleftrightarrow> kept v0 v \<and> (\<forall>q n. v0 q = None \<longrightarrow> v q = Some n \<longrightarrow> is_dir n)"

lemma dirs_added_refl [simp]: "dirs_added v v"
  by (simp add: dirs_added_def)

lemma dirs_added_mkdir: "dirs_added v0 v \<Longrightarrow> v q = None \<Longrightarrow> dirs_added v0 (v(q := Some (Dir m)))"
  by (auto simp: dirs_added_def kept_def is_dir_def)

lemma dirs_added_file:
  "dirs_added v0 v \<Longrightarrow> v q = Some n \<Longrightarrow> \<not> is_dir n \<Longrightarrow> v0 q = Some n"
  unfolding dirs_added_def kept_def by (cases "v0 q") (fastforce simp: is_dir_def)+

lemma spec_stat:
  "spec P (stat p) (\<lambda>n v. P v \<and> (\<exists>l. follow v p = Inr l \<and> v l = Some n)) (\<lambda>_. P) P"
  unfolding stat_def
  by (rule spec_query) (auto simp: lookup_node_def bindR_def split: sum.splits option.splits)

lemma spec_lstat:
  "spec P (lstat p) (\<lambda>n v. P v \<and> (\<exists>l. entry v p = Inr l \<and> v l = Some n))
     (\<lambda>e v. P v \<and> (e = ErrNotExist \<longrightarrow> (\<forall>l. entry v p = Inr l \<longrightarrow> v l = None))) P"
  unfolding lstat_def
  by (rule spec_query) (auto simp: lookup_node_def bindR_def split: sum.splits option.splits)

lemma spec_mkdir:
  "spec (dirs_added v0) (mkdir p mode) (\<lambda>_. dirs_added v0) (\<lambda>_. dirs_added v0) (dirs_added v0)"
  unfolding mkdir_def
proof (rule spec_change)
  fix os w assume d: "dirs_added v0 (node w)"
  have "l \<noteq> [] \<Longrightarrow> node w l = None \<Longrightarrow> dirs_added v0 (node (set_node l (Dir m) w))" for l m
    using dirs_added_mkdir [OF d] by simp
  moreover have "node w l = None \<Longrightarrow> l \<noteq> []" for l by auto
  ultimately show "case bindR (entry (node w) p) (\<lambda>l. if node w l = None
        then Inr (set_node l (Dir (mode AND NOT (umask os))) w, ()) else Inl ErrExist) of
      Inl e \<Rightarrow> dirs_added v0 (node w) | Inr (w', x) \<Rightarrow> dirs_added v0 (node w')"
    using d by (auto simp: bindR_def split: sum.splits)
qed

lemma spec_mkdir_all:
  "spec (dirs_added v0) (mkdir_all mode rp) (\<lambda>_. dirs_added v0) (\<lambda>_. dirs_added v0) (dirs_added v0)"
proof (induction rp)
  case Nil
  show ?case by (simp add: spec_ret)
next
  case (Cons x xs)
  have again: "spec (dirs_added v0)
      (bind_io (attempt (lstat p)) (\<lambda>r. case r of Inr (Dir m) \<Rightarrow> ret () | _ \<Rightarrow> raise e))
      (\<lambda>_. dirs_added v0) (\<lambda>_. dirs_added v0) (dirs_added v0)" for e p
  proof (rule spec_bind [where R = "\<lambda>_. dirs_added v0"])
    show "spec (dirs_added v0) (attempt (lstat p)) (\<lambda>_. dirs_added v0) (\<lambda>_. dirs_added v0) (dirs_added v0)"
      by (rule spec_attempt, rule spec_weaken [OF spec_lstat]) auto
  qed (auto intro!: spec_intros split: sum.splits node.splits)
  have fresh: "spec (dirs_added v0)
      (bind_io (attempt (mkdir p mode)) (\<lambda>r.
         case r of Inr _ \<Rightarrow> ret () | Inl e \<Rightarrow>
           bind_io (attempt (lstat p)) (\<lambda>r. case r of Inr (Dir m) \<Rightarrow> ret () | _ \<Rightarrow> raise e)))
      (\<lambda>_. dirs_added v0) (\<lambda>_. dirs_added v0) (dirs_added v0)" for p
    by (rule spec_bind [where R = "\<lambda>_. dirs_added v0"], rule spec_attempt, rule spec_mkdir)
       (auto intro!: spec_ret again split: sum.splits)
  have "spec (dirs_added v0) (attempt (stat (abs_path (rev (x # xs))))) (\<lambda>_. dirs_added v0) (\<lambda>_. dirs_added v0) (dirs_added v0)"
    by (rule spec_attempt, rule spec_weaken [OF spec_stat]) auto
  then show ?case
    unfolding mkdir_all.simps
  proof (rule spec_bind)
    fix r :: "(io_error, node) result"
    note inner = spec_bind [OF Cons.IH fresh [of "abs_path (rev (x # xs))"]]
    show "spec (dirs_added v0)
      (case r of Inr (Dir m) \<Rightarrow> ret () | Inr _ \<Rightarrow> raise ErrNotDir
       | Inl _ \<Rightarrow> bind_io (mkdir_all mode xs) (\<lambda>_.
           bind_io (attempt (mkdir (abs_path (rev (x # xs))) mode)) (\<lambda>r.
             case r of Inr _ \<Rightarrow> ret () | Inl e \<Rightarrow>
               bind_io (attempt (lstat (abs_path (rev (x # xs)))))
                 (\<lambda>r. case r of Inr (Dir m) \<Rightarrow> ret () | _ \<Rightarrow> raise e))))
      (\<lambda>_. dirs_added v0) (\<lambda>_. dirs_added v0) (dirs_added v0)"
    proof (cases r)
      case (Inl e)
      show ?thesis unfolding Inl sum.case by (rule inner)
    next
      case (Inr n)
      then show ?thesis by (cases n) (auto intro: spec_intros)
    qed
  qed
qed

text \<open>
  What \<^verbatim>\<open>Directory\<close> establishes: the path has no links, and the directory is closed
  to others.  Whatever happens it only adds directories.
\<close>

definition private_dir :: "view \<Rightarrow> string \<Rightarrow> filemode \<Rightarrow> bool" where
  "private_dir v path mode \<longleftrightarrow>
     clean_abs path \<and> plain v (elems path) \<and>
     (\<exists>m. v (elems path) = Some (Dir m) \<and> ((m AND 511) AND (if mode = 448 then 63 else 18)) = 0)"

lemma clean_abs_proper: "clean_abs p \<Longrightarrow> proper_all (elems p)"
  using clean_abs_cases unfolding clean_abs_def by metis

lemma spec_Directory:
  "spec (dirs_added v0) (Directory path mode)
     (\<lambda>_ v. dirs_added v0 v \<and> private_dir v path mode) (\<lambda>_. dirs_added v0) (dirs_added v0)"
proof -
  let ?J = "\<lambda>v. dirs_added v0 v \<and> clean_abs path"
  have links: "spec ?J (eval_symlinks path)
      (\<lambda>a v. ?J v \<and> (a = path \<longrightarrow> follow v path = Inr (elems path))) (\<lambda>_. dirs_added v0) (dirs_added v0)"
    unfolding eval_symlinks_def
  proof (rule spec_query)
    fix w assume j: "?J (node w)"
    then obtain es where es: "proper_all es" "path = abs_path es" "elems path = es"
      using clean_abs_cases unfolding clean_abs_def by metis
    have "l = es" if "follow (node w) path = Inr l" "abs_path l = path" for l
      using that es abs_path_inject [OF follow_proper [OF that(1)] es(1)] by simp
    then show "case bindR (follow (node w) path) (\<lambda>l. Inr (abs_path l)) of
        Inl e \<Rightarrow> dirs_added v0 (node w)
      | Inr a \<Rightarrow> ?J (node w) \<and> (a = path \<longrightarrow> follow (node w) path = Inr (elems path))"
      using j es by (auto simp: bindR_def split: sum.splits)
  qed auto
  let ?F = "\<lambda>v. ?J v \<and> follow v path = Inr (elems path)"
  have final: "private_dir v path mode"
    if F: "?F v" "follow v path = Inr l" "v l = Some n" "is_dir n" "(perm n AND (if mode = 448 then 63 else 18)) = 0" "plain v []" for v l n
  proof -
    obtain m where m: "n = Dir m" using F(4) by (cases n) (auto simp: is_dir_def)
    have "plain v (elems path)"
      using resolve_result [of max_links v "[]" "elems path" "elems path"] F m by (auto simp: follow_def)
    then show ?thesis using F m by (auto simp: private_dir_def perm_def)
  qed
  have info: "spec ?F (stat path)
      (\<lambda>n v. ?F v \<and> (\<exists>l. follow v path = Inr l \<and> v l = Some n) \<and> plain v []) (\<lambda>_. dirs_added v0) (dirs_added v0)"
    unfolding stat_def
    by (rule spec_query) (auto simp: lookup_node_def bindR_def split: sum.splits option.splits)
  show ?thesis
    unfolding Directory_def Let_def
  proof (rule spec_bind [where R = "\<lambda>_. ?J"], goal_cases)
    case 1
    show ?case by (rule spec_guard) (simp_all add: clean_abs_def)
  next
    case 2
    show ?case
    proof (rule spec_bind [where R = "\<lambda>_. ?J"], goal_cases)
      case 1
      show ?case
      proof (cases "clean_abs path")
        case True
        then show ?thesis using spec_weaken [OF spec_mkdir_all] by simp
      next
        case False
        then show ?thesis by (simp add: spec_def)
      qed
    next
      case (2 u)
      show ?case
      proof (rule spec_bind [OF links], rule spec_bind [where R = "\<lambda>_. ?F"], goal_cases)
        case (1 a)
        show ?case by (rule spec_guard) auto
      next
        case (2 a b)
        show ?case by (rule spec_bind [OF info], rule spec_guard) (use final in auto)
      qed
    qed
  qed
qed

section \<open>Atomic writes\<close>

definition is_temp :: "path \<Rightarrow> path \<Rightarrow> bool" where
  "is_temp d q \<longleftrightarrow> (\<exists>s. q = d @ [temp_prefix @ s])"

text \<open>A path and the directory and name it stands for, none of them a temporary name.\<close>

definition stands_for :: "string \<Rightarrow> path \<Rightarrow> string \<Rightarrow> bool" where
  "stands_for p d f \<longleftrightarrow> elems p = d @ [f] \<and> elems (dir_name p) = d \<and> proper_all d \<and> \<not> prefix temp_prefix f"

lemma stands_for_not_temp: "stands_for p d f \<Longrightarrow> is_temp d l \<Longrightarrow> d @ [f] \<noteq> l"
  by (auto simp: stands_for_def is_temp_def)

lemma temp_not_prefix: "is_temp d l \<Longrightarrow> prefix q d \<Longrightarrow> q \<noteq> l"
  by (auto simp: is_temp_def prefix_def)

text \<open>
  The temporary file \<open>l\<close> of a write over the view \<open>v0\<close>: everything else is as it was.  \<open>n\<close>
  says what the temporary file is, if it still exists.
\<close>

definition inflight :: "view \<Rightarrow> path \<Rightarrow> path \<Rightarrow> node option \<Rightarrow> view \<Rightarrow> bool" where
  "inflight v0 d l n v \<longleftrightarrow> is_temp d l \<and> v0 l = None \<and> v = v0(l := n)"

text \<open>What an interrupted write may leave: at most a temporary file that was not there before.\<close>

definition unpublished :: "view \<Rightarrow> path \<Rightarrow> view \<Rightarrow> bool" where
  "unpublished v0 d v \<longleftrightarrow>
     v = v0 \<or> (\<exists>l n. is_temp d l \<and> v0 l = None \<and> is_regular n \<and> v = v0(l := Some n))"

definition published_as :: "view \<Rightarrow> path \<Rightarrow> path \<Rightarrow> node \<Rightarrow> view \<Rightarrow> bool" where
  "published_as v0 d t n v \<longleftrightarrow> unpublished (v0(t := Some n)) d v"

text \<open>
  What a publishing call must do for \<^verbatim>\<open>writeAtomic\<close>: put the complete temporary file at
  the target, if the target is one it may replace, or change nothing.
\<close>

locale atomic_publication =
  fixes publish :: "path \<Rightarrow> string \<Rightarrow> unit io"
    and replaceable :: "node option \<Rightarrow> bool"
  assumes publishes: "stands_for p d f \<Longrightarrow> plain v0 d \<Longrightarrow> is_regular n \<Longrightarrow>
    spec (inflight v0 d l (Some n)) (publish l p)
      (\<lambda>_ v. replaceable (v0 (d @ [f])) \<and>
        (\<exists>n'. (n' = None \<or> n' = Some n) \<and> inflight (v0(d @ [f] := Some n)) d l n' v))
      (\<lambda>_. inflight v0 d l (Some n)) (inflight v0 d l (Some n))"

lemma inflight_plain:
  assumes "inflight v0 d l n v" "plain v0 d"
  shows "plain v d"
  unfolding plain_def
proof (intro allI impI)
  fix q assume q: "prefix q d"
  then have "q \<noteq> l" using assms(1) temp_not_prefix by (auto simp: inflight_def)
  then show "\<exists>m. v q = Some (Dir m)" using assms q by (simp add: inflight_def plain_def)
qed

lemma entry_inflight:
  "stands_for p d f \<Longrightarrow> plain v0 d \<Longrightarrow> inflight v0 d l n v \<Longrightarrow> entry v p = Inr (d @ [f])"
  by (rule entry_plain) (auto simp: stands_for_def dest: inflight_plain)

lemma target_inflight:
  "stands_for p d f \<Longrightarrow> inflight v0 d l n v \<Longrightarrow> v (d @ [f]) = v0 (d @ [f])"
  using stands_for_not_temp by (auto simp: inflight_def)

interpretation by_rename: atomic_publication rename "\<lambda>x. \<forall>m. x \<noteq> Some (Dir m)"
proof unfold_locales
  fix p d f v0 n l
  assume p: "stands_for p d f" "plain v0 d" "is_regular n"
  show "spec (inflight v0 d l (Some n)) (rename l p)
      (\<lambda>_ v. (\<forall>m. v0 (d @ [f]) \<noteq> Some (Dir m)) \<and>
        (\<exists>n'. (n' = None \<or> n' = Some n) \<and> inflight (v0(d @ [f] := Some n)) d l n' v))
      (\<lambda>_. inflight v0 d l (Some n)) (inflight v0 d l (Some n))"
    unfolding rename_def
  proof (rule spec_change)
    fix os w assume i: "inflight v0 d l (Some n) (node w)"
    have l: "node w l = Some n" "l \<noteq> []" "d @ [f] \<noteq> l" "is_temp d l" "v0 l = None"
      using i stands_for_not_temp [OF p(1)] by (auto simp: inflight_def is_temp_def)
    have w: "node w = v0(l := Some n)" using i by (simp add: inflight_def)
    have "inflight (v0(d @ [f] := Some n)) d l None (node (set_node (d @ [f]) n (del_node l w)))"
      using l by (auto simp: inflight_def w)
    then show "case bindR (entry (node w) p) (\<lambda>l'. case node w l of None \<Rightarrow> Inl ErrNotExist
        | Some n \<Rightarrow> (case node w l' of Some (Dir m) \<Rightarrow> Inl ErrExist
            | _ \<Rightarrow> Inr (set_node l' n (del_node l w), ()))) of
        Inl e \<Rightarrow> inflight v0 d l (Some n) (node w)
      | Inr (w', x) \<Rightarrow> (\<forall>m. v0 (d @ [f]) \<noteq> Some (Dir m)) \<and>
          (\<exists>n'. (n' = None \<or> n' = Some n) \<and> inflight (v0(d @ [f] := Some n)) d l n' (node w'))"
      using i l(1) target_inflight [OF p(1) i]
      by (auto simp: entry_inflight [OF p(1,2) i] split: option.splits node.splits)
  qed auto
qed

interpretation by_link: atomic_publication link "\<lambda>x. x = None"
proof unfold_locales
  fix p d f v0 n l
  assume p: "stands_for p d f" "plain v0 d" "is_regular n"
  show "spec (inflight v0 d l (Some n)) (link l p)
      (\<lambda>_ v. v0 (d @ [f]) = None \<and>
        (\<exists>n'. (n' = None \<or> n' = Some n) \<and> inflight (v0(d @ [f] := Some n)) d l n' v))
      (\<lambda>_. inflight v0 d l (Some n)) (inflight v0 d l (Some n))"
    unfolding link_def
  proof (rule spec_change)
    fix os w assume i: "inflight v0 d l (Some n) (node w)"
    have l: "node w l = Some n" "d @ [f] \<noteq> l" "is_temp d l" "v0 l = None"
      using i stands_for_not_temp [OF p(1)] by (auto simp: inflight_def is_temp_def)
    have "inflight (v0(d @ [f] := Some n)) d l (Some n) (node (set_node (d @ [f]) n w))"
      using i l by (auto simp: inflight_def)
    then show "case bindR (entry (node w) p) (\<lambda>l'. case node w l of None \<Rightarrow> Inl ErrNotExist
        | Some n \<Rightarrow> if node w l' = None then Inr (set_node l' n w, ()) else Inl ErrExist) of
        Inl e \<Rightarrow> inflight v0 d l (Some n) (node w)
      | Inr (w', x) \<Rightarrow> v0 (d @ [f]) = None \<and>
          (\<exists>n'. (n' = None \<or> n' = Some n) \<and> inflight (v0(d @ [f] := Some n)) d l n' (node w'))"
      using i l(1) target_inflight [OF p(1) i]
      by (auto simp: entry_inflight [OF p(1,2) i] split: option.splits)
  qed auto
qed

lemma spec_create_temp:
  assumes "stands_for p d f"
  shows "spec (\<lambda>v. v = v0 \<and> plain v0 d) (create_temp_tries k (dir_name p))
     (\<lambda>l v. plain v0 d \<and> (\<exists>m. inflight v0 d l (Some (File m [])) v)) (\<lambda>_ v. v = v0) (\<lambda>v. v = v0)"
proof (induction k)
  case 0
  show ?case unfolding create_temp_tries.simps by (rule spec_raise) simp
next
  case (Suc k)
  let ?P = "\<lambda>v. v = v0 \<and> plain v0 d"
  let ?Q = "\<lambda>l v. plain v0 d \<and> (\<exists>m. inflight v0 d l (Some (File m [])) v)"
  have d: "elems (dir_name p) = d" "proper_all d" using assms by (auto simp: stands_for_def)
  have create: "spec ?P (create_excl (dir_name p)) ?Q (\<lambda>_. ?P) (\<lambda>v. v = v0)"
    unfolding create_excl_def
  proof (rule spec_change)
    fix os w assume p: "?P (node w)"
    then obtain m where m: "node w d = Some (Dir m)" using plain_self by blast
    let ?l = "d @ [temp_prefix @ suffix_of os (clock w)]"
    have l: "?l \<noteq> []" "is_temp d ?l" by (auto simp: is_temp_def)
    have f: "follow (node w) (dir_name p) = Inr d" using follow_plain [of "node w" "dir_name p"] p d by simp
    show "case bindR (follow (node w) (dir_name p)) (\<lambda>d. case node w d of Some (Dir m) \<Rightarrow>
          (let l = d @ [temp_prefix @ suffix_of os (clock w)] in
           if node w l = None then Inr (set_node l (File (384 AND NOT (umask os)) []) w, l) else Inl ErrExist)
        | _ \<Rightarrow> Inl ErrNotDir) of
        Inl e \<Rightarrow> ?P (node w) | Inr (w', x) \<Rightarrow> ?Q x (node w')"
      using p l by (auto simp: f m Let_def inflight_def)
  qed auto
  show ?case
    unfolding create_temp_tries.simps
  proof (rule spec_bind [where R = "\<lambda>r v. case r of Inr l \<Rightarrow> ?Q l v | Inl e \<Rightarrow> ?P v"])
    show "spec ?P (attempt (create_excl (dir_name p))) (\<lambda>r v. case r of Inr l \<Rightarrow> ?Q l v | Inl e \<Rightarrow> ?P v)
        (\<lambda>_ v. v = v0) (\<lambda>v. v = v0)"
      by (rule spec_attempt) (use create in simp)
    fix r :: "(io_error, path) result"
    show "spec (\<lambda>v. case r of Inr l \<Rightarrow> ?Q l v | Inl e \<Rightarrow> ?P v)
        (case r of Inr l \<Rightarrow> ret l | Inl e \<Rightarrow> if e = ErrExist then create_temp_tries k (dir_name p) else raise e)
        ?Q (\<lambda>_ v. v = v0) (\<lambda>v. v = v0)"
    proof (cases r)
      case (Inl e)
      have "spec ?P (raise e) ?Q (\<lambda>_ v. v = v0) (\<lambda>v. v = v0)" by (rule spec_raise) simp
      then show ?thesis using Suc.IH Inl by simp
    next
      case (Inr l)
      have "spec (?Q l) (ret l) ?Q (\<lambda>_ v. v = v0) (\<lambda>v. v = v0)" by (rule spec_ret)
      then show ?thesis using Inr by simp
    qed
  qed
qed

lemma spec_chmod:
  "spec (\<lambda>v. \<exists>m. inflight v0 d l (Some (File m b)) v) (chmod l mode)
     (\<lambda>_. inflight v0 d l (Some (File mode b))) (\<lambda>_ v. \<exists>m. inflight v0 d l (Some (File m b)) v)
     (\<lambda>v. \<exists>m. inflight v0 d l (Some (File m b)) v)"
  unfolding chmod_def
proof (rule spec_change)
  fix os w assume "\<exists>m. inflight v0 d l (Some (File m b)) (node w)"
  then obtain m where i: "inflight v0 d l (Some (File m b)) (node w)" ..
  then have l: "l \<noteq> []" "node w l = Some (File m b)" by (auto simp: inflight_def is_temp_def)
  then show "case (case node w l of Some (File m d) \<Rightarrow> Inr (set_node l (File mode d) w, ()) | _ \<Rightarrow> Inl ErrIO) of
      Inl e \<Rightarrow> \<exists>m. inflight v0 d l (Some (File m b)) (node w)
    | Inr (w', x) \<Rightarrow> inflight v0 d l (Some (File mode b)) (node w')"
    using i by (simp add: inflight_def)
qed auto

lemma spec_write:
  "spec (inflight v0 d l (Some (File m []))) (write_file l data)
     (\<lambda>_. inflight v0 d l (Some (File m data))) (\<lambda>_ v. \<exists>b. inflight v0 d l (Some (File m b)) v)
     (\<lambda>v. \<exists>b. inflight v0 d l (Some (File m b)) v)"
proof (rule specI)
  fix os w r w'
  assume i: "inflight v0 d l (Some (File m [])) (node w)" and run: "write_file l data os w = (r, w')"
  then have l: "l \<noteq> []" "node w l = Some (File m [])" by (auto simp: inflight_def is_temp_def)
  then have s: "inflight v0 d l (Some (File m x)) (node (store l x w))" for x
    using i by (simp add: store_def inflight_def)
  show "case r of Done x \<Rightarrow> inflight v0 d l (Some (File m data)) (node w')
    | Failed e \<Rightarrow> \<exists>b. inflight v0 d l (Some (File m b)) (node w')
    | Killed \<Rightarrow> \<exists>b. inflight v0 d l (Some (File m b)) (node w')"
    using run s exI [of "\<lambda>b. inflight v0 d l (Some (File m b)) (node (store l x w))" for x]
    by (auto simp: write_file_def sys_def split: event.splits) (metis s)+
qed

lemma spec_silent:
  "spec P sync (\<lambda>_. P) (\<lambda>_. P) P" "spec P close (\<lambda>_. P) (\<lambda>_. P) P" "spec P (open_dir p) (\<lambda>_. P) (\<lambda>_. P) P"
  unfolding sync_def close_def open_dir_def by (rule spec_query; auto split: sum.splits)+

lemma inflight_unpublished:
  assumes "inflight v0 d l n v" "\<forall>x. n = Some x \<longrightarrow> is_regular x"
  shows "unpublished v0 d v"
proof (cases n)
  case None
  then have "v = v0" using assms(1) by (auto simp: inflight_def)
  then show ?thesis by (simp add: unpublished_def)
next
  case (Some x)
  then show ?thesis using assms by (auto simp: inflight_def unpublished_def)
qed

lemma spec_remove_temp:
  "spec (\<lambda>v. \<exists>n. inflight v0 d l n v \<and> (\<forall>x. n = Some x \<longrightarrow> is_regular x)) (remove_file l)
     (\<lambda>_. unpublished v0 d) (\<lambda>_. unpublished v0 d) (unpublished v0 d)"
  unfolding remove_file_def
proof (rule spec_change)
  fix os w assume "\<exists>n. inflight v0 d l n (node w) \<and> (\<forall>x. n = Some x \<longrightarrow> is_regular x)"
  then obtain n where i: "inflight v0 d l n (node w)" "\<forall>x. n = Some x \<longrightarrow> is_regular x" by blast
  then have l: "l \<noteq> []" "v0 l = None" by (auto simp: inflight_def is_temp_def)
  then have "(node w)(l := None) = v0" using i(1) by (auto simp: inflight_def)
  moreover have "unpublished v0 d (node w)"
    using i by (rule inflight_unpublished)
  ultimately show "case (if node w l = None then Inl ErrNotExist else Inr (del_node l w, ())) of
      Inl e \<Rightarrow> unpublished v0 d (node w) | Inr (w', x) \<Rightarrow> unpublished v0 d (node w')"
    using l by (simp add: unpublished_def)
qed (blast intro: inflight_unpublished)+

context atomic_publication
begin

text \<open>
  The contract of \<^verbatim>\<open>writeAtomic\<close>: on success the target is the complete file; after any
  failure or kill the target is either as before or the complete file, and at most one new
  temporary file is left.
\<close>

lemma spec_writeAtomic:
  assumes p: "stands_for p d f"
  shows "spec (\<lambda>v. v = v0 \<and> plain v0 d) (writeAtomic p data mode publish)
     (\<lambda>_ v. replaceable (v0 (d @ [f])) \<and> published_as v0 d (d @ [f]) (File mode data) v)
     (\<lambda>_ v. unpublished v0 d v \<or> replaceable (v0 (d @ [f])) \<and> published_as v0 d (d @ [f]) (File mode data) v)
     (\<lambda>v. unpublished v0 d v \<or> replaceable (v0 (d @ [f])) \<and> published_as v0 d (d @ [f]) (File mode data) v)"
proof -
  let ?t = "d @ [f]" let ?n = "File mode data" let ?v1 = "v0(?t := Some ?n)"
  let ?yes = "\<lambda>l v. replaceable (v0 ?t) \<and> (\<exists>n. (n = None \<or> n = Some ?n) \<and> inflight ?v1 d l n v)"
  let ?no = "\<lambda>l v. \<exists>m b. inflight v0 d l (Some (File m b)) v"
  let ?any = "\<lambda>v. unpublished v0 d v \<or> replaceable (v0 ?t) \<and> published_as v0 d ?t ?n v"
  let ?fin = "\<lambda>l v. ?no l v \<or> ?yes l v"
  have no: "?no l v \<Longrightarrow> unpublished v0 d v" for l v
    using inflight_unpublished [of v0 d l] by (fastforce simp: is_regular_def)
  have yes: "?yes l v \<Longrightarrow> published_as v0 d ?t ?n v" for l v
    unfolding published_as_def using inflight_unpublished [of ?v1 d l] by (fastforce simp: is_regular_def)
  have body: "spec (\<lambda>v. \<exists>m. inflight v0 d l (Some (File m [])) v)
      (bind_io (chmod l mode) (\<lambda>_. bind_io (write_file l data) (\<lambda>_. bind_io sync (\<lambda>_. bind_io close (\<lambda>_.
       bind_io (publish l p) (\<lambda>_. bind_io (open_dir (dir_name p)) (\<lambda>dir. deferring close sync)))))))
      (\<lambda>_. ?yes l) (\<lambda>_. ?fin l) ?any" if pl: "plain v0 d" for l
  proof (rule spec_bind, rule spec_weaken [OF spec_chmod], assumption, assumption, goal_cases)
    case (3 u)
    show ?case
    proof (rule spec_bind, rule spec_weaken [OF spec_write], assumption, assumption, goal_cases)
      case (3 u)
      let ?w = "inflight v0 d l (Some ?n)"
      have q: "spec ?w a (\<lambda>_. ?w) (\<lambda>_. ?fin l) ?any" if "spec ?w a (\<lambda>_. ?w) (\<lambda>_. ?w) ?w" for a :: "unit io"
        by (rule spec_weaken [OF that]) (use no in blast)+
      have pub: "spec ?w (publish l p) (\<lambda>_. ?yes l) (\<lambda>_. ?fin l) ?any"
        by (rule spec_weaken [OF publishes [OF p pl, of ?n l]]) (use no in \<open>auto simp: is_regular_def\<close>)
      show ?case
      proof (rule spec_bind [OF q [OF spec_silent(1)]], rule spec_bind [OF q [OF spec_silent(2)]],
          rule spec_bind [OF pub], goal_cases)
        case (1 u1 u2 u3)
        have s: "spec (?yes l) a (\<lambda>_. ?yes l) (\<lambda>_. ?fin l) ?any" if "spec (?yes l) a (\<lambda>_. ?yes l) (\<lambda>_. ?yes l) (?yes l)" for a :: "'x io"
          by (rule spec_weaken [OF that]) (use yes in blast)+
        have "spec (?yes l) (deferring close sync) (\<lambda>_. ?yes l) (\<lambda>_. ?yes l) (?yes l)"
          by (rule spec_deferring [OF spec_silent(1,2,2)])
        then show ?case by (rule spec_bind [OF s [OF spec_silent(3)] s])
      qed
    qed (use no in blast)+
  qed (use no in blast)+
  have cleanup: "spec (?fin l) (remove_file l) (\<lambda>_. ?any) (\<lambda>_. ?any) ?any" for l
  proof -
    have 1: "spec (?no l) (remove_file l) (\<lambda>_. ?any) (\<lambda>_. ?any) ?any"
      by (rule spec_weaken [OF spec_remove_temp [of v0 d l]]) (auto simp: is_regular_def)
    have 2: "spec (?yes l) (remove_file l) (\<lambda>_. ?any) (\<lambda>_. ?any) ?any"
    proof (cases "replaceable (v0 ?t)")
      case True
      show ?thesis
        by (rule spec_weaken [OF spec_remove_temp [of ?v1 d l]]) (auto simp: is_regular_def published_as_def True)
    qed (simp add: spec_def)
    show ?thesis by (rule spec_disj [OF 1 2])
  qed
  have kept: "spec (?yes l) (remove_file l)
      (\<lambda>_ v. replaceable (v0 ?t) \<and> published_as v0 d ?t ?n v)
      (\<lambda>_ v. replaceable (v0 ?t) \<and> published_as v0 d ?t ?n v) ?any" for l
  proof (cases "replaceable (v0 ?t)")
    case True
    show ?thesis
      by (rule spec_weaken [OF spec_remove_temp [of ?v1 d l]]) (auto simp: is_regular_def published_as_def True)
  qed (simp add: spec_def)
  show ?thesis
  proof (cases "plain v0 d")
    case True
    have closed: "spec P close (\<lambda>_. P) (\<lambda>_. P) ?any" if "\<And>v. P v \<Longrightarrow> ?any v" for P
      by (rule spec_weaken [OF spec_silent(2) [of P]]) (use that in auto)
    show ?thesis
      unfolding writeAtomic_def create_temp_def
    proof (rule spec_bind, rule spec_weaken [OF spec_create_temp [OF p]], assumption, assumption, goal_cases)
      case (3 l)
      have "spec (\<lambda>v. \<exists>m. inflight v0 d l (Some (File m [])) v)
        (deferring close (bind_io (chmod l mode) (\<lambda>_. bind_io (write_file l data) (\<lambda>_. bind_io sync (\<lambda>_. bind_io close (\<lambda>_.
         bind_io (publish l p) (\<lambda>_. bind_io (open_dir (dir_name p)) (\<lambda>dir. deferring close sync))))))))
        (\<lambda>_. ?yes l) (\<lambda>_. ?fin l) ?any"
        by (rule spec_deferring [OF body [OF True] closed closed]) (use no yes in blast)+
      then have "spec (\<lambda>v. \<exists>m. inflight v0 d l (Some (File m [])) v)
        (deferring (remove_file l) (deferring close (bind_io (chmod l mode) (\<lambda>_. bind_io (write_file l data) (\<lambda>_. bind_io sync (\<lambda>_. bind_io close (\<lambda>_.
         bind_io (publish l p) (\<lambda>_. bind_io (open_dir (dir_name p)) (\<lambda>dir. deferring close sync)))))))))
        (\<lambda>_ v. replaceable (v0 ?t) \<and> published_as v0 d ?t ?n v) (\<lambda>_. ?any) ?any"
        by (rule spec_deferring [OF _ kept cleanup])
      then show ?case using True by simp
    qed (auto simp: unpublished_def)
  qed (simp add: spec_def)
qed

end

section \<open>What opening keeps\<close>

lemma spec_pointwise:
  assumes "\<And>u. P u \<Longrightarrow> spec (\<lambda>v. v = u) a Q E X"
  shows "spec P a Q E X"
proof (rule specI)
  fix os w r w'
  assume "P (node w)" "a os w = (r, w')"
  from specD [OF assms [OF this(1)] refl this(2)]
  show "case r of Done x \<Rightarrow> Q x (node w') | Failed e \<Rightarrow> E e (node w') | Killed \<Rightarrow> X (node w')" .
qed

lemma unpublished_kept: "unpublished v0 d v \<Longrightarrow> kept v0 v"
  by (auto simp: unpublished_def kept_def)

lemma published_kept:
  assumes "published_as v0 d t n v" "v0 t = None"
  shows "kept v0 v" "v t = Some n"
proof -
  have k: "kept (v0(t := Some n)) v" using assms(1) by (simp add: published_as_def unpublished_kept)
  have "kept v0 (v0(t := Some n))" using assms(2) by (rule kept_add)
  then show "kept v0 v" using k by (rule kept_trans)
  have "(v0(t := Some n)) t = Some n" by simp
  then show "v t = Some n" using k unfolding kept_def by blast
qed

text \<open>The two validated directories of an opening authority, and the view it started from.\<close>

definition started :: "view \<Rightarrow> string \<Rightarrow> string \<Rightarrow> view \<Rightarrow> bool" where
  "started v0 a b v \<longleftrightarrow>
     kept v0 v \<and> clean_abs a \<and> clean_abs b \<and> plain v (elems a) \<and> plain v (elems b)"

lemma started_kept: "started v0 a b u \<Longrightarrow> kept u v \<Longrightarrow> started v0 a b v"
  unfolding started_def using kept_trans kept_plain by metis

lemma started_swap: "started v0 a b v \<longleftrightarrow> started v0 b a v"
  by (auto simp: started_def)

lemma names_in:
  assumes "clean_abs a" "proper f"
  shows "elems (join_path [a, f]) = elems a @ [f]" "elems (dir_name (join_path [a, f])) = elems a"
    "proper_all (elems a)"
proof -
  obtain es where es: "proper_all es" "a = abs_path es" "elems a = es"
    using assms(1) clean_abs_cases unfolding clean_abs_def by metis
  then have j: "join_path [a, f] = abs_path (es @ [f])" "proper_all (es @ [f])"
    using join_path_abs assms(2) by simp_all
  then show "elems (join_path [a, f]) = elems a @ [f]" "proper_all (elems a)" using es by (simp_all add: go_simps)
  have f: "slash \<notin> set f" using assms(2) by (simp add: proper_def)
  have "abs_path (es @ [f]) = (if es = [] then ''/'' else abs_path es @ ''/'') @ f"
    by (cases "es = []") (simp_all add: abs_path_def join_with_append_elem)
  then have "rev (dropWhile (\<lambda>c. c \<noteq> slash) (rev (abs_path (es @ [f])))) = (if es = [] then ''/'' else abs_path es @ ''/'')"
    using f by (auto simp: dropWhile_append)
  then have d: "dir_name (abs_path (es @ [f])) = clean (if es = [] then ''/'' else abs_path es @ ''/'')"
    by (simp add: dir_name_def)
  have "clean (if es = [] then ''/'' else abs_path es @ ''/'') = abs_path es"
  proof (cases "es = []")
    case True
    then show ?thesis by (simp add: clean_def clean_elems_def clean_step.simps is_abs_def abs_path_def Let_def)
  next
    case False
    have "split_on slash (abs_path es @ [slash]) = split_on slash (abs_path es) @ [[]]"
      using split_append [of slash "abs_path es" "[]"] by simp
    moreover have "split_on slash (abs_path es) = [] # es" using split_abs_path [OF es(1)] False by simp
    moreover have "is_abs (abs_path es @ [slash])" by (simp add: abs_path_def is_abs_def)
    ultimately show ?thesis
      using False es(1) by (simp add: clean_def clean_elems_def fold_clean_proper clean_step.simps)
  qed
  then show "elems (dir_name (join_path [a, f])) = elems a" using j es d by (simp add: go_simps)
qed

lemma stands_for_in:
  "clean_abs a \<Longrightarrow> proper f \<Longrightarrow> \<not> prefix temp_prefix f \<Longrightarrow> stands_for (join_path [a, f]) (elems a) f"
  using names_in by (auto simp: stands_for_def)

lemma file_names: "proper ''.lock''" "proper CAStateFile" "proper CACertificateFile"
  "\<not> prefix temp_prefix ''.lock''" "\<not> prefix temp_prefix CAStateFile" "\<not> prefix temp_prefix CACertificateFile"
  by (simp_all add: proper_def CAStateFile_def CACertificateFile_def temp_prefix_def)

lemma entry_in: "clean_abs a \<Longrightarrow> proper f \<Longrightarrow> plain v (elems a) \<Longrightarrow> entry v (join_path [a, f]) = Inr (elems a @ [f])"
  using names_in by (intro entry_plain) auto

lemma spec_readPrivate:
  assumes "\<And>v. P v \<Longrightarrow> entry v p = Inr l"
  shows "spec P (readPrivate p)
     (\<lambda>raw v. P v \<and> (\<exists>m. v l = Some (File m raw) \<and> ((m AND 511) AND 63) = 0 \<and> int (length raw) \<le> 65536))
     (\<lambda>e v. P v \<and> (e = ErrNotExist \<longrightarrow> v l = None)) P"
proof -
  let ?E = "\<lambda>e v. P v \<and> (e = ErrNotExist \<longrightarrow> v l = None)"
  let ?Q = "\<lambda>raw v. P v \<and> (\<exists>m. v l = Some (File m raw) \<and> ((m AND 511) AND 63) = 0 \<and> int (length raw) \<le> 65536)"
  have 1: "spec P (open_read p) (\<lambda>h v. P v \<and> h = l \<and> (\<exists>n. v l = Some n)) ?E P"
    unfolding open_read_def
    by (rule spec_query) (auto simp: assms split: option.splits node.splits)
  have 2: "spec (\<lambda>v. P v \<and> h = l \<and> (\<exists>n. v l = Some n)) (fstat h)
      (\<lambda>n v. P v \<and> h = l \<and> v l = Some n) ?E P" for h
    unfolding fstat_def by (rule spec_query) (auto simp: lookup_node_def split: option.splits)
  have 3: "spec (\<lambda>v. P v \<and> h = l \<and> v l = Some n)
      (guard_io (is_regular n \<and> (perm n AND 63) = 0 \<and> node_size n \<le> 65536) (Text ''unsafe inspection CA state file''))
      (\<lambda>_ v. P v \<and> h = l \<and> (\<exists>m d. v l = Some (File m d) \<and> ((m AND 511) AND 63) = 0 \<and> int (length d) \<le> 65536)) ?E P" for h n
    by (rule spec_guard) (auto simp: is_regular_def perm_def node_size_def split: node.splits)
  have 4: "spec (\<lambda>v. P v \<and> h = l \<and> (\<exists>m d. v l = Some (File m d) \<and> ((m AND 511) AND 63) = 0 \<and> int (length d) \<le> 65536))
      (read_handle h 65536) ?Q ?E P" for h
    unfolding read_handle_def by (rule spec_query) auto
  have 5: "spec R close (\<lambda>_. R) (\<lambda>_. R) P" if "\<And>v. R v \<Longrightarrow> P v" for R
    by (rule spec_weaken [OF spec_silent(2) [of R]]) (use that in auto)
  show ?thesis
    unfolding readPrivate_def
    by (rule spec_bind [OF 1], rule spec_deferring, rule spec_bind [OF 2], rule spec_bind [OF 3], rule 4)
       (rule 5, blast)+
qed

lemma kept_target: "kept v0 u \<Longrightarrow> u q = None \<Longrightarrow> v0 q = None"
  by (cases "v0 q") (auto simp: kept_def)

text \<open>Writing the state where there is none, and publishing by a link, keep everything.\<close>

lemma started_unpublished: "started v0 a b u \<Longrightarrow> unpublished u d v \<Longrightarrow> started v0 a b v"
  by (rule started_kept [OF _ unpublished_kept])

lemma started_published:
  assumes "started v0 a b u" "published_as u d t n v" "u t = None"
  shows "started v0 a b v \<and> v t = Some n"
  using published_kept [OF assms(2,3)] started_kept [OF assms(1)] by simp

lemma spec_WriteAtomic_new:
  assumes "proper f" "\<not> prefix temp_prefix f"
  shows "spec (\<lambda>v. started v0 a b v \<and> v (elems a @ [f]) = None) (WriteAtomic (join_path [a, f]) data mode)
     (\<lambda>_ v. started v0 a b v \<and> v (elems a @ [f]) = Some (File mode data)) (\<lambda>_. started v0 a b) (started v0 a b)"
proof (rule spec_pointwise)
  fix u assume u: "started v0 a b u \<and> u (elems a @ [f]) = None"
  then have s: "stands_for (join_path [a, f]) (elems a) f" "plain u (elems a)"
    using assms by (auto simp: started_def intro: stands_for_in)
  show "spec (\<lambda>v. v = u) (WriteAtomic (join_path [a, f]) data mode)
     (\<lambda>_ v. started v0 a b v \<and> v (elems a @ [f]) = Some (File mode data)) (\<lambda>_. started v0 a b) (started v0 a b)"
    unfolding WriteAtomic_def
  proof (rule spec_weaken [OF by_rename.spec_writeAtomic [OF s(1), of u]], goal_cases)
    case (1 v)
    then show ?case using s(2) by simp
  next
    case (2 x v)
    then show ?case using started_published [OF u [THEN conjunct1]] u by blast
  next
    case (3 e v)
    then show ?case using started_unpublished [OF u [THEN conjunct1]] started_published [OF u [THEN conjunct1]] u by blast
  next
    case (4 v)
    then show ?case using started_unpublished [OF u [THEN conjunct1]] started_published [OF u [THEN conjunct1]] u by blast
  qed
qed

lemma spec_link_new:
  assumes "proper f" "\<not> prefix temp_prefix f"
  shows "spec (started v0 a b) (writeAtomic (join_path [b, f]) data mode link)
     (\<lambda>_ v. started v0 a b v \<and> v (elems b @ [f]) = Some (File mode data)) (\<lambda>_. started v0 a b) (started v0 a b)"
proof (rule spec_pointwise)
  fix u assume u: "started v0 a b u"
  then have s: "stands_for (join_path [b, f]) (elems b) f" "plain u (elems b)"
    using assms by (auto simp: started_def intro: stands_for_in)
  show "spec (\<lambda>v. v = u) (writeAtomic (join_path [b, f]) data mode link)
     (\<lambda>_ v. started v0 a b v \<and> v (elems b @ [f]) = Some (File mode data)) (\<lambda>_. started v0 a b) (started v0 a b)"
  proof (rule spec_weaken [OF by_link.spec_writeAtomic [OF s(1), of u]], goal_cases)
    case (1 v)
    then show ?case using s(2) by simp
  next
    case (2 x v)
    then show ?case using started_published [OF u] by blast
  next
    case (3 e v)
    then show ?case using started_unpublished [OF u] started_published [OF u] by blast
  next
    case (4 v)
    then show ?case using started_unpublished [OF u] started_published [OF u] by blast
  qed
qed

lemma spec_open_create:
  assumes "proper f"
  shows "spec (started v0 a b) (open_create (join_path [a, f]) mode)
     (\<lambda>_. started v0 a b) (\<lambda>_. started v0 a b) (started v0 a b)"
  unfolding open_create_def
proof (rule spec_change)
  fix os w assume s: "started v0 a b (node w)"
  let ?l = "elems a @ [f]"
  have e: "entry (node w) (join_path [a, f]) = Inr ?l"
    using s assms by (intro entry_in) (auto simp: started_def)
  have "started v0 a b (node (set_node ?l n w))" if "node w ?l = None" for n
    using started_kept [OF s kept_add [of "node w" ?l n]] that by simp
  then show "case bindR (entry (node w) (join_path [a, f])) (\<lambda>l. case node w l of
        None \<Rightarrow> Inr (set_node l (File (mode AND NOT (umask os)) []) w, l) | Some (Symlink t) \<Rightarrow> Inl ErrLoop
      | Some (File m d) \<Rightarrow> Inr (w, l) | Some n \<Rightarrow> Inl ErrIO) of
      Inl e \<Rightarrow> started v0 a b (node w) | Inr (w', x) \<Rightarrow> started v0 a b (node w')"
    using s by (auto simp: e split: option.splits node.splits)
qed auto

lemma spec_flock: "spec P (flock l) (\<lambda>_. P) (\<lambda>_. P) P"
  unfolding flock_def by (rule spec_change) auto

lemma spec_close_lock: "spec P (close_lock l) (\<lambda>_. P) (\<lambda>_. P) P"
  by (rule specI) (auto simp: close_lock_def sys_def split: event.splits)

text \<open>The private state holds the pair \<open>s\<close>, in a file no one else may read.\<close>

definition state_holds :: "codec \<Rightarrow> string \<Rightarrow> bytes \<times> bytes \<Rightarrow> view \<Rightarrow> bool" where
  "state_holds cd a s v \<longleftrightarrow>
     (\<exists>m raw. v (elems a @ [CAStateFile]) = Some (File m raw) \<and> ((m AND 511) AND 63) = 0 \<and>
        (UnmarshalState cd raw = Some s \<or> MarshalState cd s = Some raw))"

lemma state_holds_kept: "state_holds cd a s u \<Longrightarrow> kept u v \<Longrightarrow> state_holds cd a s v"
  unfolding state_holds_def kept_def by blast

text \<open>Existing state is what is loaded.\<close>

definition loaded_from :: "codec \<Rightarrow> view \<Rightarrow> string \<Rightarrow> bytes \<times> bytes \<Rightarrow> bool" where
  "loaded_from cd v0 a s \<longleftrightarrow>
     (\<forall>n. v0 (elems a @ [CAStateFile]) = Some n \<longrightarrow> (\<exists>m raw. n = File m raw \<and> UnmarshalState cd raw = Some s))"

lemma spec_create_state:
  fixes v0 a b defines "S \<equiv> started v0 a b" and "t \<equiv> elems a @ [CAStateFile]"
  shows "spec (\<lambda>v. S v \<and> v t = None) (create_state cr cd a b now r)
     (\<lambda>s v. S v \<and> state_holds cd a s v \<and> loaded_from cd v0 a s) (\<lambda>_. S) S"
proof -
  let ?none = "\<lambda>v. S v \<and> v t = None"
  let ?Q = "\<lambda>s v. S v \<and> state_holds cd a s v \<and> loaded_from cd v0 a s"
  have q: "spec ?none c (\<lambda>_. ?none) (\<lambda>_. S) S" if "spec ?none c (\<lambda>_. ?none) (\<lambda>_. ?none) ?none" for c :: "'x io"
    by (rule spec_weaken [OF that]) auto
  have 1: "spec ?none (attempt (lstat (publishedPath b))) (\<lambda>_. ?none) (\<lambda>_. S) S"
    by (rule q, rule spec_attempt, rule spec_weaken [OF spec_lstat [of ?none]]) auto
  have 2: "spec ?none (guard_io c e) (\<lambda>_. ?none) (\<lambda>_. S) S" for c e
    by (rule spec_guard) auto
  have 3: "spec ?none (read_dir a) (\<lambda>_. ?none) (\<lambda>_. S) S"
    unfolding read_dir_def by (rule q, rule spec_query) (auto simp: bindR_def split: sum.splits)
  have w: "spec ?none (bind_io (WriteAtomic (statePath a) raw 384) (\<lambda>_. ret s)) ?Q (\<lambda>_. S) S"
    if raw: "MarshalState cd s = Some raw" for s raw
  proof (rule spec_bind)
    show "spec ?none (WriteAtomic (statePath a) raw 384) (\<lambda>_ v. (S v \<and> v t = Some (File 384 raw)) \<and> v0 t = None) (\<lambda>_. S) S"
    proof (cases "v0 t = None")
      case True
      show ?thesis
        unfolding S_def t_def statePath_def
        by (rule spec_weaken [OF spec_WriteAtomic_new [OF file_names(2,5)]]) (use True in \<open>auto simp: t_def\<close>)
    next
      case False
      then have "\<not> (S v \<and> v t = None)" for v by (auto simp: S_def started_def kept_def)
      then show ?thesis by (simp add: spec_def del: de_Morgan_conj)
    qed
    show "spec (\<lambda>v. (S v \<and> v t = Some (File 384 raw)) \<and> v0 t = None) (ret s) ?Q (\<lambda>_. S) S"
      by (rule spec_ret) (use raw in \<open>auto simp: state_holds_def loaded_from_def t_def\<close>)
  qed
  show ?thesis
    unfolding create_state_def
  proof (rule spec_bind [OF 1], rule spec_bind [OF 2], rule spec_bind [OF 3], rule spec_bind [OF 2], goal_cases)
    case (1 e u1 entries u2)
    show ?case
    proof (cases "generate cr now r")
      case None
      then show ?thesis by (auto intro: spec_raise)
    next
      case (Some s)
      then show ?thesis using w by (cases "MarshalState cd s") (auto intro: spec_raise)
    qed
  qed
qed

lemma spec_load_state:
  "spec (started v0 a b) (load_state cr cd a b now r)
     (\<lambda>s v. started v0 a b v \<and> state_holds cd a s v \<and> loaded_from cd v0 a s)
     (\<lambda>_. started v0 a b) (started v0 a b)"
proof -
  let ?S = "started v0 a b" and ?t = "elems a @ [CAStateFile]"
  let ?Q = "\<lambda>s v. ?S v \<and> state_holds cd a s v \<and> loaded_from cd v0 a s"
  let ?R = "\<lambda>raw v. ?S v \<and> (case raw of
      Inr raw \<Rightarrow> \<exists>m. v ?t = Some (File m raw) \<and> ((m AND 511) AND 63) = 0
    | Inl e \<Rightarrow> e = ErrNotExist \<longrightarrow> v ?t = None)"
  have e: "?S v \<Longrightarrow> entry v (statePath a) = Inr ?t" for v
    using file_names unfolding statePath_def by (intro entry_in) (auto simp: started_def)
  have 1: "spec ?S (attempt (readPrivate (statePath a))) ?R (\<lambda>_. ?S) ?S"
    by (rule spec_attempt, rule spec_weaken [OF spec_readPrivate [of ?S, OF e]]) auto
  show ?thesis
    unfolding load_state_def
  proof (rule spec_bind [OF 1])
    fix x :: "(io_error, bytes) result"
    show "spec (?R x) (case x of Inl e \<Rightarrow> if e = ErrNotExist then create_state cr cd a b now r else raise e
      | Inr raw \<Rightarrow> (case UnmarshalState cd raw of None \<Rightarrow> raise (Text ''invalid inspection CA state'') | Some s \<Rightarrow> ret s))
      ?Q (\<lambda>_. ?S) ?S"
    proof (cases x)
      case (Inl e)
      then show ?thesis using spec_create_state [of v0 a b] by (auto intro: spec_raise)
    next
      case (Inr raw)
      have "loaded_from cd v0 a s" if "?R (Inr raw) v" "UnmarshalState cd raw = Some s" for s v
        using that by (auto simp: loaded_from_def started_def kept_def)
      then show ?thesis
        using Inr by (cases "UnmarshalState cd raw") (auto intro!: spec_raise spec_ret simp: state_holds_def)
    qed
  qed
qed

text \<open>The published file is the certificate just linked, or decodes to the same one.\<close>

definition publishes_cert :: "crypto \<Rightarrow> string \<Rightarrow> bytes \<Rightarrow> certificate \<Rightarrow> view \<Rightarrow> bool" where
  "publishes_cert cr b pem cert v \<longleftrightarrow>
     v (elems b @ [CACertificateFile]) = Some (File 420 pem) \<or>
     (\<exists>l m data block rest. follow v (publishedPath b) = Inr l \<and> v l = Some (File m data) \<and>
        PemDecode cr data = Some (block, rest) \<and> BlockType block = ''CERTIFICATE'' \<and>
        trim_space rest = [] \<and> Bytes block = Raw cert)"

lemma spec_publishCertificate:
  "spec (started v0 a b) (publishCertificate cr (publishedPath b) pem cert)
     (\<lambda>_ v. started v0 a b v \<and> publishes_cert cr b pem cert v) (\<lambda>_. started v0 a b) (started v0 a b)"
proof -
  let ?S = "started v0 a b" and ?t = "elems b @ [CACertificateFile]"
  let ?R = "\<lambda>x v. ?S v \<and> (case x of Inr u \<Rightarrow> v ?t = Some (File 420 pem) | Inl e \<Rightarrow> True)"
  have 1: "spec ?S (attempt (writeAtomic (publishedPath b) pem 420 link)) ?R (\<lambda>_. ?S) ?S"
    unfolding publishedPath_def
    by (rule spec_attempt, rule spec_weaken [OF spec_link_new [OF file_names(3,6)]]) auto
  let ?D = "\<lambda>data v. ?S v \<and> (\<exists>l m. follow v (publishedPath b) = Inr l \<and> v l = Some (File m data))"
  have 2: "spec ?S (read_file (publishedPath b)) ?D (\<lambda>_. ?S) ?S"
    unfolding read_file_def
    by (rule spec_query) (auto simp: bindR_def split: sum.splits option.splits node.splits)
  have 3: "spec (?D data) (guard_io (case PemDecode cr data of None \<Rightarrow> False | Some (block, rest) \<Rightarrow>
        BlockType block = ''CERTIFICATE'' \<and> trim_space rest = [] \<and> Bytes block = Raw cert) e)
      (\<lambda>_ v. ?S v \<and> publishes_cert cr b pem cert v) (\<lambda>_. ?S) ?S" for data e
    by (rule spec_guard) (auto simp: publishes_cert_def split: option.splits)
  show ?thesis
    unfolding publishCertificate_def
  proof (rule spec_bind [OF 1])
    fix x :: "(io_error, unit) result"
    show "spec (?R x) (case x of Inr _ \<Rightarrow> ret () | Inl e \<Rightarrow> if e \<noteq> ErrExist then raise e
        else bind_io (read_file (publishedPath b)) (\<lambda>published. guard_io
          (case PemDecode cr published of None \<Rightarrow> False | Some (block, rest) \<Rightarrow>
             BlockType block = ''CERTIFICATE'' \<and> trim_space rest = [] \<and> Bytes block = Raw cert)
          (Text ''published inspection CA does not match private state; refusing replacement'')))
      (\<lambda>_ v. ?S v \<and> publishes_cert cr b pem cert v) (\<lambda>_. ?S) ?S"
    proof (cases x)
      case (Inl e)
      then show ?thesis using spec_bind [OF 2 3] by (auto intro: spec_raise)
    next
      case (Inr u)
      have "spec (?R x) (ret ()) (\<lambda>_ v. ?S v \<and> publishes_cert cr b pem cert v) (\<lambda>_. ?S) ?S"
        by (rule spec_ret) (auto simp: Inr publishes_cert_def)
      then show ?thesis unfolding Inr sum.case .
    qed
  qed
qed

text \<open>The material behind an opened authority.\<close>

definition opened_with :: "crypto \<Rightarrow> codec \<Rightarrow> view \<Rightarrow> string \<Rightarrow> string \<Rightarrow> time \<Rightarrow> authority \<Rightarrow> view \<Rightarrow> bool" where
  "opened_with cr cd v0 a b now au v \<longleftrightarrow>
     (\<exists>s. check_pair cr now s = Inr au \<and> state_holds cd a s v \<and> loaded_from cd v0 a s \<and>
          publishes_cert cr b (fst s) (Certificate au) v)"

lemma private_dir_started:
  "dirs_added v0 v \<Longrightarrow> private_dir v a m \<Longrightarrow> private_dir v b m' \<Longrightarrow> started v0 a b v"
  by (simp add: dirs_added_def private_dir_def started_def)

lemma spec_Open:
  "spec (\<lambda>v. v = v0) (Open cr cd a b now r)
     (\<lambda>au v. kept v0 v \<and> opened_with cr cd v0 a b now au v) (\<lambda>_. kept v0) (kept v0)"
proof -
  let ?S = "started v0 a b"
  have k: "?S v \<Longrightarrow> kept v0 v" for v by (simp add: started_def)
  let ?Q = "\<lambda>au v. ?S v \<and> opened_with cr cd v0 a b now au v"
  have inner: "spec ?S (bind_io (load_state cr cd a b now r) (\<lambda>s.
       case check_pair cr now s of Inl e \<Rightarrow> raise e
       | Inr au \<Rightarrow> bind_io (publishCertificate cr (publishedPath b) (fst s) (Certificate au)) (\<lambda>_. ret au)))
      ?Q (\<lambda>_. ?S) ?S"
  proof (rule spec_bind [OF spec_load_state])
    fix s :: "bytes \<times> bytes"
    show "spec (\<lambda>v. ?S v \<and> state_holds cd a s v \<and> loaded_from cd v0 a s)
      (case check_pair cr now s of Inl e \<Rightarrow> raise e
       | Inr au \<Rightarrow> bind_io (publishCertificate cr (publishedPath b) (fst s) (Certificate au)) (\<lambda>_. ret au))
      ?Q (\<lambda>_. ?S) ?S"
    proof (cases "check_pair cr now s")
      case (Inl e)
      then show ?thesis by (auto intro: spec_raise)
    next
      case (Inr au)
      let ?H = "\<lambda>v. ?S v \<and> state_holds cd a s v \<and> loaded_from cd v0 a s"
      have "spec ?H (publishCertificate cr (publishedPath b) (fst s) (Certificate au))
          (\<lambda>_ v. ?H v \<and> publishes_cert cr b (fst s) (Certificate au) v) (\<lambda>_. ?S) ?S"
      proof (rule spec_pointwise)
        fix u assume u: "?H u"
        then have start: "started u a b u" by (simp add: started_def)
        have on: "started u a b v \<Longrightarrow> ?H v" for v
          using u started_kept state_holds_kept unfolding started_def [of u] by blast
        show "spec (\<lambda>v. v = u) (publishCertificate cr (publishedPath b) (fst s) (Certificate au))
          (\<lambda>_ v. ?H v \<and> publishes_cert cr b (fst s) (Certificate au) v) (\<lambda>_. ?S) ?S"
          by (rule spec_weaken [OF spec_publishCertificate [of u a b]]) (use start on in blast)+
      qed
      moreover have "?Q au v" if "?H v \<and> publishes_cert cr b (fst s) (Certificate au) v" for v
        using that Inr unfolding opened_with_def by blast
      ultimately have "spec ?H (bind_io (publishCertificate cr (publishedPath b) (fst s) (Certificate au)) (\<lambda>_. ret au))
          ?Q (\<lambda>_. ?S) ?S"
        by (intro spec_bind spec_ret)
      then show ?thesis unfolding Inr sum.case .
    qed
  qed
  have s: "spec ?S c (\<lambda>_. ?S) (\<lambda>_. kept v0) (kept v0)" if "spec ?S c (\<lambda>_. ?S) (\<lambda>_. ?S) ?S" for c :: "'x io"
    by (rule spec_weaken [OF that]) (use k in blast)+
  have d1: "spec (\<lambda>v. v = v0) (Directory a 448)
      (\<lambda>_ v. dirs_added v0 v \<and> private_dir v a 448) (\<lambda>_. kept v0) (kept v0)"
    by (rule spec_weaken [OF spec_Directory]) (auto simp: dirs_added_def)
  have d2: "spec (\<lambda>v. dirs_added v0 v \<and> private_dir v a 448) (Directory b 493) (\<lambda>_. ?S) (\<lambda>_. kept v0) (kept v0)"
  proof (rule spec_pointwise)
    fix u assume u: "dirs_added v0 u \<and> private_dir u a 448"
    have "started v0 a b v" if "dirs_added u v" "private_dir v b 493" for v
      using u that kept_trans kept_plain unfolding dirs_added_def private_dir_def started_def by metis
    moreover have "kept v0 v" if "dirs_added u v" for v using u that kept_trans unfolding dirs_added_def by blast
    ultimately show "spec (\<lambda>v. v = u) (Directory b 493) (\<lambda>_. ?S) (\<lambda>_. kept v0) (kept v0)"
      by (intro spec_weaken [OF spec_Directory [of u]]) auto
  qed
  have g: "spec ?S (guard_io c e) (\<lambda>_. ?S) (\<lambda>_. kept v0) (kept v0)" for c e
    by (rule s, rule spec_guard)
  have locked: "spec ?S (attempt (flock l)) (\<lambda>_. ?S) (\<lambda>_. kept v0) (kept v0)" for l
    by (rule s, rule spec_attempt, rule spec_flock)
  have last: "spec ?S (on_error (close_lock l) (bind_io (load_state cr cd a b now r) (\<lambda>s.
       case check_pair cr now s of Inl e \<Rightarrow> raise e
       | Inr au \<Rightarrow> bind_io (publishCertificate cr (publishedPath b) (fst s) (Certificate au)) (\<lambda>_. ret au))))
      (\<lambda>au v. kept v0 v \<and> opened_with cr cd v0 a b now au v) (\<lambda>_. kept v0) (kept v0)" for l
    by (rule spec_weaken [OF spec_on_error [OF inner spec_close_lock]]) (use k in blast)+
  show ?thesis
    unfolding Open_def
    by (rule spec_bind [OF d1], rule spec_bind [OF d2], rule spec_bind [OF g], unfold lockPath_def,
        rule spec_bind [OF s [OF spec_open_create [OF file_names(1)]]], rule spec_bind [OF locked],
        rule spec_bind [OF g], rule last)
qed

section \<open>Locks while opening\<close>

lemma lockless_mkdir_all [lockless_intros]: "lockless (mkdir_all m rp)"
proof (induction rp)
  case (Cons x xs)
  show ?case
    unfolding mkdir_all.simps
    by (intro lockless_intros)
       (auto intro!: lockless_intros Cons.IH split: sum.split node.split)
qed (simp add: lockless_ret)

lemma lockless_create_temp_tries [lockless_intros]: "lockless (create_temp_tries k d)"
proof (induction k)
  case (Suc k)
  show ?case
    unfolding create_temp_tries.simps
    by (intro lockless_intros) (auto intro!: lockless_intros Suc.IH split: sum.split)
qed (simp add: lockless_ret)

lemma lockless_Directory [lockless_intros]: "lockless (Directory p m)"
  unfolding Directory_def Let_def by (intro lockless_intros)

lemma lockless_writeAtomic:
  "(\<And>l. lockless (publish l p)) \<Longrightarrow> lockless (writeAtomic p d m publish)"
  unfolding writeAtomic_def create_temp_def by (intro lockless_intros)

lemma lockless_load_state [lockless_intros]: "lockless (load_state cr cd a b now r)"
  unfolding load_state_def create_state_def readPrivate_def WriteAtomic_def
  by (intro lockless_intros)
     (auto intro!: lockless_intros lockless_writeAtomic split: sum.split option.split)

lemma lockless_publishCertificate [lockless_intros]: "lockless (publishCertificate cr p d c)"
  unfolding publishCertificate_def
  by (intro lockless_intros lockless_writeAtomic) (auto intro!: lockless_intros split: sum.split)

lemma bind_io_Done:
  "bind_io a f os w = (Done x, w') \<longleftrightarrow> (\<exists>y u. a os w = (Done y, u) \<and> f y os u = (Done x, w'))"
  by (auto simp: bind_io_def split: prod.splits outcome.splits)

lemma guard_io_Done: "guard_io b e os w = (Done x, w') \<longleftrightarrow> b \<and> w' = w"
  by (auto simp: guard_io_def ret_def raise_def)

lemma on_error_Done: "on_error c a os w = (Done x, w') \<longleftrightarrow> a os w = (Done x, w')"
  by (auto simp: on_error_def split: prod.splits outcome.splits)

lemma flock_Done:
  assumes "attempt (flock l) os w = (Done r, w')" "ok r"
  shows "l \<notin> set (held w)" "l \<notin> set (foreign w)" "held w' = l # held w" "foreign w' = foreign w"
  using assms
  by (auto simp: attempt_def flock_def change_def sys_def tick_def
      split: prod.splits outcome.splits event.splits sum.splits if_splits)

lemma open_create_Done:
  assumes "open_create p m os w = (Done l, w')"
  shows "entry (node w) p = Inr l"
  using assms
  by (auto simp: open_create_def change_def sys_def bindR_def
      split: event.splits sum.splits prod.splits option.splits node.splits)

lemma Open_locks:
  assumes "Open cr cd a b now r os w = (Done au, w')"
  shows "elems a @ [''.lock''] \<notin> set (held w) \<union> set (foreign w)" "held w' = (elems a @ [''.lock'']) # held w"
    "foreign w' = foreign w"
proof -
  obtain w1 w2 w3 w4 l u where
    1: "Directory a 448 os w = (Done (), w1)" and 2: "Directory b 493 os w1 = (Done (), w2)" and
    3: "open_create (lockPath a) 384 os w2 = (Done l, w3)" and
    4: "attempt (flock l) os w3 = (Done u, w4)" "ok u" and
    5: "bind_io (load_state cr cd a b now r) (\<lambda>s. case check_pair cr now s of Inl e \<Rightarrow> raise e
       | Inr au \<Rightarrow> bind_io (publishCertificate cr (publishedPath b) (fst s) (Certificate au)) (\<lambda>_. ret au)) os w4 = (Done au, w')"
    using assms unfolding Open_def by (auto simp: bind_io_Done guard_io_Done on_error_Done)
  have a: "private_dir (node w1) a 448" using specD [OF spec_Directory _ 1, of "node w"] by simp
  then have "plain (node w2) (elems a)" "clean_abs a"
    using specD [OF spec_Directory _ 2, of "node w1"] kept_plain by (auto simp: dirs_added_def private_dir_def)
  then have l: "l = elems a @ [''.lock'']"
    using open_create_Done [OF 3] entry_in [OF _ file_names(1)] by (simp add: lockPath_def)
  have same: "held w3 = held w" "foreign w3 = foreign w"
    using locklessD [OF lockless_Directory 1] locklessD [OF lockless_Directory 2]
      locklessD [OF lockless_changes(2) 3] by auto
  have "lockless (bind_io (load_state cr cd a b now r) (\<lambda>s. case check_pair cr now s of Inl e \<Rightarrow> raise e
       | Inr au \<Rightarrow> bind_io (publishCertificate cr (publishedPath b) (fst s) (Certificate au)) (\<lambda>_. ret au)))"
    by (intro lockless_intros) (auto intro!: lockless_intros split: sum.split)
  then have "held w' = held w4" "foreign w' = foreign w4" using locklessD 5 by fastforce+
  then show "elems a @ [''.lock''] \<notin> set (held w) \<union> set (foreign w)" "held w' = (elems a @ [''.lock'']) # held w"
    "foreign w' = foreign w"
    using flock_Done [OF 4] same l by auto
qed

text \<open>The locks of a program: what it takes when it returns normally, and nothing when it fails.\<close>

definition lock_post :: "path list \<Rightarrow> world \<Rightarrow> 'a outcome \<Rightarrow> world \<Rightarrow> bool" where
  "lock_post L w r w' \<longleftrightarrow> foreign w' = foreign w \<and>
     (case r of
        Done x \<Rightarrow> held w' = L @ held w \<and> set L \<inter> (set (held w) \<union> set (foreign w)) = {}
      | Failed e \<Rightarrow> held w' = held w
      | Killed \<Rightarrow> True)"

lemma lock_post_simps [simp]:
  "lock_post L w (Done x) w' \<longleftrightarrow> foreign w' = foreign w \<and> held w' = L @ held w \<and> set L \<inter> (set (held w) \<union> set (foreign w)) = {}"
  "lock_post L w (Failed e) w' \<longleftrightarrow> foreign w' = foreign w \<and> held w' = held w"
  "lock_post L w Killed w' \<longleftrightarrow> foreign w' = foreign w"
  by (simp_all add: lock_post_def)

definition takes :: "'a io \<Rightarrow> path list \<Rightarrow> bool" where
  "takes a L \<longleftrightarrow> (\<forall>os w r w'. a os w = (r, w') \<longrightarrow> lock_post L w r w')"

lemma takesD: "takes a L \<Longrightarrow> a os w = (r, w') \<Longrightarrow> lock_post L w r w'"
  by (simp add: takes_def)

lemma takes_lockless: "lockless a \<Longrightarrow> takes a []"
  unfolding takes_def
proof (intro allI impI)
  fix os w r w' assume "lockless a" "a os w = (r, w')"
  then show "lock_post [] w r w'" using locklessD by (cases r) fastforce+
qed

lemma takes_after_lockless:
  assumes "lockless a" "\<And>x. takes (f x) M"
  shows "takes (bind_io a f) M"
  unfolding takes_def
proof (intro allI impI)
  fix os w r w' assume run: "bind_io a f os w = (r, w')"
  obtain r1 w1 where 1: "a os w = (r1, w1)" by fastforce
  note l = takesD [OF takes_lockless [OF assms(1)] 1]
  show "lock_post M w r w'"
  proof (cases r1)
    case (Done x)
    then have "f x os w1 = (r, w')" using run 1 by (simp add: bind_io_def)
    then show ?thesis using takesD [OF assms(2)] l Done by (cases r) fastforce+
  qed (use run 1 l in \<open>auto simp: bind_io_def\<close>)
qed

lemma lockless_run: "lockless a \<Longrightarrow> a os w = (r, w') \<Longrightarrow> lock_post [] w r w'"
  using takesD [OF takes_lockless] by blast

text \<open>A program that takes one lock of its own, at some place, after those of \<open>M\<close>.\<close>

definition takes_one :: "'a io \<Rightarrow> path list \<Rightarrow> bool" where
  "takes_one a M \<longleftrightarrow> (\<forall>os w r w'. a os w = (r, w') \<longrightarrow> (\<exists>l. lock_post (M @ [l]) w r w'))"

lemma takes_one_bind:
  assumes "lockless a" "\<And>x. takes_one (f x) M"
  shows "takes_one (bind_io a f) M"
  unfolding takes_one_def
proof (intro allI impI)
  fix os w r w' assume run: "bind_io a f os w = (r, w')"
  obtain r1 w1 where 1: "a os w = (r1, w1)" by fastforce
  note l = lockless_run [OF assms(1) 1]
  show "\<exists>l. lock_post (M @ [l]) w r w'"
  proof (cases r1)
    case (Done x)
    then have "f x os w1 = (r, w')" using run 1 by (simp add: bind_io_def)
    then obtain l' where "lock_post (M @ [l']) w1 r w'" using assms(2) unfolding takes_one_def by blast
    then show ?thesis using l Done by (cases r) auto
  qed (use run 1 l in \<open>auto simp: bind_io_def\<close>)
qed

definition releases :: "unit io \<Rightarrow> path \<Rightarrow> bool" where
  "releases c l \<longleftrightarrow> (\<forall>os w r w'. c os w = (r, w') \<longrightarrow>
     foreign w' = foreign w \<and> (r \<noteq> Killed \<longrightarrow> held w' = removeAll l (held w)))"

lemma close_lock_releases: "releases (close_lock l) l"
  by (auto simp: releases_def close_lock_def sys_def tick_def lose_locks_def split: event.splits)

lemma on_error_releases:
  assumes c: "releases c l" and run: "on_error c a os w = (r, w')" and a: "takes a M"
    and w: "held w = l # h" "l \<notin> set h" "l \<notin> set (foreign w)"
  shows "foreign w' = foreign w \<and> (case r of
      Done x \<Rightarrow> held w' = M @ l # h \<and> set M \<inter> (set (held w) \<union> set (foreign w)) = {} | Failed e \<Rightarrow> held w' = h | Killed \<Rightarrow> True)"
proof -
  obtain r1 w1 where 1: "a os w = (r1, w1)" by fastforce
  obtain r2 w2 where 2: "c os w1 = (r2, w2)" by fastforce
  have c2: "foreign w2 = foreign w1 \<and> (r2 \<noteq> Killed \<longrightarrow> held w2 = removeAll l (held w1))"
    using c 2 unfolding releases_def by blast
  have h: "removeAll l h = h" using w(2) by simp
  show ?thesis
    using takesD [OF a 1] c2 run 1 2 w h by (cases r1; cases r2) (auto simp: on_error_def)
qed

lemma takes_locked:
  assumes "takes body M"
  shows "takes (bind_io (attempt (flock l)) (\<lambda>locked. bind_io (guard_io (ok locked) e) (\<lambda>_. on_error (close_lock l) body))) (M @ [l])"
  unfolding takes_def
proof (intro allI impI)
  fix os w r w'
  assume run: "bind_io (attempt (flock l)) (\<lambda>locked. bind_io (guard_io (ok locked) e) (\<lambda>_. on_error (close_lock l) body)) os w = (r, w')"
  obtain r1 w1 where 1: "attempt (flock l) os w = (r1, w1)" by fastforce
  obtain r0 w0 where 0: "flock l os w = (r0, w0)" by fastforce
  have fl: "foreign w0 = foreign w" "r0 = Failed x \<Longrightarrow> held w0 = held w" for x
    using 0 by (auto simp: flock_def change_def sys_def tick_def lose_locks_def split: event.splits if_splits)
  have k: "r1 = Killed \<Longrightarrow> foreign w1 = foreign w" and n: "r1 \<noteq> Failed x"
    and f: "r1 = Done (Inl x) \<Longrightarrow> foreign w1 = foreign w \<and> held w1 = held w" for x
    using 0 1 fl by (cases r0; auto simp: attempt_def)+
  show "lock_post (M @ [l]) w r w'"
  proof (cases r1)
    case (Done u)
    show ?thesis
    proof (cases u)
      case (Inl x)
      then show ?thesis using run 1 Done f by (auto simp: bind_io_def guard_io_def raise_def)
    next
      case (Inr x)
      then have 2: "on_error (close_lock l) body os w1 = (r, w')"
        using run 1 Done by (simp add: bind_io_def guard_io_def ret_def)
      have w1: "l \<notin> set (held w)" "l \<notin> set (foreign w)" "held w1 = l # held w" "foreign w1 = foreign w"
        using flock_Done [of l os w u w1] 1 Done Inr by simp_all
      show ?thesis
        using on_error_releases [OF close_lock_releases 2 assms w1(3)] w1 by (cases r) auto
    qed
  qed (use run 1 k n in \<open>auto simp: bind_io_def\<close>)
qed

lemma takes_one_locked:
  assumes "takes body M"
  shows "takes_one (bind_io (attempt (flock l)) (\<lambda>locked. bind_io (guard_io (ok locked) e) (\<lambda>_. on_error (close_lock l) body))) M"
  using takes_locked [OF assms] unfolding takes_def takes_one_def by blast

lemma takes_then:
  assumes a: "takes a [l]" and c: "releases c l" and f: "\<And>x. \<exists>g. f x = on_error c g \<and> lockless g"
  shows "takes (bind_io a f) [l]"
  unfolding takes_def
proof (intro allI impI)
  fix os w r w' assume run: "bind_io a f os w = (r, w')"
  obtain r1 w1 where 1: "a os w = (r1, w1)" by fastforce
  note l = takesD [OF a 1]
  show "lock_post [l] w r w'"
  proof (cases r1)
    case (Done x)
    obtain g where g: "f x = on_error c g" "lockless g" using f by blast
    then have 2: "on_error c g os w1 = (r, w')" using run 1 Done by (simp add: bind_io_def)
    have "held w1 = l # held w" "l \<notin> set (held w)" "l \<notin> set (foreign w1)" "foreign w1 = foreign w" using l Done by auto
    then show ?thesis
      using on_error_releases [OF c 2 takes_lockless [OF g(2)]] by (cases r) auto
  qed (use run 1 l in \<open>auto simp: bind_io_def\<close>)
qed

lemma takes_Open: "takes (Open cr cd a b now r) [elems a @ [''.lock'']]"
  unfolding takes_def
proof (intro allI impI)
  fix os w res w' assume run: "Open cr cd a b now r os w = (res, w')"
  have "takes_one (Open cr cd a b now r) []"
    unfolding Open_def
    by (intro takes_one_bind takes_one_locked takes_lockless lockless_intros)
      (auto intro!: lockless_intros split: sum.split)
  then obtain l where l: "lock_post [l] w res w'" using run unfolding takes_one_def by fastforce
  show "lock_post [elems a @ [''.lock'']] w res w'"
  proof (cases res)
    case (Done x)
    then show ?thesis using l Open_locks [OF run [unfolded Done]] by auto
  qed (use l in auto)
qed

section \<open>Properties of the store\<close>

text \<open>
  C15: opening the authority never replaces, changes or removes anything that was there:
  whatever fails and wherever the process is killed, every file, directory and link of
  before, above all existing CA state and a published certificate, is still there as it was.
\<close>

theorem Open_never_replaces:
  assumes "Open cr cd privateDir publicDir now r os w = (res, w')" and "node w q = Some n"
  shows "node w' q = Some n"
proof -
  have "kept (node w) (node w')"
    using specD [OF spec_Open refl assms(1)] by (cases res) auto
  then show ?thesis using assms(2) by (simp add: kept_def)
qed

text \<open>
  C16: an opened authority is one that can sign now: its certificate is a self-signed CA valid
  for more than an hour with an ECDSA key, its state lies in a file closed to group and
  others, state that existed is what was loaded, and the certificate applications will read
  is published or already was the same.
\<close>

theorem Open_returns_usable_authority:
  assumes "Open cr cd privateDir publicDir now r os w = (Done au, w')"
  shows "usable now (Certificate au) \<and> CheckSelfSigned cr (Certificate au) \<and> key au \<noteq> OtherKey \<and>
    (\<exists>s. X509KeyPair cr (fst s) (snd s) = Some (Some (Certificate au), key au) \<and>
       state_holds cd privateDir s (node w') \<and> loaded_from cd (node w) privateDir s \<and>
       publishes_cert cr publicDir (fst s) (Certificate au) (node w'))"
proof -
  obtain s where s: "check_pair cr now s = Inr au" "state_holds cd privateDir s (node w')"
    "loaded_from cd (node w) privateDir s" "publishes_cert cr publicDir (fst s) (Certificate au) (node w')"
    using specD [OF spec_Open refl assms] by (auto simp: opened_with_def)
  have "usable now (Certificate au) \<and> CheckSelfSigned cr (Certificate au) \<and> key au \<noteq> OtherKey \<and>
      X509KeyPair cr (fst s) (snd s) = Some (Some (Certificate au), key au)"
    using s(1) by (auto simp: check_pair_def refuse_def split: option.splits prod.splits private_key.splits if_splits)
  with s show ?thesis by blast
qed

text \<open>
  The private directory has one owner: opening succeeds only when no process, this one
  included, holds its lock, and the lock is held afterwards.
\<close>

theorem Open_is_exclusive:
  assumes "Open cr cd privateDir publicDir now r os w = (Done au, w')"
  shows "elems privateDir @ [''.lock''] \<notin> set (held w) \<and> elems privateDir @ [''.lock''] \<notin> set (foreign w) \<and>
    elems privateDir @ [''.lock''] \<in> set (held w')"
  using Open_locks [OF assms] by simp

text \<open>
  C17: a write is atomic.  Wherever \<^verbatim>\<open>WriteAtomic\<close> fails or is killed, its target is as
  before or the complete file with its mode; when it returns it is the complete file; nothing
  else changes, but for at most one new temporary file next to it.
\<close>

theorem WriteAtomic_is_atomic:
  assumes "WriteAtomic (join_path [dir, f]) data mode os w = (res, w')"
    and "clean_abs dir" and "plain (node w) (elems dir)" and "proper f" and "\<not> prefix temp_prefix f"
  shows "let t = elems dir @ [f]; complete = (node w)(t := Some (File mode data)) in
    (node w' t = Some (File mode data) \<or> res \<noteq> Done () \<and> node w' t = node w t) \<and>
    (\<exists>v \<in> {node w, complete}. node w' = v \<or>
       (\<exists>l n. is_temp (elems dir) l \<and> node w l = None \<and> is_regular n \<and> node w' = v(l := Some n)))"
proof -
  let ?t = "elems dir @ [f]" let ?c = "(node w)(?t := Some (File mode data))"
  have s: "stands_for (join_path [dir, f]) (elems dir) f" using assms by (intro stands_for_in)
  note r = specD [OF by_rename.spec_writeAtomic [OF s] _ assms(1) [unfolded WriteAtomic_def], of "node w"]
  have "published_as (node w) (elems dir) ?t (File mode data) (node w') \<or>
      res \<noteq> Done () \<and> unpublished (node w) (elems dir) (node w')"
    using r assms(3) by (cases res) auto
  then show ?thesis
  proof
    assume p: "published_as (node w) (elems dir) ?t (File mode data) (node w')"
    have "node w' ?t = Some (File mode data)"
      using p stands_for_not_temp [OF s] by (auto simp: published_as_def unpublished_def)
    moreover have "node w' = ?c \<or> (\<exists>l n. is_temp (elems dir) l \<and> node w l = None \<and> is_regular n \<and> node w' = ?c(l := Some n))"
      using p stands_for_not_temp [OF s] unfolding published_as_def unpublished_def
      by (metis fun_upd_other)
    ultimately show ?thesis by (simp add: Let_def)
  next
    assume u: "res \<noteq> Done () \<and> unpublished (node w) (elems dir) (node w')"
    then have "node w' ?t = node w ?t"
      using stands_for_not_temp [OF s] by (auto simp: unpublished_def)
    then show ?thesis using u unfolding unpublished_def Let_def by blast
  qed
qed

text \<open>A concrete restart, for the witnesses: the state and the published certificate are there.\<close>

definition toy_os :: os where
  "toy_os = \<lparr>sched = (\<lambda>_. Run), suffix_of = (\<lambda>k. [byte (k mod 256)]), umask = 0\<rparr>"

definition toy_codec :: codec where
  "toy_codec = \<lparr>MarshalState = (\<lambda>s. Some (fst s)), UnmarshalState = (\<lambda>raw. Some (raw, ''k''))\<rparr>"

definition toy_world :: world where
  "toy_world = \<lparr>nodes = [([''p''], Dir 448), ([''q''], Dir 493),
     ([''p'', CAStateFile], File 384 ''c''), ([''q'', CACertificateFile], File 420 ''c'')], held = [], foreign = [], clock = 0\<rparr>"

definition toy_open_run :: "authority outcome \<times> world" where
  "toy_open_run = Open toy_crypto toy_codec ''/p'' ''/q'' hour 0 toy_os toy_world"

lemma toy_open_succeeds: "case toy_open_run of (Done au, w') \<Rightarrow> True | _ \<Rightarrow> False"
  by code_simp


definition toy_opened :: authority where
  "toy_opened = (case fst toy_open_run of Done au \<Rightarrow> au | _ \<Rightarrow> toy_authority)"

lemma toy_open:
  "Open toy_crypto toy_codec ''/p'' ''/q'' hour 0 toy_os toy_world = (Done toy_opened, snd toy_open_run)"
  using toy_open_succeeds
  by (auto simp: toy_open_run_def toy_opened_def split: prod.splits outcome.splits)

theorem Open_never_replaces_witness:
  "node (snd toy_open_run) [''p'', CAStateFile] = Some (File 384 ''c'')"
  by (rule Open_never_replaces [OF toy_open]) (simp add: node_def toy_world_def)

theorem Open_returns_usable_authority_witness: "usable hour (Certificate toy_opened)"
  using Open_returns_usable_authority [OF toy_open] by blast

theorem Open_is_exclusive_witness: "elems ''/p'' @ [''.lock''] \<in> set (held (snd toy_open_run))"
  using Open_is_exclusive [OF toy_open] by blast

definition toy_write_run :: "unit outcome \<times> world" where
  "toy_write_run = WriteAtomic (join_path [''/p'', ''f'']) ''data'' 384
     (toy_os\<lparr>sched := (\<lambda>k. if k = 2 then Kill 1 else Run)\<rparr>) toy_world"

theorem WriteAtomic_is_atomic_witness:
  "node (snd toy_write_run) (elems ''/p'' @ [''f'']) \<in> {Some (File 384 ''data''), None}"
proof -
  have p: "clean_abs ''/p''" "elems ''/p'' = [''p'']" by code_simp+
  have pl: "plain (node toy_world) [''p'']"
    by (auto simp: plain_def prefix_Cons node_def toy_world_def)
  have "WriteAtomic (join_path [''/p'', ''f'']) ''data'' 384
      (toy_os\<lparr>sched := (\<lambda>k. if k = 2 then Kill 1 else Run)\<rparr>) toy_world = (fst toy_write_run, snd toy_write_run)"
    by (simp add: toy_write_run_def)
  note w = WriteAtomic_is_atomic [OF this p(1), unfolded p(2), OF pl]
  have f: "proper ''f''" "\<not> prefix temp_prefix ''f''" by (simp_all add: proper_def temp_prefix_def)
  have "node toy_world [''p'', ''f''] = None"
    by (simp add: node_def toy_world_def CAStateFile_def CACertificateFile_def)
  then show ?thesis
    using w [OF f, unfolded Let_def, THEN conjunct1] unfolding p(2) by auto
qed

text \<open>
  A CA the store generates is valid from a minute ago for about ten years, so it passes
  the store's own check for all but the last hour of it.
\<close>

theorem generated_ca_is_long_lived:
  "t_NotBefore (ca_template serial now) = now - minute \<and>
   now + 3652 * (24 * hour) \<le> t_NotAfter (ca_template serial now) + 24 * hour \<and>
   t_NotAfter (ca_template serial now) \<le> now + 3653 * (24 * hour) \<and>
   now + hour < t_NotAfter (ca_template serial now)"
proof -
  define y where "y = march_year (now div (24 * hour))"
  define k where "k = (3650 + leap_days (y + 10) - leap_days y) * (24 * hour)"
  have h: "0 < hour" by (simp add: hour_def minute_def second_def)
  have "2 + y div 4 \<le> (y + 10) div 4" "(y + 10) div 4 \<le> 3 + y div 4" by linarith+
  moreover have c: "y div 100 \<le> (y + 10) div 100" "(y + 10) div 100 \<le> 1 + y div 100" by linarith+
  moreover have "y div 400 \<le> (y + 10) div 400" by linarith
  moreover have "(y + 10) div 400 - y div 400 \<le> (y + 10) div 100 - y div 100"
    using c(1) zdiv_zmult2_eq [of 4 "y + 10" 100] zdiv_zmult2_eq [of 4 y 100] by simp linarith
  ultimately have "1 \<le> leap_days (y + 10) - leap_days y" "leap_days (y + 10) - leap_days y \<le> 3"
    unfolding leap_days_def by linarith+
  then have "3651 * (24 * hour) \<le> k" "k \<le> 3653 * (24 * hour)"
    unfolding k_def using h by (intro mult_right_mono; simp)+
  moreover have "t_NotAfter (ca_template serial now) = now + k" "t_NotBefore (ca_template serial now) = now - minute"
    by (simp_all only: ca_template_def add_ten_years_def Let_def template.simps k_def y_def)
  ultimately show ?thesis using h by (simp only:) linarith
qed

section \<open>Properties of the bundle\<close>

text \<open>A PEM block that may enter the bundle.\<close>

definition cert_block :: "crypto \<Rightarrow> pem_block \<Rightarrow> bool" where
  "cert_block cr b \<longleftrightarrow>
     BlockType b = ''CERTIFICATE'' \<and> Headers b = 0 \<and> ParseCertificate cr (Bytes b) \<and> PemEncodeBlock cr b \<noteq> None"

definition encode_blocks :: "crypto \<Rightarrow> pem_block list \<Rightarrow> bytes" where
  "encode_blocks cr bs = concat (map (\<lambda>b. the (PemEncodeBlock cr b)) bs)"

declare bundle_blocks.simps [simp del]

lemma bundle_blocks_Inr:
  assumes "bundle_blocks cr fuel remaining acc count = Inr (out, n)"
  shows "\<exists>bs. list_all (cert_block cr) bs \<and> out = acc @ encode_blocks cr bs \<and> n = count + length bs"
  using assms
proof (induction fuel arbitrary: remaining acc count)
  case 0
  then show ?case
    by (auto simp: bundle_blocks.simps [of cr 0] encode_blocks_def split: if_splits option.splits)
next
  case (Suc fuel)
  show ?case
  proof (cases "remaining = [] \<or> from_match ''-----BEGIN '' remaining = None")
    case True
    then show ?thesis
      using Suc.prems unfolding bundle_blocks.simps [of cr "Suc fuel"]
      by (auto simp: encode_blocks_def split: if_split_asm option.split_asm)
  next
    case False
    then obtain rem block rest enc where
      s: "from_match ''-----BEGIN '' remaining = Some rem" "PemDecode cr rem = Some (block, rest)"
        "PemEncodeBlock cr block = Some enc" "cert_block cr block"
        "bundle_blocks cr fuel (trim_space rest) (acc @ enc) (Suc count) = Inr (out, n)"
      using Suc.prems
      by (auto simp: bundle_blocks.simps [of cr "Suc fuel"] cert_block_def split: if_splits option.splits prod.splits)
    then obtain bs where "list_all (cert_block cr) bs" "out = (acc @ enc) @ encode_blocks cr bs" "n = Suc count + length bs"
      using Suc.IH by blast
    then show ?thesis
      using s(3,4) by (intro exI [of _ "block # bs"]) (simp add: encode_blocks_def)
  qed
qed

lemma bundle_input_Inr:
  assumes "bundle_input cr input acc = Inr out"
  shows "\<exists>bs. bs \<noteq> [] \<and> list_all (cert_block cr) bs \<and> out = acc @ encode_blocks cr bs"
proof -
  obtain n where n: "bundle_blocks cr (length input) (trim_space input) acc 0 = Inr (out, n)" "n \<noteq> 0"
    using assms by (auto simp: bundle_input_def result_simps)
  then show ?thesis using bundle_blocks_Inr [OF n(1)] by fastforce
qed

text \<open>Blocks taken off the front of the input leave less of it, so the fuel suffices.\<close>

definition pem_shrinks :: "crypto \<Rightarrow> bool" where
  "pem_shrinks cr \<longleftrightarrow> (\<forall>s b r. PemDecode cr s = Some (b, r) \<longrightarrow> length r < length s)"

lemma from_match_length: "from_match pat s = Some r \<Longrightarrow> length r \<le> length s"
  by (induction pat s rule: from_match.induct) (auto split: if_splits)

lemma trim_space_length: "length (trim_space s) \<le> length s"
  using sublist_length_le [OF trim_space_sublist] .

lemma bundle_blocks_fuel:
  assumes "pem_shrinks cr" "length remaining \<le> fuel"
  shows "bundle_blocks cr fuel remaining acc count \<noteq> Inl OutOfFuel"
  using assms(2)
proof (induction fuel arbitrary: remaining acc count)
  case 0
  then show ?case by (simp add: bundle_blocks.simps [of cr 0])
next
  case (Suc fuel)
  have "length (trim_space rest) \<le> fuel"
    if "from_match ''-----BEGIN '' remaining = Some rem" "PemDecode cr rem = Some (block, rest)" for rem block rest
    using that assms(1) Suc.prems from_match_length [OF that(1)] trim_space_length [of rest]
    unfolding pem_shrinks_def by fastforce
  then show ?case
    using Suc.IH by (auto simp: bundle_blocks.simps [of cr "Suc fuel"] split: option.splits prod.splits)
qed



text \<open>A decoder of one block per input, for the witnesses.\<close>

definition toy_pem :: crypto where
  "toy_pem = toy_crypto\<lparr>PemDecode := (\<lambda>s. if s = [] then None else
     Some (\<lparr>BlockType = ''CERTIFICATE'', Headers = 0, Bytes = s\<rparr>, []))\<rparr>"

lemma toy_bundle:
  "Bundle toy_pem ''-----BEGIN CERTIFICATE-----a'' ''-----BEGIN CERTIFICATE-----b'' =
     Inr ''-----BEGIN CERTIFICATE-----a-----BEGIN CERTIFICATE-----b''"
  by code_simp



end
