(* ===== verification/RuntimeFiles.thy ===== *)
theory RuntimeFiles
  imports CAStore Json
begin

text \<open>
  What the two configuration writers of the daemon, \<^verbatim>\<open>prepareEnvoy\<close> and \<^verbatim>\<open>prepareOPA\<close>,
  share: they read one file, compute and write one private file of the runtime directory.
  The lemmas state this once over the interruption logic of \<open>FileSystem\<close>.
\<close>

definition reads :: "view \<Rightarrow> string \<Rightarrow> bytes \<Rightarrow> bool" where
  "reads v src raw \<longleftrightarrow> (\<exists>l m. follow v src = Inr l \<and> v l = Some (File m raw))"

definition runtime_path :: "config \<Rightarrow> string \<Rightarrow> path" where
  "runtime_path c f = elems (RuntimeDir c) @ [f]"

text \<open>At most the runtime file \<open>f\<close> changed, to one of the contents \<open>D\<close>, and a temporary file may be left.\<close>

definition generated :: "view \<Rightarrow> config \<Rightarrow> string \<Rightarrow> (bytes \<Rightarrow> bool) \<Rightarrow> view \<Rightarrow> bool" where
  "generated v0 c f D v \<longleftrightarrow>
     (\<forall>q. q \<noteq> runtime_path c f \<longrightarrow> \<not> is_temp (elems (RuntimeDir c)) q \<longrightarrow> v q = v0 q) \<and>
     (v (runtime_path c f) = v0 (runtime_path c f) \<or>
      (\<exists>data. D data \<and> v (runtime_path c f) = Some (File 384 data)))"

definition runtime_ready :: "config \<Rightarrow> view \<Rightarrow> bool" where
  "runtime_ready c v \<longleftrightarrow> clean_abs (RuntimeDir c) \<and> plain v (elems (RuntimeDir c))"

lemma generated_refl: "generated v c f D v"
  by (simp add: generated_def)

lemma generated_mono: "generated v0 c f D v \<Longrightarrow> (\<And>data. D data \<Longrightarrow> D' data) \<Longrightarrow> generated v0 c f D' v"
  by (auto simp: generated_def)

lemma generated_unpublished:
  assumes "stands_for p (elems (RuntimeDir c)) f" and "unpublished v0 (elems (RuntimeDir c)) v"
  shows "generated v0 c f D v"
  using assms(2) stands_for_not_temp [OF assms(1)] unfolding generated_def runtime_path_def unpublished_def
  by (metis fun_upd_other)

lemma generated_published:
  assumes "stands_for p (elems (RuntimeDir c)) f"
    and "published_as v0 (elems (RuntimeDir c)) (runtime_path c f) (File 384 data) v"
  shows "v (runtime_path c f) = Some (File 384 data)" "D data \<Longrightarrow> generated v0 c f D v"
proof -
  let ?t = "runtime_path c f"
  have u: "v = v0(?t := Some (File 384 data)) \<or> (\<exists>l n. is_temp (elems (RuntimeDir c)) l \<and> v = v0(?t := Some (File 384 data), l := Some n))"
    using assms(2) by (auto simp: published_as_def unpublished_def)
  then show t: "v ?t = Some (File 384 data)"
    using stands_for_not_temp [OF assms(1)] by (auto simp: runtime_path_def)
  show "D data \<Longrightarrow> generated v0 c f D v"
    using u t stands_for_not_temp [OF assms(1)] unfolding generated_def by (metis fun_upd_other)
qed

lemma spec_read_file:
  "spec (\<lambda>v. v = v0) (read_file src) (\<lambda>raw v. v = v0 \<and> reads v0 src raw) (\<lambda>_ v. v = v0) (\<lambda>v. v = v0)"
  unfolding read_file_def
  by (rule spec_query) (auto simp: reads_def bindR_def split: sum.splits option.splits node.splits)

lemma runtime_stands_for:
  "clean_abs (RuntimeDir c) \<Longrightarrow> proper f \<Longrightarrow> \<not> prefix temp_prefix f \<Longrightarrow>
     stands_for (join_path [RuntimeDir c, f]) (elems (RuntimeDir c)) f"
  by (rule stands_for_in)

lemma spec_write_runtime:
  assumes "runtime_ready c v0" "proper f" "\<not> prefix temp_prefix f" "D data"
  shows "spec (\<lambda>v. v = v0) (WriteAtomic (join_path [RuntimeDir c, f]) data 384)
     (\<lambda>_ v. generated v0 c f D v \<and> v (runtime_path c f) = Some (File 384 data)) (\<lambda>_. generated v0 c f D) (generated v0 c f D)"
proof -
  have s: "stands_for (join_path [RuntimeDir c, f]) (elems (RuntimeDir c)) f" and p: "plain v0 (elems (RuntimeDir c))"
    using assms runtime_stands_for by (auto simp: runtime_ready_def)
  note g = generated_published [OF s, unfolded runtime_path_def] generated_unpublished [OF s]
  show ?thesis
    unfolding WriteAtomic_def
    by (rule spec_weaken [OF by_rename.spec_writeAtomic [OF s, of v0]])
      (use p g assms(4) in \<open>auto simp: runtime_path_def\<close>)
qed

lemma spec_generate:
  assumes "runtime_ready c v0" "proper name" "\<not> prefix temp_prefix name"
    and D: "\<And>raw data. reads v0 src raw \<Longrightarrow> g raw = Inr data \<Longrightarrow> D data"
  shows "spec (\<lambda>v. v = v0)
     (bind_io (read_file src) (\<lambda>raw.
        case g raw of
          Inl e \<Rightarrow> raise e
        | Inr data \<Rightarrow> bind_io (WriteAtomic (join_path [RuntimeDir c, name]) data 384) (\<lambda>_. ret p)))
     (\<lambda>x v. x = p \<and> (\<exists>raw data. reads v0 src raw \<and> g raw = Inr data \<and>
        generated v0 c name ((=) data) v \<and> v (runtime_path c name) = Some (File 384 data)))
     (\<lambda>_. generated v0 c name D) (generated v0 c name D)"
proof (rule spec_bind)
  show "spec (\<lambda>v. v = v0) (read_file src) (\<lambda>raw v. v = v0 \<and> reads v0 src raw)
      (\<lambda>_. generated v0 c name D) (generated v0 c name D)"
    by (rule spec_weaken [OF spec_read_file]) (auto simp: generated_refl)
next
  fix raw
  show "spec (\<lambda>v. v = v0 \<and> reads v0 src raw)
     (case g raw of
        Inl e \<Rightarrow> raise e
      | Inr data \<Rightarrow> bind_io (WriteAtomic (join_path [RuntimeDir c, name]) data 384) (\<lambda>_. ret p))
     (\<lambda>x v. x = p \<and> (\<exists>raw data. reads v0 src raw \<and> g raw = Inr data \<and>
        generated v0 c name ((=) data) v \<and> v (runtime_path c name) = Some (File 384 data)))
     (\<lambda>_. generated v0 c name D) (generated v0 c name D)"
  proof (cases "g raw")
    case (Inl e)
    then show ?thesis by (auto intro!: spec_raise simp: generated_refl)
  next
    case (Inr data)
    show ?thesis
    proof (cases "reads v0 src raw")
      case True
      then have "D data" using Inr D by blast
      have m: "generated v0 c name ((=) data) v \<Longrightarrow> generated v0 c name D v" for v
        using \<open>D data\<close> by (auto simp: generated_def)
      have w: "spec (\<lambda>v. v = v0 \<and> reads v0 src raw) (WriteAtomic (join_path [RuntimeDir c, name]) data 384)
          (\<lambda>_ v. generated v0 c name ((=) data) v \<and> v (runtime_path c name) = Some (File 384 data))
          (\<lambda>_. generated v0 c name D) (generated v0 c name D)"
        by (rule spec_weaken [OF spec_write_runtime [OF assms(1-3), of "(=) data" data]]) (use m in auto)
      show ?thesis
        unfolding Inr sum.case by (rule spec_bind [OF w]) (use True Inr in \<open>auto intro!: spec_ret\<close>)
    qed (simp add: spec_def)
  qed
qed

section \<open>A concrete runtime directory, for the witnesses\<close>

definition sample_config :: config where
  "sample_config = Defaults\<lparr>EnvoyConfig := ''/envoy.yaml'', OPAConfig := ''/envoy.yaml''\<rparr>"

definition sample_world :: world where
  "sample_world = \<lparr>nodes = [([''run''], Dir 493), ([''run'', ''gateway''], Dir 493), ([''run'', ''gateway'', ''private''], Dir 448),
     ([''envoy.yaml''], File 420 ''e'')], held = [], foreign = [], clock = 0\<rparr>"

definition sample_os :: os where
  "sample_os = \<lparr>sched = \<lambda>_. Run, suffix_of = \<lambda>_. ''1'', umask = 18\<rparr>"

lemma sample_runtime_dir: "elems (RuntimeDir sample_config) = [''run'', ''gateway'', ''private'']" "clean_abs (RuntimeDir sample_config)"
  by code_simp+

lemma sample_ready: "runtime_ready sample_config (node sample_world)"
proof -
  have "plain (node sample_world) [''run'', ''gateway'', ''private'']"
    using plain_snoc [of "node sample_world" "[''run'', ''gateway'']" "''private''"] plain_snoc [of "node sample_world" "[''run'']" "''gateway''"]
      plain_snoc [of "node sample_world" "[]" "''run''"] by (simp add: sample_world_def node_def)
  then show ?thesis by (simp add: runtime_ready_def sample_runtime_dir)
qed

lemma sample_untouched:
  assumes "generated (node sample_world) sample_config f D v"
  shows "v [''envoy.yaml''] = Some (File 420 ''e'')"
proof -
  have "v [''envoy.yaml''] = node sample_world [''envoy.yaml'']"
    using assms unfolding generated_def runtime_path_def sample_runtime_dir is_temp_def
    by (elim conjE allE [of _ "[''envoy.yaml'']"]) simp
  then show ?thesis by (simp add: sample_world_def node_def)
qed

end
