(* ===== verification/EnvoyBootstrap.thy ===== *)
theory EnvoyBootstrap
  imports RequestGuard RuntimeFiles
begin

text \<open>
  \<^verbatim>\<open>internal/daemon/envoy.go\<close>: the edits of a standalone Envoy bootstrap.  The loops of
  \<^verbatim>\<open>prepareEnvoy\<close> are the editors \<open>http_filter\<close>, \<open>network_filter\<close>, \<open>listener\<close> and \<open>cluster\<close>,
  whose contract (locale \<open>edit\<close>) is interpreted here from the inside out; the state of the
  walk is \<^verbatim>\<open>sharedAuthorization\<close>.  Reading YAML is the parameter \<open>yaml\<close>, which stands for
  \<^verbatim>\<open>yaml.YAMLToJSON\<close> followed by the decoder.  The lemmas show what a prepared
  bootstrap guarantees, that everything else is preserved and that preparing it again
  changes nothing.
\<close>

section \<open>Preparing a bootstrap\<close>

definition HCM :: string where "HCM = ''envoy.filters.network.http_connection_manager''"
definition EXT_AUTHZ :: string where "EXT_AUTHZ = ''envoy.filters.http.ext_authz''"

definition pipe :: "string \<Rightarrow> json" where
  "pipe path = JObj [(''pipe'', JObj [(''path'', JStr path), (''mode'', number 384)])]"

definition request_body :: json where
  "request_body = JObj [(''max_request_bytes'', number 65536), (''allow_partial_message'', JBool False), (''pack_as_bytes'', JBool True)]"

definition authorize :: "fields \<Rightarrow> fields" where
  "authorize cfg =
     AList.update ''with_request_body'' request_body
      (AList.update ''encode_raw_headers'' (JBool True)
       (AList.update ''failure_mode_allow'' (JBool False) cfg))"

definition shared_authz :: "bool \<Rightarrow> fields \<Rightarrow> bool" where
  "shared_authz policyExtension m \<longleftrightarrow> policyExtension \<and> named m EXT_AUTHZ"

definition guarded :: "fields \<Rightarrow> bool" where
  "guarded m \<longleftrightarrow> named m ''gateway.request'' \<or> named m ''gateway.dispatch''"

definition http_filter :: "config \<Rightarrow> bool \<Rightarrow> (string, bool) editor" where
  "http_filter c policyExtension shared v =
     (case v of
        JObj m \<Rightarrow>
          bindR
            (if shared_authz policyExtension m then
               (case map_of m ''typed_config'' of
                  Some (JObj cfg) \<Rightarrow> Inr (True, AList.update ''typed_config'' (JObj (authorize cfg)) m)
                | _ \<Rightarrow> Inl ''shared ext_authz filter requires typed_config object'')
             else Inr (shared, m))
            (\<lambda>(shared, m).
              Inr (shared, JObj (if guarded m then AList.update ''typed_config'' (Filter (Role c)) m else m)))
      | _ \<Rightarrow> Inr (shared, v))"

definition network_filter :: "config \<Rightarrow> bool \<Rightarrow> (string, bool) editor" where
  "network_filter c policyExtension shared v =
     (case v of
        JObj m \<Rightarrow>
          if named m HCM
          then at_field ''typed_config'' (at_field ''http_filters'' (each (http_filter c policyExtension))) shared v
          else Inr (shared, v)
      | _ \<Rightarrow> Inr (shared, v))"

definition listener :: "config \<Rightarrow> bool \<Rightarrow> (string, bool) editor" where
  "listener c policyExtension =
     at_field ''filter_chains'' (each (at_field ''filters'' (each (network_filter c policyExtension))))"

definition cluster_socket :: "config \<Rightarrow> fields \<Rightarrow> (string \<times> string) option" where
  "cluster_socket c m =
     (if named m ''opa'' then Some (''opa'', join_path [RuntimeDir c, ''opa.sock''])
      else if named m ''inspection_sds'' then Some (''inspection_sds'', InspectionSDSPath c)
      else None)"

definition assignment :: "string \<Rightarrow> string \<Rightarrow> json" where
  "assignment name socket =
     JObj [(''cluster_name'', JStr name),
       (''endpoints'', JArr [JObj [(''lb_endpoints'', JArr [JObj [(''endpoint'', JObj [(''address'', pipe socket)])]])]])]"

definition cluster :: "config \<Rightarrow> (string, bool) editor" where
  "cluster c shared v =
     (case v of
        JObj m \<Rightarrow>
          (case cluster_socket c m of
             None \<Rightarrow> Inr (shared, v)
           | Some (name, socket) \<Rightarrow>
               Inr (shared, JObj (AList.update ''load_assignment'' (assignment name socket)
                 (AList.update ''type'' (JStr ''STATIC'') m))))
      | _ \<Rightarrow> Inr (shared, v))"

definition private_admin :: "config \<Rightarrow> fields \<Rightarrow> fields" where
  "private_admin c b =
     AList.update ''admin'' (JObj (AList.update ''address'' (pipe (EnvoyAdminPath c)) (as_object (map_of b ''admin'')))) b"

definition bootstrap :: "config \<Rightarrow> bool \<Rightarrow> json \<Rightarrow> (string, json) result" where
  "bootstrap c policyExtension v =
     (case v of
        JNull \<Rightarrow> Inl ''empty Envoy configuration''
      | JObj b \<Rightarrow>
          if map_of b ''dynamic_resources'' \<notin> {None, Some JNull}
          then Inl ''standalone bootstrap must use static resources''
          else bindR (at_field ''static_resources'' (at_field ''listeners'' (each (listener c policyExtension))) False
                 (JObj (private_admin c b))) (\<lambda>(sharedAuthorization, v).
            if policyExtension \<and> \<not> sharedAuthorization
            then Inl ''shared workload requires an ext_authz HTTP filter''
            else bindR (at_field ''static_resources'' (at_field ''clusters'' (each (cluster c))) sharedAuthorization v)
                   (\<lambda>(_, v). Inr v))
      | _ \<Rightarrow> Inl ''json: cannot unmarshal into map'')"

definition envoy_json :: "config \<Rightarrow> string" where
  "envoy_json c = join_path [RuntimeDir c, ''envoy.json'']"

definition prepareEnvoy :: "(bytes \<Rightarrow> json option) \<Rightarrow> config \<Rightarrow> bool \<Rightarrow> string io" where
  "prepareEnvoy yaml c policyExtension =
     bind_io (read_file (EnvoyConfig c)) (\<lambda>raw.
     case yaml raw of
       None \<Rightarrow> raise (Text ''yaml'')
     | Some v \<Rightarrow>
         (case bootstrap c policyExtension v of
            Inl e \<Rightarrow> raise (Text e)
          | Inr b \<Rightarrow> bind_io (WriteAtomic (envoy_json c) (Marshal b) 384) (\<lambda>_. ret (envoy_json c))))"

section \<open>What each editor touches\<close>

definition http_touched :: "bool \<Rightarrow> places" where
  "http_touched policyExtension v p \<longleftrightarrow>
     p = [] \<or>
     (\<exists>m q. v = JObj m \<and> p = Key ''typed_config'' # q \<and>
        (guarded m \<or>
         shared_authz policyExtension m \<and>
           (q = [] \<or> hd q \<in> {Key ''failure_mode_allow'', Key ''encode_raw_headers'', Key ''with_request_body''})))"

definition network_touched :: "bool \<Rightarrow> places" where
  "network_touched policyExtension v p \<longleftrightarrow>
     p = [] \<or>
     (\<exists>m. v = JObj m \<and> named m HCM) \<and>
       inside ''typed_config'' (inside ''http_filters'' (items (http_touched policyExtension))) v p"

definition listeners_touched :: "bool \<Rightarrow> places" where
  "listeners_touched policyExtension =
     items (inside ''filter_chains'' (items (inside ''filters'' (items (network_touched policyExtension)))))"

definition cluster_touched :: places where
  "cluster_touched v p \<longleftrightarrow>
     p = [] \<or>
     (\<exists>m. v = JObj m \<and> (named m ''opa'' \<or> named m ''inspection_sds'')) \<and> hd p \<in> {Key ''type'', Key ''load_assignment''}"

definition bootstrap_touched :: "bool \<Rightarrow> places" where
  "bootstrap_touched policyExtension v p \<longleftrightarrow>
     p = [] \<or> take 2 p = [Key ''admin'', Key ''address''] \<or> p = [Key ''admin''] \<or>
     hd p = Key ''admin'' \<and> \<not> is_object (lookup_at v [Key ''admin'']) \<or>
     inside ''static_resources'' (\<lambda>s p.
       inside ''listeners'' (listeners_touched policyExtension) s p \<or>
       inside ''clusters'' (items cluster_touched) s p) v p"

lemma named_update: "k \<noteq> ''name'' \<Longrightarrow> named (AList.update k x m) n \<longleftrightarrow> named m n"
  by (simp add: named_def)

lemma named_one: "named m n \<Longrightarrow> named m n' \<longleftrightarrow> n' = n"
  by (auto simp: named_def)

lemma guarded_update: "k \<noteq> ''name'' \<Longrightarrow> guarded (AList.update k x m) \<longleftrightarrow> guarded m"
  by (simp add: guarded_def named_update)

lemma shared_update: "k \<noteq> ''name'' \<Longrightarrow> shared_authz pe (AList.update k x m) \<longleftrightarrow> shared_authz pe m"
  by (simp add: shared_authz_def named_update)

lemma not_both: "shared_authz pe m \<Longrightarrow> \<not> guarded m"
  by (auto simp: shared_authz_def guarded_def EXT_AUTHZ_def named_def)

lemma authorize_idem: "authorize (authorize cfg) = authorize cfg"
  by (simp add: authorize_def update_same)

text \<open>The cases of the innermost editor.\<close>

lemma http_filter_cases:
  assumes "http_filter c pe s v = Inr (s', w)"
  obtains (other) "s' = s" "w = v" "\<And>m. v = JObj m \<Longrightarrow> \<not> shared_authz pe m \<and> \<not> guarded m"
  | (authz) m cfg where "v = JObj m" "shared_authz pe m" "map_of m ''typed_config'' = Some (JObj cfg)" "s' = True"
      "w = JObj (AList.update ''typed_config'' (JObj (authorize cfg)) m)"
  | (guard) m where "v = JObj m" "guarded m" "s' = s" "w = JObj (AList.update ''typed_config'' (Filter (Role c)) m)"
proof (cases v)
  case (JObj m)
  show ?thesis
  proof (cases "shared_authz pe m")
    case True
    then obtain cfg where cfg: "map_of m ''typed_config'' = Some (JObj cfg)"
      using assms JObj True
      by (cases "map_of m ''typed_config''"; cases "the (map_of m ''typed_config'')") (auto simp: http_filter_def)
    then show ?thesis
      using assms True by (intro authz [OF JObj True cfg])
        (auto simp: JObj http_filter_def guarded_update not_both)
  next
    case False
    then show ?thesis
      using assms JObj guard other by (auto simp: http_filter_def split: if_splits)
  qed
qed (use assms other in \<open>auto simp: http_filter_def\<close>)

interpretation http: edit "http_filter c pe" "http_touched pe" for c pe
proof
  fix s v s' w p
  assume e: "http_filter c pe s v = Inr (s', w)" and n: "\<not> http_touched pe v p"
  obtain j q where p: "p = j # q" using n by (cases p) (auto simp: http_touched_def)
  from e show "lookup_at w p = lookup_at v p"
  proof (cases rule: http_filter_cases)
    case (authz m cfg)
    then have q: "j = Key ''typed_config'' \<Longrightarrow> q \<noteq> [] \<and>
        hd q \<notin> {Key ''failure_mode_allow'', Key ''encode_raw_headers'', Key ''with_request_body''}"
      using n p by (auto simp: http_touched_def)
    show ?thesis
    proof (cases "j = Key ''typed_config''")
      case True
      then obtain i r where "q = i # r" "i \<notin> {Key ''failure_mode_allow'', Key ''encode_raw_headers'', Key ''with_request_body''}"
        using q by (cases q) auto
      then show ?thesis using authz p True by (cases i) (simp_all add: authorize_def)
    next
      case False
      then show ?thesis using authz p by (cases j) auto
    qed
  next
    case (guard m)
    then show ?thesis using n p by (cases j) (auto simp: http_touched_def)
  qed simp
next
  fix s v s' w
  assume e: "http_filter c pe s v = Inr (s', w)"
  from e show "http_filter c pe s w = Inr (s', w)"
  proof (cases rule: http_filter_cases)
    case (authz m cfg)
    then show ?thesis
      using not_both by (auto simp: http_filter_def shared_update guarded_update update_twice authorize_idem)
  next
    case (guard m)
    then show ?thesis
      using not_both by (auto simp: http_filter_def shared_update guarded_update update_twice)
  qed (use e in simp)
qed

lemmas http_walk = edit.at_field_edit [OF edit.at_field_edit [OF http.each_edit]]

interpretation network: edit "network_filter c pe" "network_touched pe" for c pe
proof
  note W = http_walk [of "''typed_config''" "''http_filters''" c pe]
  fix s v s' w p
  assume e: "network_filter c pe s v = Inr (s', w)" and n: "\<not> network_touched pe v p"
  show "lookup_at w p = lookup_at v p"
  proof (cases "\<exists>m. v = JObj m \<and> named m HCM")
    case True
    then show ?thesis
      using e n edit.frame [OF W, of s v s' w p] by (auto simp: network_filter_def network_touched_def)
  qed (use e in \<open>auto simp: network_filter_def split: json.splits\<close>)
next
  note W = http_walk [of "''typed_config''" "''http_filters''" c pe]
  fix s v s' w
  assume e: "network_filter c pe s v = Inr (s', w)"
  show "network_filter c pe s w = Inr (s', w)"
  proof (cases "\<exists>m. v = JObj m \<and> named m HCM")
    case True
    then obtain m where m: "v = JObj m" "named m HCM" by blast
    then have a: "at_field ''typed_config'' (at_field ''http_filters'' (each (http_filter c pe))) s v = Inr (s', w)"
      using e by (simp add: network_filter_def)
    then obtain m' where m': "w = JObj m'" "\<forall>j. j \<noteq> ''typed_config'' \<longrightarrow> map_of m' j = map_of m j"
      using at_field_other [OF a [unfolded m(1)]] by blast
    then have "named m' HCM" using m(2) by (simp add: named_def)
    then show ?thesis using edit.stable [OF W, OF a] unfolding m'(1) network_filter_def by simp
  qed (use e in \<open>auto simp: network_filter_def split: json.splits\<close>)
qed

interpretation clusters: edit "cluster c" cluster_touched for c
proof
  fix s v s' w p
  assume e: "cluster c s v = Inr (s', w)" and n: "\<not> cluster_touched v p"
  obtain j q where "p = j # q" using n by (cases p) (auto simp: cluster_touched_def)
  then show "lookup_at w p = lookup_at v p"
    using e n by (cases j)
      (auto simp: cluster_def cluster_socket_def cluster_touched_def split: json.splits option.splits if_splits)
next
  fix s v s' w
  assume e: "cluster c s v = Inr (s', w)"
  have t: "AList.update ''load_assignment'' a (AList.update ''type'' b (AList.update ''load_assignment'' a (AList.update ''type'' b m)))
      = AList.update ''load_assignment'' a (AList.update ''type'' b m)" for a b m
    by (simp add: update_same)
  show "cluster c s w = Inr (s', w)"
    using e by (auto simp: cluster_def cluster_socket_def named_update t split: json.splits option.splits if_splits)
qed

section \<open>The whole walk\<close>

definition statics :: "config \<Rightarrow> bool \<Rightarrow> (string, bool) editor" where
  "statics c pe = both (at_field ''listeners'' (each (listener c pe))) (at_field ''clusters'' (each (cluster c)))"

lemma listener_edit: "edit (listener c pe) (inside ''filter_chains'' (items (inside ''filters'' (items (network_touched pe)))))"
  unfolding listener_def
  by (rule edit.at_field_edit [OF edit.each_edit [OF edit.at_field_edit [OF network.each_edit]]])

lemma statics_edit:
  "edit (statics c pe) (\<lambda>s p. inside ''listeners'' (listeners_touched pe) s p \<or> inside ''clusters'' (items cluster_touched) s p)"
  unfolding statics_def listeners_touched_def
  by (rule both_fields [OF edit.each_edit [OF listener_edit] clusters.each_edit]) simp

lemmas walk_edit = edit.at_field_edit [OF statics_edit, where k = "''static_resources''"]

lemma cluster_state: "cluster c s v = Inr (s', w) \<Longrightarrow> s' = s"
  by (auto simp: cluster_def split: json.splits option.splits)

lemma clusters_state: "at_field ''clusters'' (each (cluster c)) s v = Inr (s', w) \<Longrightarrow> s' = s"
proof -
  have "mapS (cluster c) s xs = Inr (s', ys) \<Longrightarrow> s' = s" for xs ys s s'
    by (induction xs arbitrary: s ys) (auto simp: result_simps dest: cluster_state)
  then show "at_field ''clusters'' (each (cluster c)) s v = Inr (s', w) \<Longrightarrow> s' = s"
    by (auto simp: at_field_def each_def result_simps split: json.splits option.splits)
qed

lemma clusters_state': "at_field ''static_resources'' (at_field ''clusters'' (each (cluster c))) s v = Inr (s', w) \<Longrightarrow> s' = s"
  by (auto simp: at_field_def [of "''static_resources''"] result_simps dest: clusters_state split: json.splits option.splits)

lemma bootstrap_iff:
  "bootstrap c pe v = Inr w \<longleftrightarrow>
     (\<exists>b s. v = JObj b \<and> map_of b ''dynamic_resources'' \<in> {None, Some JNull} \<and> (pe \<longrightarrow> s) \<and>
        at_field ''static_resources'' (statics c pe) False (JObj (private_admin c b)) = Inr (s, w))"
proof (cases v)
  case (JObj b)
  let ?L = "at_field ''static_resources'' (at_field ''listeners'' (each (listener c pe)))"
  let ?C = "at_field ''static_resources'' (at_field ''clusters'' (each (cluster c)))"
  have "at_field ''static_resources'' (statics c pe) False (JObj (private_admin c b)) = Inr (s, w) \<longleftrightarrow>
      (\<exists>u. ?L False (JObj (private_admin c b)) = Inr (s, u) \<and> ?C s u = Inr (s, w))" for s
    unfolding statics_def both_at_field [symmetric]
    by (auto simp: both_def result_simps dest: clusters_state')
  moreover have "bootstrap c pe v = Inr w \<longleftrightarrow> map_of b ''dynamic_resources'' \<in> {None, Some JNull} \<and>
      (\<exists>s u. ?L False (JObj (private_admin c b)) = Inr (s, u) \<and> (pe \<longrightarrow> s) \<and> ?C s u = Inr (s, w))"
    by (auto simp: bootstrap_def JObj result_simps dest: clusters_state')
  ultimately show ?thesis by (auto simp: JObj)
qed (auto simp: bootstrap_def)

lemma private_admin_idem: "private_admin c (private_admin c b) = private_admin c b"
  by (simp add: private_admin_def as_object_def update_same)

lemma private_admin_other: "k \<noteq> ''admin'' \<Longrightarrow> map_of (private_admin c b) k = map_of b k"
  by (simp add: private_admin_def)

lemma bootstrap_result:
  assumes "bootstrap c pe v = Inr w"
  obtains b b' s where "v = JObj b" "w = JObj b'" "pe \<longrightarrow> s"
    "at_field ''static_resources'' (statics c pe) False (JObj (private_admin c b)) = Inr (s, w)"
    "map_of b' ''dynamic_resources'' \<in> {None, Some JNull}" "private_admin c b' = b'"
    "map_of b' ''admin'' = map_of (private_admin c b) ''admin''"
proof -
  obtain b s where b: "v = JObj b" "map_of b ''dynamic_resources'' \<in> {None, Some JNull}" "pe \<longrightarrow> s"
    "at_field ''static_resources'' (statics c pe) False (JObj (private_admin c b)) = Inr (s, w)"
    using assms unfolding bootstrap_iff by blast
  obtain b' where w: "w = JObj b'" "\<forall>j. j \<noteq> ''static_resources'' \<longrightarrow> map_of b' j = map_of (private_admin c b) j"
    using at_field_other [OF b(4)] by blast
  have a: "map_of b' ''admin'' = map_of (private_admin c b) ''admin''" using w(2) by simp
  then have "private_admin c b' = b'" by (simp add: private_admin_def as_object_def update_same)
  then show ?thesis using that b w a private_admin_other [of "''dynamic_resources''" c b] by simp
qed

section \<open>What a prepared bootstrap satisfies\<close>

definition hcm_place :: "nat \<Rightarrow> nat \<Rightarrow> nat \<Rightarrow> step list" where
  "hcm_place i j k =
     [Key ''static_resources'', Key ''listeners'', Idx i, Key ''filter_chains'', Idx j, Key ''filters'', Idx k]"

definition http_place :: "nat \<Rightarrow> nat \<Rightarrow> nat \<Rightarrow> nat \<Rightarrow> step list" where
  "http_place i j k l = hcm_place i j k @ [Key ''typed_config'', Key ''http_filters'', Idx l]"

text \<open>The HTTP filter at an index of an HTTP connection manager of the document.\<close>

definition http_filter_at :: "json \<Rightarrow> nat \<Rightarrow> nat \<Rightarrow> nat \<Rightarrow> nat \<Rightarrow> string \<Rightarrow> bool" where
  "http_filter_at w i j k l n \<longleftrightarrow>
     lookup_at w (hcm_place i j k @ [Key ''name'']) = Some (JStr HCM) \<and>
     lookup_at w (http_place i j k l @ [Key ''name'']) = Some (JStr n)"

lemma lookup_name: "lookup_at x [Key ''name''] = Some (JStr n) \<longleftrightarrow> (\<exists>m. x = JObj m \<and> named m n)"
  by (cases x) (auto simp: named_def split: option.splits)

lemma fixed_network: "fixed (network_filter c pe) (JObj m) \<Longrightarrow> named m HCM \<Longrightarrow>
    fixed (at_field ''typed_config'' (at_field ''http_filters'' (each (http_filter c pe)))) (JObj m)"
  by (simp add: fixed_def network_filter_def)

lemma raised_network: "raised (network_filter c pe) v \<Longrightarrow> \<exists>m. v = JObj m \<and> named m HCM \<and>
    raised (at_field ''typed_config'' (at_field ''http_filters'' (each (http_filter c pe)))) v"
  by (auto simp: raised_def network_filter_def split: json.splits if_splits)

lemma fixed_authz:
  assumes "fixed (http_filter c pe) (JObj m)" and "shared_authz pe m"
  shows "\<exists>cfg. map_of m ''typed_config'' = Some (JObj (authorize cfg))"
proof -
  obtain s s' where "http_filter c pe s (JObj m) = Inr (s', JObj m)" using assms(1) by (auto simp: fixed_def)
  then show ?thesis
  proof (cases rule: http_filter_cases)
    case (authz m' cfg)
    then have "AList.update ''typed_config'' (JObj (authorize cfg)) m = m" by simp
    then show ?thesis using map_of_update [of "''typed_config''" "JObj (authorize cfg)" m] by metis
  qed (use assms(2) not_both in \<open>auto\<close>)
qed

lemma fixed_guard:
  assumes "fixed (http_filter c pe) (JObj m)" and "guarded m"
  shows "map_of m ''typed_config'' = Some (Filter (Role c))"
proof -
  obtain s s' where "http_filter c pe s (JObj m) = Inr (s', JObj m)" using assms(1) by (auto simp: fixed_def)
  then show ?thesis
  proof (cases rule: http_filter_cases)
    case (guard m')
    then have "AList.update ''typed_config'' (Filter (Role c)) m = m" by simp
    then show ?thesis using map_of_update [of "''typed_config''" "Filter (Role c)" m] by metis
  qed (use assms(2) not_both in \<open>auto\<close>)
qed

lemma fixed_cluster:
  assumes "fixed (cluster c) (JObj m)" and "cluster_socket c m = Some (n, s)"
  shows "map_of m ''type'' = Some (JStr ''STATIC'')" "map_of m ''load_assignment'' = Some (assignment n s)"
proof -
  have m: "AList.update ''load_assignment'' (assignment n s) (AList.update ''type'' (JStr ''STATIC'') m) = m"
    using assms by (auto simp: fixed_def cluster_def)
  show "map_of m ''type'' = Some (JStr ''STATIC'')" "map_of m ''load_assignment'' = Some (assignment n s)"
    by (subst m [symmetric], simp)+
qed

lemma bootstrap_fixed:
  assumes "bootstrap c pe v = Inr w"
  shows "\<exists>b. w = JObj b \<and> private_admin c b = b \<and> fixed (at_field ''static_resources'' (statics c pe)) w \<and>
    (pe \<longrightarrow> raised (at_field ''static_resources'' (statics c pe)) w)"
proof -
  obtain b b' s where w: "w = JObj b'" "pe \<longrightarrow> s"
      "at_field ''static_resources'' (statics c pe) False (JObj (private_admin c b)) = Inr (s, w)"
      "private_admin c b' = b'"
    using assms by (rule bootstrap_result) blast
  then show ?thesis
    using edit.stable [OF walk_edit, OF w(3)] by (auto simp: fixed_def raised_def)
qed

lemma fixed_statics:
  assumes "fixed (at_field ''static_resources'' (statics c pe)) w" and "lookup_at w [Key ''static_resources''] = Some x"
  shows "fixed (at_field ''listeners'' (each (listener c pe))) x" "fixed (at_field ''clusters'' (each (cluster c))) x"
  using fixed_both_fields [OF fixed_at_field [OF assms, unfolded statics_def]] by simp_all

lemma fixed_http_filter:
  assumes w: "fixed (at_field ''static_resources'' (statics c pe)) w" and "http_filter_at w i j k l n"
  shows "\<exists>m. lookup_at w (http_place i j k l) = Some (JObj m) \<and> named m n \<and> fixed (http_filter c pe) (JObj m)"
proof -
  obtain h where h: "lookup_at w (hcm_place i j k) = Some (JObj h)" "named h HCM"
    using assms(2) by (auto simp: http_filter_at_def at_append_Some lookup_name)
  obtain m where m: "lookup_at w (http_place i j k l) = Some (JObj m)" "named m n"
    using assms(2) by (auto simp: http_filter_at_def at_append_Some lookup_name)
  obtain x1 x2 x3 x4 x5 x6 where s:
    "lookup_at w [Key ''static_resources''] = Some x1" "lookup_at x1 [Key ''listeners''] = Some x2"
    "lookup_at x2 [Idx i] = Some x3" "lookup_at x3 [Key ''filter_chains''] = Some x4"
    "lookup_at x4 [Idx j] = Some x5" "lookup_at x5 [Key ''filters''] = Some x6" "lookup_at x6 [Idx k] = Some (JObj h)"
    using h(1) unfolding hcm_place_def lookup_at_steps by blast
  obtain y1 y2 where t: "lookup_at (JObj h) [Key ''typed_config''] = Some y1"
      "lookup_at y1 [Key ''http_filters''] = Some y2" "lookup_at y2 [Idx l] = Some (JObj m)"
    using m(1) h(1) unfolding http_place_def at_append_Some lookup_at_steps by auto
  note a = fixed_each [OF fixed_at_field [OF fixed_statics(1) [OF w s(1)] s(2)] s(3), unfolded listener_def]
  note b = fixed_each [OF fixed_at_field [OF a s(4)] s(5)]
  note d = fixed_each [OF fixed_at_field [OF b s(6)] s(7)]
  have "fixed (http_filter c pe) (JObj m)"
    by (rule fixed_each [OF fixed_at_field [OF fixed_at_field [OF fixed_network [OF d h(2)] t(1)] t(2)] t(3)])
  then show ?thesis using m by blast
qed

lemma raised_http_filter:
  assumes "raised (at_field ''static_resources'' (statics c pe)) w"
  shows "\<exists>i j k l m. http_filter_at w i j k l EXT_AUTHZ"
proof -
  obtain x1 where x1: "lookup_at w [Key ''static_resources''] = Some x1" "raised (statics c pe) x1"
    using raised_at_field [OF assms] by blast
  then have "raised (at_field ''listeners'' (each (listener c pe))) x1"
    using both_fields_fixed [of "''listeners''" _ "''clusters''" _ False x1 True] clusters_state
    unfolding raised_def statics_def by fastforce
  then obtain x2 i x3 where s: "lookup_at x1 [Key ''listeners''] = Some x2" "lookup_at x2 [Idx i] = Some x3"
      "raised (listener c pe) x3"
    by (meson raised_at_field raised_each)
  then obtain x4 j x5 x6 k h where t: "lookup_at x3 [Key ''filter_chains''] = Some x4" "lookup_at x4 [Idx j] = Some x5"
      "lookup_at x5 [Key ''filters''] = Some x6" "lookup_at x6 [Idx k] = Some h" "raised (network_filter c pe) h"
    unfolding listener_def by (meson raised_at_field raised_each)
  obtain m where m: "h = JObj m" "named m HCM"
      "raised (at_field ''typed_config'' (at_field ''http_filters'' (each (http_filter c pe)))) h"
    using raised_network [OF t(5)] by blast
  obtain y1 where y1: "lookup_at h [Key ''typed_config''] = Some y1" "raised (at_field ''http_filters'' (each (http_filter c pe))) y1"
    using raised_at_field [OF m(3)] by blast
  obtain y2 where y2: "lookup_at y1 [Key ''http_filters''] = Some y2" "raised (each (http_filter c pe)) y2"
    using raised_at_field [OF y1(2)] by blast
  obtain l f where f: "lookup_at y2 [Idx l] = Some f" "raised (http_filter c pe) f"
    using raised_each [OF y2(2)] by blast
  have "lookup_at h [Key ''name''] = Some (JStr HCM)" using m(1,2) lookup_name by blast
  note u = y1(1) y2(1) f this
  have "\<exists>m. f = JObj m \<and> named m EXT_AUTHZ"
    using u(4) by (auto simp: raised_def shared_authz_def elim!: http_filter_cases)
  then have n: "lookup_at f [Key ''name''] = Some (JStr EXT_AUTHZ)" by (simp add: lookup_name)
  have "lookup_at w (hcm_place i j k @ p) = lookup_at h p" for p
    using x1(1) s(1,2) t(1-4) by (simp add: hcm_place_def lookup_at_first del: lookup_at.simps)
  then have "http_filter_at w i j k l EXT_AUTHZ"
    using u n by (simp add: http_filter_at_def http_place_def lookup_at_first del: lookup_at.simps)
  then show ?thesis by blast
qed

section \<open>Properties\<close>

text \<open>
  Preparing a prepared bootstrap changes nothing.
\<close>

theorem bootstrap_idempotent:
  assumes "bootstrap c pe v = Inr w"
  shows "bootstrap c pe w = Inr w"
proof -
  obtain b b' s where w: "w = JObj b'" "pe \<longrightarrow> s"
      "at_field ''static_resources'' (statics c pe) False (JObj (private_admin c b)) = Inr (s, w)"
      "map_of b' ''dynamic_resources'' \<in> {None, Some JNull}" "private_admin c b' = b'"
    using assms by (rule bootstrap_result) blast
  have "at_field ''static_resources'' (statics c pe) False w = Inr (s, w)"
    by (rule edit.stable [OF walk_edit, OF w(3)])
  then show ?thesis unfolding bootstrap_iff using w by auto
qed

text \<open>
  C27: preparing keeps everything but the places the daemon owns: the admin address, the type
  and assignment of the two private clusters, three settings of the external authorization
  filters (with the policy extension only) and the program of the guard filters.
\<close>

theorem bootstrap_preserves_the_rest:
  assumes "bootstrap c pe v = Inr w" and "\<not> bootstrap_touched pe v p"
  shows "lookup_at w p = lookup_at v p"
proof -
  obtain b b' s where w: "v = JObj b"
      "at_field ''static_resources'' (statics c pe) False (JObj (private_admin c b)) = Inr (s, w)"
    using assms(1) by (rule bootstrap_result) blast
  obtain j q where p: "p = j # q" using assms(2) by (cases p) (auto simp: bootstrap_touched_def)
  have "lookup_at (JObj (private_admin c b)) [Key ''static_resources''] = lookup_at v [Key ''static_resources'']"
    by (simp add: w(1) private_admin_other)
  then have "lookup_at w p = lookup_at (JObj (private_admin c b)) p"
    using assms(2) by (intro edit.frame [OF walk_edit, OF w(2)]) (auto simp: bootstrap_touched_def inside_def)
  also have "\<dots> = lookup_at v p"
  proof (cases "j = Key ''admin''")
    case True
    then obtain a r where a: "map_of b ''admin'' = Some (JObj a)" "q = r # tl q" "r \<noteq> Key ''address''"
      using assms(2) w(1) p by (cases q) (auto simp: bootstrap_touched_def is_object_def split: option.splits json.splits)
    then show ?thesis using p True w(1) by (cases r; cases q) (auto simp: private_admin_def as_object_def)
  next
    case False
    then show ?thesis using p w(1) by (cases j) (auto simp: private_admin_other)
  qed
  finally show ?thesis .
qed

lemma lookup_field: "lookup_at w p = Some (JObj m) \<Longrightarrow> map_of m k = Some x \<Longrightarrow> lookup_at w (p @ Key k # q) = lookup_at x q"
  by (simp add: at_append)

text \<open>
  C8: with the policy extension a prepared bootstrap authorizes or denies: it has an external
  authorization filter in an HTTP connection manager of a static listener, and every such
  filter denies a request when the authorization service fails, sees the raw headers and at
  most 64 KiB of a complete body.
\<close>

theorem bootstrap_fails_closed:
  assumes "bootstrap c True v = Inr w"
  shows "(\<exists>i j k l. http_filter_at w i j k l EXT_AUTHZ) \<and>
    (http_filter_at w i j k l EXT_AUTHZ \<longrightarrow>
       lookup_at w (http_place i j k l @ [Key ''typed_config'', Key ''failure_mode_allow'']) = Some (JBool False) \<and>
       lookup_at w (http_place i j k l @ [Key ''typed_config'', Key ''encode_raw_headers'']) = Some (JBool True) \<and>
       lookup_at w (http_place i j k l @ [Key ''typed_config'', Key ''with_request_body'']) = Some request_body)"
proof -
  have f: "fixed (at_field ''static_resources'' (statics c True)) w" "raised (at_field ''static_resources'' (statics c True)) w"
    using bootstrap_fixed [OF assms] by auto
  have "\<exists>cfg. \<forall>q. lookup_at w (http_place i j k l @ Key ''typed_config'' # q) = lookup_at (JObj (authorize cfg)) q"
    if "http_filter_at w i j k l EXT_AUTHZ"
  proof -
    obtain m where m: "lookup_at w (http_place i j k l) = Some (JObj m)" "named m EXT_AUTHZ" "fixed (http_filter c True) (JObj m)"
      using fixed_http_filter [OF f(1) \<open>http_filter_at w i j k l EXT_AUTHZ\<close>] by blast
    then obtain cfg where "map_of m ''typed_config'' = Some (JObj (authorize cfg))"
      using fixed_authz [of c True m] by (auto simp: shared_authz_def)
    then show ?thesis using lookup_field [OF m(1)] by blast
  qed
  then show ?thesis using raised_http_filter [OF f(2)] by (auto simp: authorize_def)
qed

text \<open>
  C9: a prepared bootstrap is reachable from the Pod's private directory only: its admin
  endpoint and the clusters of the policy and certificate services are the private sockets
  with mode 0600, and every guard filter runs the program of the daemon's role.
\<close>

theorem bootstrap_private_endpoints:
  assumes "bootstrap c pe v = Inr w"
  shows "lookup_at w [Key ''admin'', Key ''address''] = Some (pipe (EnvoyAdminPath c)) \<and>
    (n \<in> {''opa'', ''inspection_sds''} \<and>
       lookup_at w [Key ''static_resources'', Key ''clusters'', Idx i, Key ''name''] = Some (JStr n) \<longrightarrow>
       lookup_at w [Key ''static_resources'', Key ''clusters'', Idx i, Key ''type''] = Some (JStr ''STATIC'') \<and>
       lookup_at w [Key ''static_resources'', Key ''clusters'', Idx i, Key ''load_assignment''] =
         Some (assignment n (if n = ''opa'' then OPASocketPath c else InspectionSDSPath c))) \<and>
    (http_filter_at w i j k l ''gateway.request'' \<or> http_filter_at w i j k l ''gateway.dispatch'' \<longrightarrow>
       lookup_at w (http_place i j k l @ [Key ''typed_config'']) = Some (Filter (Role c)))"
proof -
  obtain b where b: "w = JObj b" "private_admin c b = b" and f: "fixed (at_field ''static_resources'' (statics c pe)) w"
    using bootstrap_fixed [OF assms] by auto
  obtain a where "map_of b ''admin'' = Some (JObj (AList.update ''address'' (pipe (EnvoyAdminPath c)) a))"
    using b(2) map_of_update unfolding private_admin_def by metis
  then have 1: "lookup_at w [Key ''admin'', Key ''address''] = Some (pipe (EnvoyAdminPath c))"
    by (simp add: b(1))
  have 2: "lookup_at w [Key ''static_resources'', Key ''clusters'', Idx i, Key ''type''] = Some (JStr ''STATIC'') \<and>
       lookup_at w [Key ''static_resources'', Key ''clusters'', Idx i, Key ''load_assignment''] =
         Some (assignment n (if n = ''opa'' then OPASocketPath c else InspectionSDSPath c))"
    if n: "n \<in> {''opa'', ''inspection_sds''}"
      "lookup_at w [Key ''static_resources'', Key ''clusters'', Idx i, Key ''name''] = Some (JStr n)"
  proof -
    obtain x y z where s: "lookup_at w [Key ''static_resources''] = Some x" "lookup_at x [Key ''clusters''] = Some y"
        "lookup_at y [Idx i] = Some z" "lookup_at z [Key ''name''] = Some (JStr n)"
      using n(2) unfolding lookup_at_steps by blast
    obtain m where m: "z = JObj m" "named m n" using s(4) unfolding lookup_name by blast
    have "fixed (cluster c) (JObj m)"
      using fixed_each [OF fixed_at_field [OF fixed_statics(2) [OF f s(1)] s(2)] s(3)] m(1) by simp
    moreover have "cluster_socket c m = Some (n, if n = ''opa'' then OPASocketPath c else InspectionSDSPath c)"
      using n(1) m(2) named_one [OF m(2)] by (auto simp: cluster_socket_def OPASocketPath_def)
    ultimately have "map_of m ''type'' = Some (JStr ''STATIC'')"
        "map_of m ''load_assignment'' = Some (assignment n (if n = ''opa'' then OPASocketPath c else InspectionSDSPath c))"
      by (rule fixed_cluster)+
    then show ?thesis using s(1-3) m(1) unfolding lookup_at_steps by auto
  qed
  have "lookup_at w (http_place i j k l @ [Key ''typed_config'']) = Some (Filter (Role c))"
    if "http_filter_at w i j k l n" "n = ''gateway.request'' \<or> n = ''gateway.dispatch''" for n
    using fixed_http_filter [OF f that(1)] fixed_guard lookup_field [of w _ _ "''typed_config''" _ "[]"] that(2)
    by (metis guarded_def lookup_at.simps(1))
  then show ?thesis using 1 2 by blast
qed

lemma published_bootstrap:
  assumes "prepareEnvoy yaml c pe os w = (res, w')" and "runtime_ready c (node w)"
  shows "generated (node w) c ''envoy.json'' (\<lambda>data. \<exists>raw v b.
      reads (node w) (EnvoyConfig c) raw \<and> yaml raw = Some v \<and> bootstrap c pe v = Inr b \<and> data = Marshal b) (node w') \<and>
    (res = Done path \<longrightarrow> path = envoy_json c \<and> (\<exists>raw v b.
      reads (node w) (EnvoyConfig c) raw \<and> yaml raw = Some v \<and> bootstrap c pe v = Inr b \<and>
      node w' (runtime_path c ''envoy.json'') = Some (File 384 (Marshal b))))"
proof -
  define g where "g = (\<lambda>raw. case yaml raw of None \<Rightarrow> Inl (Text ''yaml'')
     | Some v \<Rightarrow> (case bootstrap c pe v of Inl e \<Rightarrow> Inl (Text e) | Inr b \<Rightarrow> Inr (Marshal b)))"
  let ?D = "\<lambda>data. \<exists>raw v b. reads (node w) (EnvoyConfig c) raw \<and> yaml raw = Some v \<and> bootstrap c pe v = Inr b \<and> data = Marshal b"
  have g: "g raw = Inr data \<longleftrightarrow> (\<exists>v b. yaml raw = Some v \<and> bootstrap c pe v = Inr b \<and> data = Marshal b)" for raw data
    by (auto simp: g_def split: option.splits sum.splits)
  have e: "prepareEnvoy yaml c pe = bind_io (read_file (EnvoyConfig c)) (\<lambda>raw.
      case g raw of Inl e \<Rightarrow> raise e
      | Inr data \<Rightarrow> bind_io (WriteAtomic (join_path [RuntimeDir c, ''envoy.json'']) data 384) (\<lambda>_. ret (envoy_json c)))"
    unfolding prepareEnvoy_def g_def envoy_json_def
    by (intro arg_cong [of _ _ "bind_io _"] ext) (simp split: option.split sum.split)
  have "proper ''envoy.json''" "\<not> prefix temp_prefix ''envoy.json''" by (simp_all add: proper_def temp_prefix_def)
  from spec_generate [OF assms(2) this, of "EnvoyConfig c" g ?D "envoy_json c"]
  have "spec (\<lambda>v. v = node w) (prepareEnvoy yaml c pe)
     (\<lambda>x v. x = envoy_json c \<and> (\<exists>raw data. reads (node w) (EnvoyConfig c) raw \<and> g raw = Inr data \<and>
        generated (node w) c ''envoy.json'' ((=) data) v \<and> v (runtime_path c ''envoy.json'') = Some (File 384 data)))
     (\<lambda>_. generated (node w) c ''envoy.json'' ?D) (generated (node w) c ''envoy.json'' ?D)"
    unfolding e using g by blast
  from specD [OF this refl assms(1)] show ?thesis
    unfolding g by (cases res) (auto elim!: generated_mono)
qed

text \<open>
  Preparing the proxy's configuration, wherever it fails or is killed, touches nothing
  but \<^verbatim>\<open>envoy.json\<close> in the runtime directory (and at most leaves a temporary file there):
  the file is as before, or it is the complete encoding of the prepared bootstrap with mode
  0600; a returned path is that file's, and then it is complete.
\<close>

theorem prepareEnvoy_publishes:
  assumes "prepareEnvoy yaml c pe os w = (res, w')" and "runtime_ready c (node w)"
  shows "generated (node w) c ''envoy.json'' (\<lambda>data. \<exists>raw v b.
      reads (node w) (EnvoyConfig c) raw \<and> yaml raw = Some v \<and> bootstrap c pe v = Inr b \<and> data = Marshal b) (node w') \<and>
    (res = Done path \<longrightarrow> path = envoy_json c \<and> (\<exists>raw v b.
      reads (node w) (EnvoyConfig c) raw \<and> yaml raw = Some v \<and> bootstrap c pe v = Inr b \<and>
      node w' (runtime_path c ''envoy.json'') = Some (File 384 (Marshal b))))"
  by (rule published_bootstrap [OF assms])

text \<open>A small bootstrap, for the witnesses.\<close>

definition sample_filters :: json where
  "sample_filters = JArr
     [JObj [(''name'', JStr EXT_AUTHZ), (''typed_config'', JObj [(''failure_mode_allow'', JBool True), (''timeout'', JStr ''1s'')])],
      JObj [(''name'', JStr ''envoy.filters.http.router'')]]"

definition sample_listener :: json where
  "sample_listener = JObj [(''filter_chains'', JArr [JObj [(''filters'', JArr
     [JObj [(''name'', JStr HCM), (''typed_config'', JObj [(''http_filters'', sample_filters)])]])]])]"

definition sample_bootstrap :: json where
  "sample_bootstrap = JObj
     [(''node'', JStr ''n''),
      (''static_resources'', JObj [(''listeners'', JArr [sample_listener]),
        (''clusters'', JArr [JObj [(''name'', JStr ''opa''), (''type'', JStr ''LOGICAL_DNS'')]])])]"

definition sample_prepared :: json where
  "sample_prepared = (case bootstrap Defaults True sample_bootstrap of Inr w \<Rightarrow> w | Inl e \<Rightarrow> JNull)"

lemma sample_prepares: "bootstrap Defaults True sample_bootstrap = Inr sample_prepared"
proof -
  have "ok (bootstrap Defaults True sample_bootstrap)" by code_simp
  then show ?thesis by (auto simp: sample_prepared_def ok_iff)
qed

theorem bootstrap_idempotent_witness: "bootstrap Defaults True sample_prepared = Inr sample_prepared"
  by (rule bootstrap_idempotent [OF sample_prepares])

theorem bootstrap_preserves_the_rest_witness: "lookup_at sample_prepared [Key ''node''] = Some (JStr ''n'')"
proof -
  have "\<not> bootstrap_touched True sample_bootstrap [Key ''node'']" by (simp add: bootstrap_touched_def inside_def)
  from bootstrap_preserves_the_rest [OF sample_prepares this] show ?thesis by (simp add: sample_bootstrap_def)
qed

theorem bootstrap_fails_closed_witness:
  "lookup_at sample_prepared (http_place 0 0 0 0 @ [Key ''typed_config'', Key ''failure_mode_allow'']) = Some (JBool False)"
proof -
  have "http_filter_at sample_prepared 0 0 0 0 EXT_AUTHZ" by code_simp
  then show ?thesis using bootstrap_fails_closed [OF sample_prepares] by blast
qed

theorem bootstrap_private_endpoints_witness:
  "lookup_at sample_prepared [Key ''static_resources'', Key ''clusters'', Idx 0, Key ''load_assignment''] =
     Some (assignment ''opa'' ''/run/gateway/private/opa.sock'')"
proof -
  have "lookup_at sample_prepared [Key ''static_resources'', Key ''clusters'', Idx 0, Key ''name''] = Some (JStr ''opa'')"
    by code_simp
  moreover have "OPASocketPath Defaults = ''/run/gateway/private/opa.sock''" by code_simp
  ultimately show ?thesis using bootstrap_private_endpoints [OF sample_prepares, of "''opa''" 0] by simp
qed

definition envoy_run :: "string outcome \<times> world" where
  "envoy_run = prepareEnvoy (\<lambda>_. Some (JObj [])) sample_config False sample_os sample_world"

theorem prepareEnvoy_publishes_witness: "node (snd envoy_run) [''envoy.yaml''] = Some (File 420 ''e'')"
proof -
  have "prepareEnvoy (\<lambda>_. Some (JObj [])) sample_config False sample_os sample_world = (fst envoy_run, snd envoy_run)"
    by (simp add: envoy_run_def)
  from prepareEnvoy_publishes [OF this sample_ready]
  obtain D where "generated (node sample_world) sample_config ''envoy.json'' D (node (snd envoy_run))" by blast
  then show ?thesis by (rule sample_untouched)
qed

end
