(* ===== verification/OpaConfig.thy ===== *)
theory OpaConfig
  imports RuntimeFiles
begin

text \<open>
  \<^verbatim>\<open>internal/daemon/tracing.go\<close> and \<^verbatim>\<open>internal/daemon/opa.go\<close>: the configuration of the
  embedded OPA.  \<open>prepareOPA\<close> replaces the \<^verbatim>\<open>distributed_tracing\<close> section when tracing inputs
  were given, \<open>configurePolicyHost\<close> adds the settings the daemon owns when the policy
  extension is enabled.  Parameters: \<open>yaml\<close> (YAML text to a JSON value), \<open>percent\<close> (the JSON
  text of a ratio times 100 in floating point, \<open>None\<close> where \<^verbatim>\<open>json.Marshal\<close> refuses it) and
  the names that the policy package exports (\<open>policy_package\<close>).
\<close>

section \<open>The tracing section\<close>

definition opa_resource_key :: "string \<Rightarrow> string" where
  "opa_resource_key k =
     (case map_of
        [(''service.version'', ''service_version''), (''service.instance.id'', ''service_instance_id''),
         (''service.namespace'', ''service_namespace''), (''deployment.environment'', ''deployment_environment'')] k of
        None \<Rightarrow> [] | Some n \<Rightarrow> n)"

definition opa_batch_key :: "string \<Rightarrow> string" where
  "opa_batch_key k =
     (case map_of
        [(''SCHEDULE_DELAY'', ''batch_timeout_ms''), (''EXPORT_TIMEOUT'', ''export_timeout_ms''),
         (''MAX_QUEUE_SIZE'', ''max_queue_size''), (''MAX_EXPORT_BATCH_SIZE'', ''max_export_batch_size'')] k of
        None \<Rightarrow> [] | Some n \<Rightarrow> n)"

definition put_all :: "('a \<Rightarrow> string) \<Rightarrow> ('b \<Rightarrow> json) \<Rightarrow> ('a \<times> 'b) list \<Rightarrow> fields \<Rightarrow> fields" where
  "put_all nm enc kvs m = fold (\<lambda>(k, v). AList.update (nm k) (enc v)) kvs m"

definition opa_protocol :: "tracing \<Rightarrow> string" where
  "opa_protocol otel = (if Protocol otel = ''grpc'' then ''grpc'' else ''http'')"

definition encryption :: "tracing \<Rightarrow> string" where
  "encryption otel =
     (if ClientCertificate otel \<noteq> [] then ''mtls'' else if TLS otel then ''tls'' else ''off'')"

definition tracing_section :: "(f64 \<Rightarrow> string option) \<Rightarrow> tracing \<Rightarrow> json option" where
  "tracing_section percent otel =
     (if Disabled otel then Some (JObj [])
      else map_option (\<lambda>pct. JObj
        [(''type'', JStr (opa_protocol otel)), (''address'', JStr (Address otel)),
         (''service_name'', JStr (ServiceName otel)), (''sample_percentage'', JNum pct),
         (''encryption'', JStr (encryption otel)), (''allow_insecure_tls'', JBool False),
         (''tls_ca_cert_file'', JStr (tracing.Certificate otel)), (''tls_cert_file'', JStr (ClientCertificate otel)),
         (''tls_private_key_file'', JStr (ClientKey otel)),
         (''resource'', JObj (put_all opa_resource_key JStr (Resource otel) [])),
         (''batch_span_processor_options'',
            JObj (put_all opa_batch_key number (Batch otel) [(''blocking'', JBool False)]))])
        (percent (SampleRatio otel)))"

text \<open>The native configuration is an object, or nothing at all.\<close>

definition native_fields :: "json option \<Rightarrow> fields option" where
  "native_fields v = (case v of Some JNull \<Rightarrow> Some [] | Some (JObj m) \<Rightarrow> Some m | _ \<Rightarrow> None)"

definition with_tracing :: "(bytes \<Rightarrow> json option) \<Rightarrow> (f64 \<Rightarrow> string option) \<Rightarrow> tracing \<Rightarrow> bytes \<Rightarrow> (io_error, bytes) result" where
  "with_tracing yaml percent otel raw =
     (case native_fields (yaml raw) of
        None \<Rightarrow> Inl (Text ''invalid OPA configuration (content omitted)'')
      | Some native \<Rightarrow>
          (case tracing_section percent otel of
             None \<Rightarrow> Inl (Text ''json: unsupported value'')
           | Some sec \<Rightarrow> Inr (Marshal (JObj (AList.update ''distributed_tracing'' sec native)))))"

definition opa_json :: "config \<Rightarrow> string" where
  "opa_json c = join_path [RuntimeDir c, ''opa.json'']"

definition prepareOPA :: "(bytes \<Rightarrow> json option) \<Rightarrow> (f64 \<Rightarrow> string option) \<Rightarrow> config \<Rightarrow> string io" where
  "prepareOPA yaml percent c =
     (case Tracing c of
        None \<Rightarrow> ret (OPAConfig c)
      | Some otel \<Rightarrow>
          bind_io (read_file (OPAConfig c)) (\<lambda>raw.
          case with_tracing yaml percent otel raw of
            Inl e \<Rightarrow> raise e
          | Inr data \<Rightarrow> bind_io (WriteAtomic (opa_json c) data 384) (\<lambda>_. ret (opa_json c))))"

section \<open>The policy host\<close>

record policy_package =
  PluginName :: string
  DecisionPath :: string

record params =
  ConfigFile :: string
  Paths :: "string list"
  ConfigOverrides :: "string list"
  Addrs :: "string list"
  AddrSetByUser :: bool
  UnixSocketPerm :: string
  GracefulShutdownPeriod :: int
  ReadyTimeout :: int

text \<open>
  Decoding into \<^verbatim>\<open>struct{ Plugins map[string]json.RawMessage }\<close>: every key that folds to
  \<^verbatim>\<open>plugins\<close> is decoded into the map, null empties it, objects merge.
\<close>

definition plugins_step :: "string \<times> json \<Rightarrow> fields \<Rightarrow> (unit, fields) result" where
  "plugins_step kv acc =
     (if equal_fold (fst kv) ''plugins'' then
        (case snd kv of
           JNull \<Rightarrow> Inr []
         | JObj p \<Rightarrow> Inr (put_all id id p acc)
         | _ \<Rightarrow> Inl ())
      else Inr acc)"

definition decode_plugins :: "json option \<Rightarrow> fields option" where
  "decode_plugins v =
     (case v of
        Some JNull \<Rightarrow> Some []
      | Some (JObj m) \<Rightarrow>
          (case foldR plugins_step (sort_key fst m) [] of Inl _ \<Rightarrow> None | Inr p \<Rightarrow> Some p)
      | _ \<Rightarrow> None)"

text \<open>\<^verbatim>\<open>runtime.NewParams\<close> as far as the daemon sets it, before the policy host.\<close>

definition opa_params :: "config \<Rightarrow> string \<Rightarrow> string list \<Rightarrow> params" where
  "opa_params c configFile policies =
     \<lparr>ConfigFile = configFile, Paths = policies,
      ConfigOverrides = [''plugins.envoy_ext_authz_grpc.addr='' @ OPAAddress c,
        ''plugins.envoy_ext_authz_grpc.dry-run=false'', ''plugins.envoy_ext_authz_grpc.enable-reflection=false''],
      Addrs = [''unix://'' @ join_path [RuntimeDir c, ''opa-api.sock'']], AddrSetByUser = True,
      UnixSocketPerm = ''0600'', GracefulShutdownPeriod = 2, ReadyTimeout = 20\<rparr>"

definition host_overrides :: "policy_package \<Rightarrow> config \<Rightarrow> string list" where
  "host_overrides pkg c =
     [''plugins.'' @ PluginName pkg @ ''.role='' @ Role c,
      ''plugins.envoy_ext_authz_grpc.path='' @ DecisionPath pkg,
      ''plugins.envoy_ext_authz_grpc.skip-request-body-parse=true'']"

definition configurePolicyHost :: "(bytes \<Rightarrow> json option) \<Rightarrow> policy_package \<Rightarrow> config \<Rightarrow> params \<Rightarrow> (bool \<times> params) io" where
  "configurePolicyHost yaml pkg c p =
     bind_io (read_file (ConfigFile p)) (\<lambda>raw.
     case decode_plugins (yaml raw) of
       None \<Rightarrow> raise (Text ''invalid OPA configuration (content omitted)'')
     | Some plugins \<Rightarrow>
         if map_of plugins (PluginName pkg) = None then ret (False, p)
         else if Paths p \<noteq> [] then raise (Text ''Policy extension cannot be combined with fixture policies'')
         else ret (True, p\<lparr>ConfigOverrides := ConfigOverrides p @ host_overrides pkg c\<rparr>))"

section \<open>Lemmas\<close>

lemma put_all_Nil [simp]: "put_all nm enc [] m = m"
  by (simp add: put_all_def)

lemma put_all_Cons [simp]: "put_all nm enc ((k, v) # kvs) m = put_all nm enc kvs (AList.update (nm k) (enc v) m)"
  by (simp add: put_all_def)

lemma put_all_other: "j \<notin> nm ` fst ` set kvs \<Longrightarrow> map_of (put_all nm enc kvs m) j = map_of m j"
  by (induction kvs arbitrary: m) auto

lemma put_all_entry:
  assumes "inj_on nm (fst ` set kvs)" and "distinct (map fst kvs)" and "(k, v) \<in> set kvs"
  shows "map_of (put_all nm enc kvs m) (nm k) = Some (enc v)"
  using assms
proof (induction kvs arbitrary: m)
  case (Cons kv kvs)
  obtain a b where kv: "kv = (a, b)" by fastforce
  show ?case
  proof (cases "(k, v) = kv")
    case True
    then have "nm k \<notin> nm ` fst ` set kvs"
      using Cons.prems(1,2) by (auto simp: inj_on_def)
    then show ?thesis using True by (auto simp: put_all_other)
  next
    case False
    then show ?thesis using Cons kv by (auto simp: inj_on_def)
  qed
qed simp

lemma resource_key_inj: "inj_on opa_resource_key (set resource_keys)"
  by (simp add: resource_keys_def opa_resource_key_def)

lemma batch_key_inj: "inj_on opa_batch_key (set batch_suffixes)"
  by (simp add: batch_suffixes_def opa_batch_key_def)

lemma filter_update_other: "\<not> P k \<Longrightarrow> filter (\<lambda>kv. P (fst kv)) (AList.update k v m) = filter (\<lambda>kv. P (fst kv)) m"
  by (induction m) auto

lemma plugins_filter: "foldR plugins_step kvs acc = foldR plugins_step (filter (\<lambda>kv. equal_fold (fst kv) ''plugins'') kvs) acc"
  by (induction kvs arbitrary: acc) (auto simp: plugins_step_def bindR_def split: sum.splits json.splits)

lemma tracing_not_plugins: "\<not> equal_fold ''distributed_tracing'' ''plugins''"
  by code_simp

section \<open>Properties\<close>

text \<open>
  C39: an accepted tracing configuration reaches OPA completely: every resource attribute and
  every batch setting is in the section under a name of its own, the exporter never blocks,
  never skips verification, and names TLS files only when the connection is encrypted.
\<close>

theorem accepted_tracing_reaches_opa:
  assumes "LoadTracing lib lookup = Inr (Some t)" and "\<not> Disabled t" and "percent (SampleRatio t) = Some pct"
  shows "\<exists>d. tracing_section percent t = Some (JObj d) \<and>
    map_of d ''sample_percentage'' = Some (JNum pct) \<and> map_of d ''allow_insecure_tls'' = Some (JBool False) \<and>
    lookup_at (JObj d) [Key ''batch_span_processor_options'', Key ''blocking''] = Some (JBool False) \<and>
    (\<forall>(k, v) \<in> set (Resource t). lookup_at (JObj d) [Key ''resource'', Key (opa_resource_key k)] = Some (JStr v)) \<and>
    (\<forall>(k, n) \<in> set (Batch t).
       lookup_at (JObj d) [Key ''batch_span_processor_options'', Key (opa_batch_key k)] = Some (number n)) \<and>
    (map_of d ''encryption'' = Some (JStr ''off'') \<longrightarrow> map_of d ''tls_ca_cert_file'' = Some (JStr []) \<and>
       map_of d ''tls_cert_file'' = Some (JStr []) \<and> map_of d ''tls_private_key_file'' = Some (JStr []))"
proof -
  have t: "tracing_ok t" by (rule LoadTracing_tracing_ok(1) [OF assms(1,2)])
  then have s: "fst ` set (Resource t) \<subseteq> set resource_keys" "fst ` set (Batch t) \<subseteq> set batch_suffixes"
    and d: "distinct (map fst (Resource t))" "distinct (map fst (Batch t))"
    by (auto simp: tracing_ok_def resource_ok_def batch_ok_def)
  note r = inj_on_subset [OF resource_key_inj s(1)] d(1) and b = inj_on_subset [OF batch_key_inj s(2)] d(2) s(2)
  have "''blocking'' \<notin> opa_batch_key ` fst ` set (Batch t)"
    using b(3) by (auto simp: batch_suffixes_def opa_batch_key_def dest!: subsetD)
  then show ?thesis
    using t put_all_entry [OF r] put_all_entry [OF b(1,2)]
    by (auto simp: tracing_section_def assms(2,3) put_all_other encryption_def tracing_ok_def tls_ok_def split: if_splits)
qed

text \<open>
  C40: writing the tracing section replaces that section only: without tracing inputs the
  native configuration is used as it is and no file changes; with them every other section,
  and so the enabled plugins, are those of the native configuration, and only
  \<^verbatim>\<open>opa.json\<close> in the runtime directory can change, atomically.
\<close>

theorem prepareOPA_replaces_only_tracing:
  assumes "prepareOPA yaml percent c os w = (res, w')" and "runtime_ready c (node w)"
  shows "(Tracing c = None \<longrightarrow> res = Done (OPAConfig c) \<and> w' = w) \<and>
    (\<forall>otel. Tracing c = Some otel \<longrightarrow>
       generated (node w) c ''opa.json'' (\<lambda>data. \<exists>raw. reads (node w) (OPAConfig c) raw \<and> with_tracing yaml percent otel raw = Inr data) (node w') \<and>
       (res = Done path \<longrightarrow> path = opa_json c \<and>
          (\<exists>raw native sec. reads (node w) (OPAConfig c) raw \<and> native_fields (yaml raw) = Some native \<and>
             tracing_section percent otel = Some sec \<and>
             (let out = AList.update ''distributed_tracing'' sec native in
                node w' (runtime_path c ''opa.json'') = Some (File 384 (Marshal (JObj out))) \<and>
                map_of out = (map_of native)(''distributed_tracing'' \<mapsto> sec) \<and>
                decode_plugins (Some (JObj out)) = decode_plugins (Some (JObj native))))))"
proof (cases "Tracing c")
  case None
  then show ?thesis using assms(1) by (simp add: prepareOPA_def ret_def)
next
  case (Some otel)
  have f: "proper ''opa.json''" "\<not> prefix temp_prefix ''opa.json''" by (simp_all add: proper_def temp_prefix_def)
  let ?D = "\<lambda>data. \<exists>raw. reads (node w) (OPAConfig c) raw \<and> with_tracing yaml percent otel raw = Inr data"
  have run: "bind_io (read_file (OPAConfig c)) (\<lambda>raw.
      case with_tracing yaml percent otel raw of Inl e \<Rightarrow> raise e
      | Inr data \<Rightarrow> bind_io (WriteAtomic (join_path [RuntimeDir c, ''opa.json'']) data 384) (\<lambda>_. ret (opa_json c))) os w = (res, w')"
    using assms(1) unfolding prepareOPA_def Some option.case opa_json_def .
  have out: "case res of Done x \<Rightarrow> x = opa_json c \<and> (\<exists>raw data. reads (node w) (OPAConfig c) raw \<and>
        with_tracing yaml percent otel raw = Inr data \<and> generated (node w) c ''opa.json'' ((=) data) (node w') \<and>
        node w' (runtime_path c ''opa.json'') = Some (File 384 data))
      | Failed e \<Rightarrow> generated (node w) c ''opa.json'' ?D (node w') | Killed \<Rightarrow> generated (node w) c ''opa.json'' ?D (node w')"
    by (rule specD [OF spec_generate [OF assms(2) f, of "OPAConfig c" "with_tracing yaml percent otel" ?D "opa_json c"] refl run]) blast
  have plugins: "decode_plugins (Some (JObj (AList.update ''distributed_tracing'' sec native))) = decode_plugins (Some (JObj native))"
    for sec native
    unfolding decode_plugins_def option.case json.case
    by (subst (1 2) plugins_filter)
      (simp add: filter_sort filter_update_other [where P = "\<lambda>k. equal_fold k ''plugins''", OF tracing_not_plugins])
  show ?thesis
  proof (cases res)
    case (Done x)
    then obtain raw data where d: "x = opa_json c" "reads (node w) (OPAConfig c) raw" "with_tracing yaml percent otel raw = Inr data"
      "generated (node w) c ''opa.json'' ((=) data) (node w')" "node w' (runtime_path c ''opa.json'') = Some (File 384 data)"
      using out by auto
    then obtain native sec where n: "native_fields (yaml raw) = Some native" "tracing_section percent otel = Some sec"
        "data = Marshal (JObj (AList.update ''distributed_tracing'' sec native))"
      by (auto simp: with_tracing_def split: option.splits)
    have g: "generated (node w) c ''opa.json'' ?D (node w')" using d by (auto elim!: generated_mono)
    have "\<exists>raw native sec. reads (node w) (OPAConfig c) raw \<and> native_fields (yaml raw) = Some native \<and>
             tracing_section percent otel = Some sec \<and>
             (let out = AList.update ''distributed_tracing'' sec native in
                node w' (runtime_path c ''opa.json'') = Some (File 384 (Marshal (JObj out))) \<and>
                map_of out = (map_of native)(''distributed_tracing'' \<mapsto> sec) \<and>
                decode_plugins (Some (JObj out)) = decode_plugins (Some (JObj native)))"
      using d(2,5) n plugins by (intro exI [of _ raw] exI [of _ native] exI [of _ sec]) (simp add: Let_def update_conv')
    then show ?thesis using g d(1) Done Some by simp
  qed (use out Some in auto)
qed

text \<open>
  The policy extension and its role are the daemon's: the extension is enabled exactly
  when the native configuration names its plugin and then no fixture policy may be loaded;
  the settings of role, decision path and body parsing are appended once, all others are
  kept, and no file changes.
\<close>

theorem policy_host_owns_settings:
  assumes "configurePolicyHost yaml pkg c p os w = (res, w')"
  shows "node w' = node w \<and>
    (res = Done (enabled, p') \<longrightarrow> (\<exists>raw plugins. reads (node w) (ConfigFile p) raw \<and> decode_plugins (yaml raw) = Some plugins \<and>
       enabled = (map_of plugins (PluginName pkg) \<noteq> None) \<and>
       p' = (if enabled then p\<lparr>ConfigOverrides := ConfigOverrides p @ host_overrides pkg c\<rparr> else p) \<and>
       (enabled \<longrightarrow> Paths p = [])))"
proof -
  have "spec (\<lambda>v. v = node w) (configurePolicyHost yaml pkg c p)
      (\<lambda>r v. v = node w \<and> (\<exists>raw plugins. reads (node w) (ConfigFile p) raw \<and> decode_plugins (yaml raw) = Some plugins \<and>
         fst r = (map_of plugins (PluginName pkg) \<noteq> None) \<and>
         snd r = (if fst r then p\<lparr>ConfigOverrides := ConfigOverrides p @ host_overrides pkg c\<rparr> else p) \<and>
         (fst r \<longrightarrow> Paths p = []))) (\<lambda>_ v. v = node w) (\<lambda>v. v = node w)"
    unfolding configurePolicyHost_def
    by (rule spec_bind [OF spec_read_file]) (auto intro!: spec_ret spec_raise split: option.split)
  from specD [OF this refl assms] show ?thesis by (cases res) auto
qed

text \<open>Concrete inputs, for the witnesses.\<close>

theorem accepted_tracing_reaches_opa_witness:
  "\<exists>t d. LoadTracing plain_lib sample_env = Inr (Some t) \<and> tracing_section (\<lambda>_. Some ''100'') t = Some (JObj d) \<and>
    map_of d ''allow_insecure_tls'' = Some (JBool False)"
proof -
  obtain t where t: "LoadTracing plain_lib sample_env = Inr (Some t)" "\<not> Disabled t"
    using sample_env_loads by (auto split: sum.splits option.splits)
  then show ?thesis using accepted_tracing_reaches_opa [OF t, of "\<lambda>_. Some ''100''"] by blast
qed

definition opa_run :: "string outcome \<times> world" where
  "opa_run = prepareOPA (\<lambda>_. Some (JObj [])) (\<lambda>_. Some ''100'') (sample_config\<lparr>Tracing := Some fresh_tracing\<rparr>) sample_os sample_world"

theorem prepareOPA_replaces_only_tracing_witness: "node (snd opa_run) [''envoy.yaml''] = Some (File 420 ''e'')"
proof -
  let ?c = "sample_config\<lparr>Tracing := Some fresh_tracing\<rparr>"
  have "prepareOPA (\<lambda>_. Some (JObj [])) (\<lambda>_. Some ''100'') ?c sample_os sample_world = (fst opa_run, snd opa_run)"
    by (simp add: opa_run_def)
  moreover have "runtime_ready ?c (node sample_world)"
    using sample_ready by (simp add: runtime_ready_def)
  ultimately obtain D where "generated (node sample_world) ?c ''opa.json'' D (node (snd opa_run))"
    using prepareOPA_replaces_only_tracing by fastforce
  then have "generated (node sample_world) sample_config ''opa.json'' D (node (snd opa_run))"
    by (simp add: generated_def runtime_path_def)
  then show ?thesis by (rule sample_untouched)
qed

definition policy_run :: "(bool \<times> params) outcome \<times> world" where
  "policy_run = configurePolicyHost (\<lambda>_. Some (JObj [(''Plugins'', JObj [(''p'', JNull)])])) \<lparr>PluginName = ''p'', DecisionPath = ''d''\<rparr>
     sample_config (opa_params sample_config ''/envoy.yaml'' []) sample_os sample_world"

theorem policy_host_owns_settings_witness:
  "node (snd policy_run) = node sample_world \<and> (case fst policy_run of Done (b, p) \<Rightarrow> b \<and> Addrs p = [''unix:///run/gateway/private/opa-api.sock''] | _ \<Rightarrow> False)"
proof
  show "node (snd policy_run) = node sample_world"
    using policy_host_owns_settings [OF prod.collapse [symmetric]] unfolding policy_run_def by blast
  show "case fst policy_run of Done (b, p) \<Rightarrow> b \<and> Addrs p = [''unix:///run/gateway/private/opa-api.sock''] | _ \<Rightarrow> False"
    by code_simp
qed

end
