(* ===== verification/DaemonSetup.thy ===== *)
theory DaemonSetup
  imports EnvoyBootstrap OpaConfig SDS
begin

text \<open>
  \<^verbatim>\<open>internal/daemon/daemon.go\<close>, the first half of \<^verbatim>\<open>Run\<close>: everything up to the
  goroutine that serves OPA, as a program over the file system.  The deferred calls of
  \<^verbatim>\<open>Run\<close> appear as \<open>on_error\<close>: when a later step fails they run, when all succeed they are
  left to the supervisor.  The record \<open>host\<close> collects the parameters: cryptography, the
  state codec, YAML, the policy package and the construction of the OPA runtime.  The lemmas
  show what a completed setup owns and has written.
\<close>

record host =
  h_crypto :: crypto
  h_codec :: codec
  h_yaml :: "bytes \<Rightarrow> json option"
  h_percent :: "f64 \<Rightarrow> string option"
  h_policy :: policy_package
  NewRuntime :: "params \<Rightarrow> bool"

record prepared =
  p_lock :: path
  p_ca :: "authority option"
  p_secrets :: "server option"
  p_params :: params
  policyExtension :: bool

definition daemon_lock :: "config \<Rightarrow> string" where
  "daemon_lock c = join_path [RuntimeDir c, ''.daemon.lock'']"

definition http_guard :: "config \<Rightarrow> string" where
  "http_guard c = join_path [RuntimeDir c, ''http-guard.lua'']"

definition is_socket :: "node \<Rightarrow> bool" where
  "is_socket n = (case n of Socket m \<Rightarrow> True | _ \<Rightarrow> False)"

text \<open>\<^verbatim>\<open>Authority.Close\<close>: the directory of an open authority has no links, so its lock is there.\<close>

definition Close :: "config \<Rightarrow> unit io" where
  "Close c = close_lock (elems (StateDir c) @ [''.lock''])"

definition remove_stale_socket :: "string \<Rightarrow> unit io" where
  "remove_stale_socket path =
     bind_io (attempt (lstat path)) (\<lambda>r.
     case r of
       Inr info \<Rightarrow>
         bind_io (guard_io (is_socket info) (Text ''inspection SDS path is not a socket'')) (\<lambda>_. unlink path)
     | Inl e \<Rightarrow> if e = ErrNotExist then ret () else raise e)"

definition start_secrets :: "host \<Rightarrow> config \<Rightarrow> time \<Rightarrow> nat \<Rightarrow> (authority \<times> server) io" where
  "start_secrets h c now r =
     bind_io (Open (h_crypto h) (h_codec h) (StateDir c) (PublicDir c) now r) (\<lambda>ca.
     on_error (Close c)
      (case NewSecretServer (Some ca) 64 of
         None \<Rightarrow> raise (Text ''NewSecretServer'')
       | Some certificates \<Rightarrow>
           bind_io (remove_stale_socket (InspectionSDSPath c)) (\<lambda>_.
           bind_io (listen_unix (InspectionSDSPath c)) (\<lambda>_.
           on_error (unlink (InspectionSDSPath c))
            (bind_io (chmod_path (InspectionSDSPath c) 384) (\<lambda>_. ret (ca, certificates)))))))"

text \<open>On a later failure: the server stops, the listener unlinks its socket, the authority closes.\<close>

definition stop_secrets :: "config \<Rightarrow> unit io" where
  "stop_secrets c = deferring (Close c) (unlink (InspectionSDSPath c))"

definition start_opa :: "host \<Rightarrow> config \<Rightarrow> string list \<Rightarrow> (bool \<times> params) io" where
  "start_opa h c policies =
     bind_io (prepareOPA (h_yaml h) (h_percent h) c) (\<lambda>configFile.
     bind_io (configurePolicyHost (h_yaml h) (h_policy h) c (opa_params c configFile policies)) (\<lambda>(ext, params).
     bind_io (guard_io (NewRuntime h params) (Text ''initialize OPA'')) (\<lambda>_.
     ret (ext, params))))"

text \<open>The part of \<^verbatim>\<open>Run\<close> under the lock of the runtime directory.\<close>

definition prepare_locked :: "host \<Rightarrow> config \<Rightarrow> string list \<Rightarrow> time \<Rightarrow> nat \<Rightarrow> path \<Rightarrow> prepared io" where
  "prepare_locked h c policies now r lock =
     bind_io (WriteAtomic (RequestGuardPath c) (Source (Role c)) 384) (\<lambda>_.
     bind_io (WriteAtomic (http_guard c) (HTTPSource (Role c)) 384) (\<lambda>_.
     if Role c = Workload then
       bind_io (start_secrets h c now r) (\<lambda>(ca, certificates).
       on_error (stop_secrets c)
        (bind_io (start_opa h c policies) (\<lambda>(ext, params).
         ret \<lparr>p_lock = lock, p_ca = Some ca, p_secrets = Some certificates, p_params = params, policyExtension = ext\<rparr>)))
     else
       bind_io (start_opa h c policies) (\<lambda>(ext, params).
       ret \<lparr>p_lock = lock, p_ca = None, p_secrets = None, p_params = params, policyExtension = ext\<rparr>)))"

definition prepare_run :: "host \<Rightarrow> config \<Rightarrow> string list \<Rightarrow> time \<Rightarrow> nat \<Rightarrow> prepared io" where
  "prepare_run h c policies now r =
     bind_io (guard_io (Validate c = Inr ()) (Text ''invalid configuration'')) (\<lambda>_.
     bind_io (Directory (RuntimeDir c) 448) (\<lambda>_.
     bind_io (open_rw (daemon_lock c) 384) (\<lambda>lock.
     bind_io (attempt (flock lock)) (\<lambda>locked.
     bind_io (guard_io (ok locked) (Text ''runtime directory already owned by another daemon'')) (\<lambda>_.
     on_error (close_lock lock) (prepare_locked h c policies now r lock))))))"

section \<open>What setup owns\<close>

lemma lockless_WriteAtomic [lockless_intros]: "lockless (WriteAtomic p d m)"
  unfolding WriteAtomic_def by (intro lockless_writeAtomic lockless_intros)

lemma lockless_start_opa [lockless_intros]: "lockless (start_opa h c policies)"
proof -
  have "lockless (prepareOPA y pct c)" for y pct
    unfolding prepareOPA_def by (auto intro!: lockless_intros split: option.split sum.split)
  moreover have "lockless (configurePolicyHost y pkg c p)" for y pkg p
    unfolding configurePolicyHost_def by (intro lockless_intros) (auto intro!: lockless_intros split: option.split)
  ultimately show ?thesis
    unfolding start_opa_def by (auto intro!: lockless_intros split: prod.split)
qed

lemma lockless_remove_stale [lockless_intros]: "lockless (remove_stale_socket p)"
  unfolding remove_stale_socket_def by (auto intro!: lockless_intros split: sum.split)

lemma lockless_on_error [lockless_intros]:
  assumes "lockless c" "lockless a"
  shows "lockless (on_error c a)"
  unfolding lockless_def
proof (intro allI impI)
  fix os w r w' assume run: "on_error c a os w = (r, w')"
  obtain r1 w1 where 1: "a os w = (r1, w1)" by fastforce
  obtain r2 w2 where 2: "c os w1 = (r2, w2)" by fastforce
  show "foreign w' = foreign w \<and> (r \<noteq> Killed \<longrightarrow> held w' = held w)"
    using locklessD [OF assms(2) 1] locklessD [OF assms(1) 2] run 1 2
    by (cases r1; cases r2) (auto simp: on_error_def)
qed

abbreviation ca_lock :: "config \<Rightarrow> path" where "ca_lock c \<equiv> elems (StateDir c) @ [''.lock'']"

lemma Close_releases: "releases (Close c) (ca_lock c)"
  unfolding Close_def by (rule close_lock_releases)

lemma stop_secrets_releases: "releases (stop_secrets c) (ca_lock c)"
  unfolding releases_def
proof (intro allI impI)
  fix os w r w' assume run: "stop_secrets c os w = (r, w')"
  obtain r1 w1 where 1: "unlink (InspectionSDSPath c) os w = (r1, w1)" by fastforce
  obtain r2 w2 where 2: "Close c os w1 = (r2, w2)" by fastforce
  have "foreign w2 = foreign w1 \<and> (r2 \<noteq> Killed \<longrightarrow> held w2 = removeAll (ca_lock c) (held w1))"
    using Close_releases 2 unfolding releases_def by blast
  then show "foreign w' = foreign w \<and> (r \<noteq> Killed \<longrightarrow> held w' = removeAll (ca_lock c) (held w))"
    using locklessD [OF lockless_paths(3) 1] run 1 2 by (cases r1; cases r2) (auto simp: stop_secrets_def deferring_def)
qed

lemma takes_start_secrets: "takes (start_secrets h c now r) [ca_lock c]"
  unfolding start_secrets_def
proof (rule takes_then [OF takes_Open Close_releases], intro exI conjI, rule refl)
  fix ca
  show "lockless (case NewSecretServer (Some ca) 64 of
         None \<Rightarrow> raise (Text ''NewSecretServer'')
       | Some certificates \<Rightarrow>
           bind_io (remove_stale_socket (InspectionSDSPath c)) (\<lambda>_.
           bind_io (listen_unix (InspectionSDSPath c)) (\<lambda>_.
           on_error (unlink (InspectionSDSPath c))
            (bind_io (chmod_path (InspectionSDSPath c) 384) (\<lambda>_. ret (ca, certificates))))))"
    by (auto intro!: lockless_intros split: option.split)
qed

definition ca_locks :: "config \<Rightarrow> path list" where
  "ca_locks c = (if Role c = Workload then [ca_lock c] else [])"

lemma takes_prepare_locked: "takes (prepare_locked h c policies now r lock) (ca_locks c)"
proof -
  have opa: "lockless (bind_io (start_opa h c policies) (\<lambda>(ext, params).
      ret \<lparr>p_lock = lock, p_ca = ca, p_secrets = sec, p_params = params, policyExtension = ext\<rparr>))" for ca sec
    by (auto intro!: lockless_intros split: prod.split)
  have "takes (if Role c = Workload then
         bind_io (start_secrets h c now r) (\<lambda>(ca, certificates).
         on_error (stop_secrets c)
          (bind_io (start_opa h c policies) (\<lambda>(ext, params).
           ret \<lparr>p_lock = lock, p_ca = Some ca, p_secrets = Some certificates, p_params = params, policyExtension = ext\<rparr>)))
       else
         bind_io (start_opa h c policies) (\<lambda>(ext, params).
         ret \<lparr>p_lock = lock, p_ca = None, p_secrets = None, p_params = params, policyExtension = ext\<rparr>)) (ca_locks c)"
  proof (cases "Role c = Workload")
    case True
    have "takes (bind_io (start_secrets h c now r) (\<lambda>(ca, certificates).
         on_error (stop_secrets c)
          (bind_io (start_opa h c policies) (\<lambda>(ext, params).
           ret \<lparr>p_lock = lock, p_ca = Some ca, p_secrets = Some certificates, p_params = params, policyExtension = ext\<rparr>)))) [ca_lock c]"
      by (rule takes_then [OF takes_start_secrets stop_secrets_releases]) (use opa in \<open>auto split: prod.split\<close>)
    then show ?thesis using True by (simp add: ca_locks_def)
  next
    case False
    then show ?thesis using takes_lockless [OF opa] by (simp add: ca_locks_def)
  qed
  then show ?thesis
    unfolding prepare_locked_def by (intro takes_after_lockless lockless_WriteAtomic)
qed

lemma takes_prepare_run: "takes_one (prepare_run h c policies now r) (ca_locks c)"
  unfolding prepare_run_def
  by (intro takes_one_bind takes_one_locked [OF takes_prepare_locked] lockless_intros)

text \<open>A completed setup, step by step.\<close>

lemma prepare_locked_Done:
  assumes "prepare_locked h c policies now r lock os w = (Done p, w')"
  obtains ext params ca sec w0 w1 where
    "start_opa h c policies os w1 = (Done (ext, params), w')"
    "p = \<lparr>p_lock = lock, p_ca = ca, p_secrets = sec, p_params = params, policyExtension = ext\<rparr>"
    "if Role c = Workload then \<exists>a svc. start_secrets h c now r os w0 = (Done (a, svc), w1) \<and> ca = Some a \<and> sec = Some svc
     else ca = None \<and> sec = None"
  using assms unfolding prepare_locked_def
  by (cases "Role c = Workload") (auto simp: bind_io_Done on_error_Done ret_def split: prod.splits)

lemma prepare_run_Done:
  assumes "prepare_run h c policies now r os w = (Done p, w')"
  obtains w1 w2 w3 where "config_ok c" "Directory (RuntimeDir c) 448 os w = (Done (), w1)"
    "open_rw (daemon_lock c) 384 os w1 = (Done (p_lock p), w2)"
    "prepare_locked h c policies now r (p_lock p) os w3 = (Done p, w')"
    "held w' = ca_locks c @ p_lock p # held w" "set (p_lock p # ca_locks c) \<inter> (set (held w) \<union> set (foreign w)) = {}"
proof -
  obtain w1 w2 w3 lock locked w4 where v: "config_ok c" and d: "Directory (RuntimeDir c) 448 os w = (Done (), w1)"
    and l: "open_rw (daemon_lock c) 384 os w1 = (Done lock, w2)" and f: "attempt (flock lock) os w2 = (Done locked, w3)" "ok locked"
    and p: "prepare_locked h c policies now r lock os w3 = (Done p, w')"
    using assms unfolding prepare_run_def by (auto simp: bind_io_Done guard_io_Done on_error_Done Validate_config_ok)
  have lock: "p_lock p = lock" using p by (rule prepare_locked_Done) simp
  have "bind_io (attempt (flock lock)) (\<lambda>locked.
      bind_io (guard_io (ok locked) (Text [])) (\<lambda>_. on_error (close_lock lock) (prepare_locked h c policies now r lock))) os w2 = (Done p, w')"
    using f p by (simp add: bind_io_Done guard_io_Done on_error_Done)
  from takesD [OF takes_locked [OF takes_prepare_locked] this]
  have "held w' = ca_locks c @ lock # held w2" "set (lock # ca_locks c) \<inter> (set (held w2) \<union> set (foreign w2)) = {}" by auto
  moreover have "held w2 = held w" "foreign w2 = foreign w"
    using locklessD [OF lockless_Directory d] locklessD [OF lockless_paths(1) l] by simp_all
  ultimately show thesis using that v d l p lock by simp
qed

text \<open>The lock of the runtime directory is its file \<^verbatim>\<open>.daemon.lock\<close>, when that is not a link.\<close>

definition no_link :: "view \<Rightarrow> path \<Rightarrow> bool" where
  "no_link v l = (case v l of Some (Symlink t) \<Rightarrow> False | _ \<Rightarrow> True)"

lemma no_link_iff: "no_link v l \<longleftrightarrow> (\<forall>t. v l \<noteq> Some (Symlink t))"
  by (auto simp: no_link_def split: option.splits node.splits)

lemma open_rw_Done:
  assumes "open_rw p m os w = (Done l, w')" "entry (node w) p = Inr q" "no_link (node w) q"
  shows "l = q"
proof -
  have q: "final_entry max_links (node w) p = Inr q"
    using assms(2,3) by (subst final_entry.simps) (auto simp: no_link_def split: option.splits node.splits)
  show ?thesis
    using assms(1) by (auto simp: open_rw_def change_def sys_def bindR_def q split: event.splits prod.splits option.splits node.splits)
qed

lemma setup_lock:
  assumes "prepare_run h c policies now r os w = (Done p, w')" "no_link (node w) (runtime_path c ''.daemon.lock'')"
  shows "p_lock p = runtime_path c ''.daemon.lock''"
proof -
  obtain w1 w2 where d: "Directory (RuntimeDir c) 448 os w = (Done (), w1)"
    and l: "open_rw (daemon_lock c) 384 os w1 = (Done (p_lock p), w2)"
    using prepare_run_Done [OF assms(1)] by metis
  have 1: "dirs_added (node w) (node w1)" "private_dir (node w1) (RuntimeDir c) 448"
    using specD [OF spec_Directory _ d, of "node w"] by (simp_all add: dirs_added_def)
  have "entry (node w1) (daemon_lock c) = Inr (runtime_path c ''.daemon.lock'')"
    using 1(2) entry_in [of "RuntimeDir c" "''.daemon.lock''" "node w1"]
    by (simp add: private_dir_def daemon_lock_def runtime_path_def proper_def)
  moreover have "no_link (node w1) (runtime_path c ''.daemon.lock'')"
    unfolding no_link_iff
  proof (intro allI notI)
    fix t assume t: "node w1 (runtime_path c ''.daemon.lock'') = Some (Symlink t)"
    then have "node w (runtime_path c ''.daemon.lock'') \<noteq> None" using 1(1) by (auto simp: dirs_added_def is_dir_def)
    then show False using 1(1) assms(2) t by (auto simp: dirs_added_def kept_def no_link_iff)
  qed
  ultimately show ?thesis using open_rw_Done [OF l] by simp
qed

lemma setup_locks:
  "case prepare_run h c policies now r os w of
     (Done p, w') \<Rightarrow> held w' = ca_locks c @ p_lock p # held w \<and>
       set (p_lock p # ca_locks c) \<inter> (set (held w) \<union> set (foreign w)) = {} \<and> foreign w' = foreign w
   | (Failed e, w') \<Rightarrow> held w' = held w \<and> foreign w' = foreign w
   | (Killed, w') \<Rightarrow> foreign w' = foreign w"
proof -
  obtain res w' where run: "prepare_run h c policies now r os w = (res, w')" by fastforce
  then obtain l where l: "lock_post (ca_locks c @ [l]) w res w'"
    using takes_prepare_run unfolding takes_one_def by blast
  show ?thesis
  proof (cases res)
    case (Done p)
    show ?thesis using prepare_run_Done [OF run [unfolded Done]] l unfolding run Done by auto
  qed (use l run in auto)
qed

section \<open>Properties\<close>

text \<open>
  C1: the daemon owns its directories exactly while it runs: a completed setup holds the lock
  of the runtime directory and, for a workload, of the authority's directory, none of which
  anybody held before; a failed setup, wherever it failed, holds none.
\<close>

theorem setup_owns_directories:
  "case prepare_run h c policies now r os w of
     (Done p, w') \<Rightarrow> held w' = ca_locks c @ p_lock p # held w \<and>
       set (p_lock p # ca_locks c) \<inter> (set (held w) \<union> set (foreign w)) = {} \<and> foreign w' = foreign w
   | (Failed e, w') \<Rightarrow> held w' = held w \<and> foreign w' = foreign w
   | (Killed, w') \<Rightarrow> foreign w' = foreign w"
  by (rule setup_locks)

text \<open>
  C3: two daemons never run on one runtime directory: while another process holds the lock of
  the directory, no setup for it completes, whatever else the other process does.
\<close>

theorem second_daemon_is_refused:
  "if no_link (node w) (runtime_path c ''.daemon.lock'') \<and> runtime_path c ''.daemon.lock'' \<in> set (foreign w)
   then case prepare_run h c policies now r os w of (Done p, w') \<Rightarrow> False | _ \<Rightarrow> True
   else True"
proof -
  have "\<not> (no_link (node w) (runtime_path c ''.daemon.lock'') \<and> runtime_path c ''.daemon.lock'' \<in> set (foreign w))"
    if "prepare_run h c policies now r os w = (Done p, w')" for p w'
  proof -
    have "p_lock p \<notin> set (foreign w)" by (rule prepare_run_Done [OF that]) simp
    then show ?thesis using setup_lock [OF that] by auto
  qed
  then show ?thesis by (auto split: prod.split outcome.split)
qed

lemma start_opa_Done:
  assumes "start_opa h c policies os w = (Done (ext, params), w')"
  shows "NewRuntime h params \<and> Paths params = policies \<and> (ext \<longrightarrow> policies = []) \<and>
    (\<exists>f. params = (opa_params c f policies)\<lparr>ConfigOverrides :=
       ConfigOverrides (opa_params c f policies) @ (if ext then host_overrides (h_policy h) c else [])\<rparr>)"
proof -
  obtain f w1 w2 where
    f: "configurePolicyHost (h_yaml h) (h_policy h) c (opa_params c f policies) os w1 = (Done (ext, params), w2)" "NewRuntime h params"
    using assms unfolding start_opa_def by (auto simp: bind_io_Done guard_io_Done ret_def split: prod.splits)
  have "params = (if ext then (opa_params c f policies)\<lparr>ConfigOverrides := ConfigOverrides (opa_params c f policies) @ host_overrides (h_policy h) c\<rparr>
      else opa_params c f policies) \<and> (ext \<longrightarrow> policies = [])"
    using f(1) unfolding configurePolicyHost_def
    by (auto simp: bind_io_Done ret_def raise_def opa_params_def split: option.splits if_splits)
  then show ?thesis using f(2) by (auto simp: opa_params_def)
qed

lemma start_secrets_Done:
  assumes "start_secrets h c now r os w = (Done (ca, svc), w')"
  shows "usable now (Certificate ca)" "NewSecretServer (Some ca) 64 = Some svc"
proof -
  obtain w1 where o: "Open (h_crypto h) (h_codec h) (StateDir c) (PublicDir c) now r os w = (Done ca, w1)"
      "NewSecretServer (Some ca) 64 = Some svc"
    using assms unfolding start_secrets_def
    by (auto simp: bind_io_Done on_error_Done ret_def raise_def split: option.splits)
  then show "NewSecretServer (Some ca) 64 = Some svc" by simp
  obtain s where "check_pair (h_crypto h) now s = Inr ca"
    using specD [OF spec_Open refl o(1)] by (auto simp: opened_with_def)
  then show "usable now (Certificate ca)"
    by (auto simp: check_pair_def refuse_def split: option.splits prod.splits private_key.splits if_splits)
qed

text \<open>
  With the daemon's capacity the transport admits as many streams on a connection as
  the service has subscriptions, so one connection cannot run into the service's own limit.
\<close>

lemma stream_limits_agree:
  assumes "start_secrets h c now r os w = (Done (ca, svc), w')"
  shows "2 * capacity svc = MaxConcurrentStreams (GRPCServer svc)"
  using start_secrets_Done(2) [OF assms] by (auto simp: NewSecretServer_def GRPCServer_def split: if_splits)

text \<open>
  C23: a completed setup has checked everything the proxy relies on: the configuration is
  valid, OPA was constructed with the daemon's own listener, socket mode and overrides and
  with the given policies only, fixture policies are not combined with the policy extension,
  and a workload has a usable authority with a certificate service over it of 64 entries,
  while an egress has none.
\<close>

theorem setup_requirements:
  "case prepare_run h c policies now r os w of
     (Done p, w') \<Rightarrow>
       config_ok c \<and> NewRuntime h (p_params p) \<and> Paths (p_params p) = policies \<and>
       UnixSocketPerm (p_params p) = ''0600'' \<and> Addrs (p_params p) = [''unix://'' @ join_path [RuntimeDir c, ''opa-api.sock'']] \<and>
       ConfigOverrides (p_params p) = ConfigOverrides (opa_params c [] []) @
         (if policyExtension p then host_overrides (h_policy h) c else []) \<and>
       \<not> (policyExtension p \<and> policies \<noteq> []) \<and>
       (if Role c = Workload
        then \<exists>ca svc. p_ca p = Some ca \<and> usable now (Certificate ca) \<and> p_secrets p = Some svc \<and>
               sds_reachable (h_crypto h) svc \<and> capacity svc = 64
        else p_ca p = None \<and> p_secrets p = None)
   | _ \<Rightarrow> True"
proof -
  have "config_ok c \<and> NewRuntime h (p_params p) \<and> Paths (p_params p) = policies \<and>
       UnixSocketPerm (p_params p) = ''0600'' \<and> Addrs (p_params p) = [''unix://'' @ join_path [RuntimeDir c, ''opa-api.sock'']] \<and>
       ConfigOverrides (p_params p) = ConfigOverrides (opa_params c [] []) @
         (if policyExtension p then host_overrides (h_policy h) c else []) \<and>
       \<not> (policyExtension p \<and> policies \<noteq> []) \<and>
       (if Role c = Workload
        then \<exists>ca svc. p_ca p = Some ca \<and> usable now (Certificate ca) \<and> p_secrets p = Some svc \<and>
               sds_reachable (h_crypto h) svc \<and> capacity svc = 64
        else p_ca p = None \<and> p_secrets p = None)"
    if run: "prepare_run h c policies now r os w = (Done p, w')" for p w'
  proof -
    obtain w3 where v: "config_ok c" and l: "prepare_locked h c policies now r (p_lock p) os w3 = (Done p, w')"
      using prepare_run_Done [OF run] by metis
    obtain ext params ca sec w0 w1 where o: "start_opa h c policies os w1 = (Done (ext, params), w')"
        "p = \<lparr>p_lock = p_lock p, p_ca = ca, p_secrets = sec, p_params = params, policyExtension = ext\<rparr>"
      and s: "if Role c = Workload then \<exists>a svc. start_secrets h c now r os w0 = (Done (a, svc), w1) \<and> ca = Some a \<and> sec = Some svc
        else ca = None \<and> sec = None"
      using prepare_locked_Done [OF l] by metis
    have o': "p_ca p = ca" "p_secrets p = sec" "p_params p = params" "policyExtension p = ext" using o(2) by (metis prepared.select_convs)+
    have material: "if Role c = Workload
        then \<exists>a svc. p_ca p = Some a \<and> usable now (Certificate a) \<and> p_secrets p = Some svc \<and>
               sds_reachable (h_crypto h) svc \<and> capacity svc = 64
        else p_ca p = None \<and> p_secrets p = None"
    proof (cases "Role c = Workload")
      case True
      then obtain a svc where a: "start_secrets h c now r os w0 = (Done (a, svc), w1)" "ca = Some a" "sec = Some svc"
        using s by auto
      have "sds_reachable (h_crypto h) svc" using start_secrets_Done(2) [OF a(1)] by (rule sds_reachable.start)
      moreover have "capacity svc = 64"
        using start_secrets_Done(2) [OF a(1)] by (auto simp: NewSecretServer_def split: if_splits)
      ultimately show ?thesis using start_secrets_Done(1) [OF a(1)] a(2,3) o' True by simp
    qed (use s o' in auto)
    obtain f where f: "params = (opa_params c f policies)\<lparr>ConfigOverrides :=
        ConfigOverrides (opa_params c f policies) @ (if ext then host_overrides (h_policy h) c else [])\<rparr>"
        "NewRuntime h params" "Paths params = policies" "ext \<longrightarrow> policies = []"
      using start_opa_Done [OF o(1)] by blast
    have g: "UnixSocketPerm params = ''0600''" "Addrs params = [''unix://'' @ join_path [RuntimeDir c, ''opa-api.sock'']]"
      "ConfigOverrides params = ConfigOverrides (opa_params c [] []) @ (if ext then host_overrides (h_policy h) c else [])"
      unfolding f(1) by (simp_all add: opa_params_def)
    note p = o'(3,4)
    have n: "\<not> (ext \<and> policies \<noteq> [])" using f(4) by blast
    show ?thesis unfolding p by (intro conjI v f(2,3) g n material)
  qed
  note success = this
  obtain res w' where run: "prepare_run h c policies now r os w = (res, w')" by fastforce
  show ?thesis
  proof (cases res)
    case (Done p)
    show ?thesis unfolding run Done prod.case outcome.case by (rule success [OF run [unfolded Done]])
  qed (simp_all add: run)
qed

end
