(* ===== verification/Supervisor.thy ===== *)
theory Supervisor
  imports DaemonSetup
begin

text \<open>
  \<^verbatim>\<open>internal/daemon/daemon.go\<close>, the second half of \<^verbatim>\<open>Run\<close>: the startup loop, the start of
  the proxy, the supervision loop and the deferred calls, as a state machine.  A service is a
  goroutine or child process with the channel that reports its end; the environment may end
  a service, cancel the context or let the startup time pass at any moment, and a
  \<^verbatim>\<open>select\<close> may take any branch that is ready.  The results of health checks are inputs of
  the steps (\<open>Readiness\<close> models the checks themselves).  The stack of deferred calls is part
  of the state; returning unwinds it.  The lemmas show what holds in every reachable state,
  that only a shutdown ends a run without an error, and that a return leaves nothing behind.
\<close>

section \<open>States\<close>

text \<open>\<open>Exited m\<close> is a message waiting in the service's channel, \<open>Collected\<close> one that was received.\<close>

datatype service = Absent | Running | Exited string | Collected

datatype deferred = CloseLock | CloseCA | CloseListener | StopSDS | StopOPA | CancelStartup | ForgiveShutdown | StopProxy | StopTicker

datatype phase = Starting | Supervising | Unwinding "string option" | Returned "string option" | Dead

datatype signal = NotSignalled | SIGTERM | SIGKILL

record sup =
  phase :: phase
  files :: world
  ctx_done :: bool
  startup_over :: bool
  opa :: service
  sds :: service
  proxy :: service
  opaExited :: bool
  exited :: bool
  healthy :: bool
  checked :: bool \<comment> \<open>the OPA health check of the startup loop has succeeded\<close>
  opa_cancelled :: bool
  proxy_signal :: signal
  command :: "string list"
  defers :: "deferred list"

record env =
  e_os :: os
  e_yaml :: "bytes \<Rightarrow> json option"
  e_config :: config
  e_extension :: bool
  e_lock :: path \<comment> \<open>the locked file of the runtime directory\<close>

text \<open>The state when the OPA goroutine has been started.\<close>

definition served :: "env \<Rightarrow> world \<Rightarrow> sup" where
  "served e w =
     \<lparr>phase = Starting, files = w, ctx_done = False, startup_over = False, opa = Running,
      sds = (if Role (e_config e) = Workload then Running else Absent), proxy = Absent,
      opaExited = False, exited = False, healthy = False, checked = False, opa_cancelled = False,
      proxy_signal = NotSignalled, command = [],
      defers = [CancelStartup, StopOPA] @
        (if Role (e_config e) = Workload then [StopSDS, CloseListener, CloseCA] else []) @ [CloseLock]\<rparr>"

definition leave :: "string option \<Rightarrow> sup \<Rightarrow> sup" where
  "leave err s = s\<lparr>phase := Unwinding err\<rparr>"

text \<open>\<^verbatim>\<open>startup.Done()\<close>: the startup context ends with its time or with its parent.\<close>

definition startup_done :: "sup \<Rightarrow> bool" where
  "startup_done s \<longleftrightarrow> startup_over s \<or> ctx_done s"

section \<open>The loops\<close>

datatype wake = WakeContext | WakeOPA | WakeProxy | WakeSDS | WakeTimer

text \<open>One turn of the startup loop after a failed check: the branch of the \<^verbatim>\<open>select\<close>.\<close>

definition startup_turn :: "wake \<Rightarrow> sup \<Rightarrow> sup option" where
  "startup_turn k s =
     (case k of
        WakeContext \<Rightarrow> if startup_done s then Some (leave (Some ''OPA startup'') s) else None
      | WakeOPA \<Rightarrow>
          (case opa s of
             Exited m \<Rightarrow> Some (leave (Some (''OPA stopped before proxy startup: '' @ m)) (s\<lparr>opa := Collected, opaExited := True\<rparr>))
           | _ \<Rightarrow> None)
      | WakeSDS \<Rightarrow>
          (case sds s of
             Exited m \<Rightarrow> Some (leave (Some (''inspection SDS stopped before proxy startup: '' @ m)) (s\<lparr>sds := Collected\<rparr>))
           | _ \<Rightarrow> None)
      | WakeProxy \<Rightarrow> None
      | WakeTimer \<Rightarrow> Some s)"

definition proxy_command :: "config \<Rightarrow> string \<Rightarrow> string list" where
  "proxy_command c conf =
     (if ProxyMode c = Standalone
      then [''/usr/local/bin/envoy'', ''-c'', conf, ''--concurrency'', ''1'']
      else [''/usr/local/bin/pilot-agent'', ''proxy'', if Role c = Egress then ''router'' else ''sidecar''])"

text \<open>
  The way from the successful check to the running proxy; \<open>starts\<close> is whether
  \<^verbatim>\<open>proxy.Start\<close> succeeds.
\<close>

definition launch :: "env \<Rightarrow> bool \<Rightarrow> sup \<Rightarrow> sup" where
  "launch e starts s =
     (let (r, w) = (if ProxyMode (e_config e) = Standalone
                    then prepareEnvoy (e_yaml e) (e_config e) (e_extension e) (e_os e) (files s)
                    else (Done [], files s));
          s = s\<lparr>files := w, checked := True\<rparr>
      in case r of
           Killed \<Rightarrow> s\<lparr>phase := Dead\<rparr>
         | Failed _ \<Rightarrow> leave (Some ''prepare Envoy'') s
         | Done conf \<Rightarrow>
             if starts
             then s\<lparr>phase := Supervising, proxy := Running, command := proxy_command (e_config e) conf,
                    defers := [StopTicker, StopProxy, ForgiveShutdown] @ defers s\<rparr>
             else leave (Some ''start proxy'') s)"

text \<open>One turn of the supervision loop on a ready channel.\<close>

definition supervise_turn :: "wake \<Rightarrow> sup \<Rightarrow> sup option" where
  "supervise_turn k s =
     (case k of
        WakeContext \<Rightarrow> if ctx_done s then Some (leave None s) else None
      | WakeOPA \<Rightarrow>
          (case opa s of
             Exited m \<Rightarrow> Some (leave (Some (''embedded OPA stopped: '' @ m)) (s\<lparr>opa := Collected, opaExited := True\<rparr>))
           | _ \<Rightarrow> None)
      | WakeProxy \<Rightarrow>
          (case proxy s of
             Exited m \<Rightarrow> Some (leave (Some (''proxy stopped unexpectedly: '' @ m)) (s\<lparr>proxy := Collected, exited := True\<rparr>))
           | _ \<Rightarrow> None)
      | WakeSDS \<Rightarrow>
          (case sds s of
             Exited m \<Rightarrow> Some (leave (Some (''inspection SDS stopped unexpectedly: '' @ m)) (s\<lparr>sds := Collected\<rparr>))
           | _ \<Rightarrow> None)
      | WakeTimer \<Rightarrow> None)"

text \<open>A tick, with the results of the liveness check of OPA and, if that is good, of the proxy check.\<close>

definition tick_turn :: "string option \<Rightarrow> string option \<Rightarrow> sup \<Rightarrow> sup" where
  "tick_turn liveness readiness s =
     (case liveness of
        Some m \<Rightarrow> leave (Some (''required OPA service failed: '' @ m)) s
      | None \<Rightarrow>
          (case readiness of
             None \<Rightarrow> s\<lparr>healthy := True\<rparr>
           | Some m \<Rightarrow>
               if healthy s then leave (Some (''proxy lost readiness: '' @ m)) s
               else if startup_done s then leave (Some (''proxy startup timed out: '' @ m)) s
               else s))"

section \<open>Returning\<close>

datatype unwinding = Proceed | Collect | TimeOut

text \<open>The world after a deferred call that may fail; its error is dropped.\<close>

definition after_io :: "env \<Rightarrow> unit io \<Rightarrow> sup \<Rightarrow> sup" where
  "after_io e a s =
     (case a (e_os e) (files s) of
        (Killed, w) \<Rightarrow> s\<lparr>files := w, phase := Dead\<rparr>
      | (_, w) \<Rightarrow> s\<lparr>files := w\<rparr>)"

definition end_service :: "service \<Rightarrow> service" where
  "end_service x = (case x of Running \<Rightarrow> Exited ''stopped'' | _ \<Rightarrow> x)"

text \<open>
  The next deferred call, or a part of it.  \<open>StopProxy\<close> signals the process group, then waits
  for the proxy (\<open>Collect\<close>) or, after five seconds (\<open>TimeOut\<close>), kills the group and waits;
  \<open>StopOPA\<close> cancels the runtime, then waits for it or, after five seconds, gives up.
\<close>

definition unwind :: "env \<Rightarrow> unwinding \<Rightarrow> string option \<Rightarrow> sup \<Rightarrow> sup option" where
  "unwind e k result s =
     (case defers s of
        [] \<Rightarrow> if k = Proceed then Some (s\<lparr>phase := Returned result\<rparr>) else None
      | d # ds \<Rightarrow>
          let popped = s\<lparr>defers := ds\<rparr> in
          (case d of
             StopProxy \<Rightarrow>
               (if proxy_signal s = NotSignalled then
                  (if k = Proceed
                   then Some ((if exited s then popped else s)\<lparr>proxy_signal := SIGTERM\<rparr>) else None)
                else case (k, proxy s) of
                  (Collect, Exited m) \<Rightarrow> Some (popped\<lparr>proxy := Collected\<rparr>)
                | (TimeOut, _) \<Rightarrow> if proxy_signal s = SIGTERM then Some (s\<lparr>proxy_signal := SIGKILL\<rparr>) else None
                | _ \<Rightarrow> None)
           | StopOPA \<Rightarrow>
               (if \<not> opa_cancelled s then
                  (if k = Proceed
                   then Some ((if opaExited s then popped else s)\<lparr>opa_cancelled := True\<rparr>) else None)
                else case (k, opa s) of
                  (Collect, Exited m) \<Rightarrow> Some (popped\<lparr>opa := Collected\<rparr>)
                | (TimeOut, _) \<Rightarrow> Some popped
                | _ \<Rightarrow> None)
           | _ \<Rightarrow>
               if k \<noteq> Proceed then None
               else Some (case d of
                  ForgiveShutdown \<Rightarrow> if ctx_done s then popped\<lparr>phase := Unwinding None\<rparr> else popped
                | StopSDS \<Rightarrow> popped\<lparr>sds := end_service (sds s)\<rparr>
                | CloseListener \<Rightarrow> after_io e (unlink (InspectionSDSPath (e_config e))) popped
                | CloseCA \<Rightarrow> after_io e (Close (e_config e)) popped
                | CloseLock \<Rightarrow> after_io e (close_lock (e_lock e)) popped
                | _ \<Rightarrow> popped)))"

section \<open>Steps\<close>

definition live :: "phase \<Rightarrow> bool" where
  "live p \<longleftrightarrow> (case p of Returned r \<Rightarrow> False | Dead \<Rightarrow> False | _ \<Rightarrow> True)"

inductive sup_step :: "env \<Rightarrow> sup \<Rightarrow> sup \<Rightarrow> bool" for e where
  cancelled: "live (phase s) \<Longrightarrow> sup_step e s (s\<lparr>ctx_done := True\<rparr>)"
| startup_expired: "live (phase s) \<Longrightarrow> sup_step e s (s\<lparr>startup_over := True\<rparr>)"
| opa_ended: "live (phase s) \<Longrightarrow> opa s = Running \<Longrightarrow> sup_step e s (s\<lparr>opa := Exited m\<rparr>)"
| sds_ended: "live (phase s) \<Longrightarrow> sds s = Running \<Longrightarrow> sup_step e s (s\<lparr>sds := Exited m\<rparr>)"
| proxy_ended: "live (phase s) \<Longrightarrow> proxy s = Running \<Longrightarrow> sup_step e s (s\<lparr>proxy := Exited m\<rparr>)"
| check_ok: "phase s = Starting \<Longrightarrow> sup_step e s (launch e starts s)"
| check_failed: "phase s = Starting \<Longrightarrow> startup_turn k s = Some t \<Longrightarrow> sup_step e s t"
| woken: "phase s = Supervising \<Longrightarrow> supervise_turn k s = Some t \<Longrightarrow> sup_step e s t"
| ticked: "phase s = Supervising \<Longrightarrow> sup_step e s (tick_turn liveness readiness s)"
| unwound: "phase s = Unwinding r \<Longrightarrow> unwind e k r s = Some t \<Longrightarrow> sup_step e s t"

inductive supervised :: "env \<Rightarrow> world \<Rightarrow> sup \<Rightarrow> bool" for e w where
  start: "supervised e w (served e w)"
| step: "supervised e w s \<Longrightarrow> sup_step e s t \<Longrightarrow> supervised e w t"

inductive_cases sup_stepE: "sup_step e s t"

section \<open>The invariant of a run\<close>

definition is_up :: "service \<Rightarrow> bool" where
  "is_up x \<longleftrightarrow> x = Running \<or> (\<exists>m. x = Exited m)"

lemma is_up_simps [simp]: "is_up Running" "is_up (Exited m)" "\<not> is_up Absent" "\<not> is_up Collected"
  by (simp_all add: is_up_def)

text \<open>Everything that has to be undone has its deferred call on the stack.\<close>

definition covered :: "env \<Rightarrow> sup \<Rightarrow> bool" where
  "covered e s \<longleftrightarrow>
     (is_up (proxy s) \<longrightarrow> StopProxy \<in> set (defers s)) \<and>
     (sds s = Running \<longrightarrow> StopSDS \<in> set (defers s)) \<and>
     (opa_cancelled s \<or> StopOPA \<in> set (defers s)) \<and>
     (\<forall>l \<in> set (held (files s)).
        l = e_lock e \<and> CloseLock \<in> set (defers s) \<or> l \<in> set (ca_locks (e_config e)) \<and> CloseCA \<in> set (defers s))"

text \<open>The proxy runs only behind a policy service that has been seen healthy.\<close>

definition behind_policy :: "env \<Rightarrow> sup \<Rightarrow> bool" where
  "behind_policy e s \<longleftrightarrow>
     (proxy s \<noteq> Absent \<longrightarrow> checked s \<and> (\<exists>conf. command s = proxy_command (e_config e) conf)) \<and>
     (phase s = Supervising \<or> healthy s \<or> ForgiveShutdown \<in> set (defers s) \<or> exited s \<longrightarrow> proxy s \<noteq> Absent) \<and>
     (phase s = Starting \<longrightarrow> proxy s = Absent) \<and> (exited s \<longrightarrow> proxy s = Collected)"

definition excused :: "sup \<Rightarrow> bool" where
  "excused s \<longleftrightarrow> (phase s = Unwinding None \<or> phase s = Returned None \<longrightarrow> ctx_done s \<and> proxy s \<noteq> Absent)"

definition sup_inv :: "env \<Rightarrow> sup \<Rightarrow> bool" where
  "sup_inv e s \<longleftrightarrow> behind_policy e s \<and> excused s \<and> (phase s \<noteq> Dead \<longrightarrow> covered e s) \<and>
     (\<forall>r. phase s = Returned r \<longrightarrow> defers s = [])"

lemma covered_frame [simp]:
  "covered e (s\<lparr>phase := p\<rparr>) = covered e s" "covered e (s\<lparr>ctx_done := b\<rparr>) = covered e s"
  "covered e (s\<lparr>startup_over := b\<rparr>) = covered e s" "covered e (s\<lparr>opa := x\<rparr>) = covered e s"
  "covered e (s\<lparr>opaExited := b\<rparr>) = covered e s" "covered e (s\<lparr>exited := b\<rparr>) = covered e s"
  "covered e (s\<lparr>healthy := b\<rparr>) = covered e s" "covered e (s\<lparr>checked := b\<rparr>) = covered e s"
  "covered e (s\<lparr>command := cm\<rparr>) = covered e s" "covered e (s\<lparr>proxy_signal := g\<rparr>) = covered e s"
  by (simp_all add: covered_def)

lemma covered_sds: "covered e s \<Longrightarrow> x \<noteq> Running \<Longrightarrow> covered e (s\<lparr>sds := x\<rparr>)"
  by (simp add: covered_def)

lemma covered_proxy: "covered e s \<Longrightarrow> is_up x \<longrightarrow> is_up (proxy s) \<Longrightarrow> covered e (s\<lparr>proxy := x\<rparr>)"
  by (simp add: covered_def)

lemma covered_launched:
  "covered e s \<Longrightarrow> StopProxy \<in> set ds \<Longrightarrow> set (defers s) \<subseteq> set ds \<Longrightarrow> covered e (s\<lparr>proxy := Running, defers := ds\<rparr>)"
  by (auto simp: covered_def)

lemma covered_files: "covered e s \<Longrightarrow> set (held w) \<subseteq> set (held (files s)) \<Longrightarrow> covered e (s\<lparr>files := w\<rparr>)"
  by (auto simp: covered_def)

lemma leave_fields [simp]:
  "phase (leave r s) = Unwinding r" "files (leave r s) = files s" "ctx_done (leave r s) = ctx_done s"
  "opa (leave r s) = opa s" "sds (leave r s) = sds s" "proxy (leave r s) = proxy s" "exited (leave r s) = exited s"
  "healthy (leave r s) = healthy s" "checked (leave r s) = checked s" "command (leave r s) = command s"
  "defers (leave r s) = defers s" "covered e (leave r s) = covered e s"
  by (simp_all add: leave_def)

lemma sup_inv_start:
  assumes "set (held w) \<subseteq> insert (e_lock e) (set (ca_locks (e_config e)))"
  shows "sup_inv e (served e w)"
proof -
  have "covered e (served e w)" using assms by (auto simp: covered_def served_def ca_locks_def split: if_splits)
  then show ?thesis by (simp add: sup_inv_def behind_policy_def excused_def served_def)
qed

text \<open>A turn keeps the invariant when it only leaves, or changes services that have ended.\<close>

lemma sup_inv_launch:
  assumes "sup_inv e s" "phase s = Starting"
  shows "sup_inv e (launch e starts s)"
proof -
  obtain r w where rw: "(if ProxyMode (e_config e) = Standalone
      then prepareEnvoy (e_yaml e) (e_config e) (e_extension e) (e_os e) (files s) else (Done [], files s)) = (r, w)"
    by fastforce
  have l: "lockless (prepareEnvoy (e_yaml e) (e_config e) (e_extension e))"
    unfolding prepareEnvoy_def by (intro lockless_intros) (auto intro!: lockless_intros split: option.split sum.split)
  have h: "r \<noteq> Killed \<Longrightarrow> held w = held (files s)"
    using rw locklessD [OF l] by (cases "ProxyMode (e_config e) = Standalone") fastforce+
  have c: "covered e s" and b: "behind_policy e s" using assms by (simp_all add: sup_inv_def)
  have f: "r \<noteq> Killed \<Longrightarrow> covered e (s\<lparr>files := w, checked := True\<rparr>)"
    using covered_files [OF c] h by simp
  show ?thesis
  proof (cases r)
    case (Done conf)
    have "covered e (s\<lparr>files := w, checked := True, proxy := Running, defers := [StopTicker, StopProxy, ForgiveShutdown] @ defers s\<rparr>)"
      using covered_launched [OF f, of "[StopTicker, StopProxy, ForgiveShutdown] @ defers s"] Done by auto
    then have "covered e (launch e True s)" unfolding launch_def rw Done by (simp add: covered_def)
    moreover have "covered e (launch e False s)" unfolding launch_def rw Done using f Done by simp
    ultimately show ?thesis
      using b assms(2) Done by (cases starts) (auto simp: launch_def rw sup_inv_def behind_policy_def excused_def)
  next
    case (Failed x)
    then show ?thesis
      using b f assms(2) by (auto simp: launch_def rw sup_inv_def behind_policy_def excused_def)
  next
    case Killed
    then show ?thesis
      using b assms(2) by (auto simp: launch_def rw sup_inv_def behind_policy_def excused_def)
  qed
qed

lemma sup_inv_leave:
  assumes "sup_inv e s" "phase s = Starting \<or> phase s = Supervising" "r = None \<longrightarrow> ctx_done s \<and> phase s = Supervising"
  shows "sup_inv e (leave r s)"
  using assms by (auto simp: sup_inv_def behind_policy_def excused_def)

lemma sup_inv_ended:
  assumes "sup_inv e s" "phase s = Starting \<or> phase s = Supervising"
  shows "sup_inv e (s\<lparr>opa := x, opaExited := b\<rparr>)" "sup_inv e (s\<lparr>sds := Collected\<rparr>)"
    "phase s = Supervising \<Longrightarrow> sup_inv e (s\<lparr>proxy := Collected, exited := True\<rparr>)" "proxy s \<noteq> Absent \<Longrightarrow> sup_inv e (s\<lparr>healthy := True\<rparr>)"
  using assms by (auto simp: sup_inv_def behind_policy_def excused_def covered_sds covered_proxy)

lemma startup_turn_cases:
  assumes "startup_turn k s = Some t"
  obtains "t = s"
  | m s' where "t = leave (Some m) s'" "s' = s \<or> s' = s\<lparr>opa := Collected, opaExited := True\<rparr> \<or> s' = s\<lparr>sds := Collected\<rparr>"
  using assms by (cases k) (auto simp: startup_turn_def split: if_splits service.splits)

lemma supervise_turn_cases:
  assumes "supervise_turn k s = Some t"
  obtains "t = leave None s" "ctx_done s"
  | m s' where "t = leave (Some m) s'"
      "s' = s\<lparr>opa := Collected, opaExited := True\<rparr> \<or> s' = s\<lparr>sds := Collected\<rparr> \<or> s' = s\<lparr>proxy := Collected, exited := True\<rparr>"
  using assms by (cases k) (auto simp: supervise_turn_def split: if_splits service.splits)

lemma sup_inv_startup_turn:
  assumes "sup_inv e s" "phase s = Starting" "startup_turn k s = Some t"
  shows "sup_inv e t"
  using assms(3)
proof (cases rule: startup_turn_cases)
  case (2 m s')
  then have "sup_inv e s'" "phase s' = Starting" using assms sup_inv_ended [OF assms(1)] by auto
  then show ?thesis using sup_inv_leave 2 by blast
qed (use assms in simp)

lemma sup_inv_supervise_turn:
  assumes "sup_inv e s" "phase s = Supervising" "supervise_turn k s = Some t"
  shows "sup_inv e t"
  using assms(3)
proof (cases rule: supervise_turn_cases)
  case 1
  then show ?thesis using sup_inv_leave [OF assms(1)] assms(2) by simp
next
  case (2 m s')
  then have "sup_inv e s'" "phase s' = Supervising" using assms sup_inv_ended [OF assms(1)] by auto
  then show ?thesis using sup_inv_leave 2 by blast
qed

lemma sup_inv_tick:
  assumes "sup_inv e s" "phase s = Supervising"
  shows "sup_inv e (tick_turn a b s)"
proof -
  have "proxy s \<noteq> Absent" using assms by (simp add: sup_inv_def behind_policy_def)
  then show ?thesis
    using assms sup_inv_leave [OF assms(1)] sup_inv_ended(4) [OF assms(1)]
    by (auto simp: tick_turn_def split: option.split)
qed

lemma sup_inv_env:
  assumes "sup_inv e s"
  shows "sup_inv e (s\<lparr>ctx_done := True\<rparr>)" "sup_inv e (s\<lparr>startup_over := True\<rparr>)"
    "opa s = Running \<Longrightarrow> sup_inv e (s\<lparr>opa := Exited m\<rparr>)" "sds s = Running \<Longrightarrow> sup_inv e (s\<lparr>sds := Exited m\<rparr>)"
    "proxy s = Running \<Longrightarrow> sup_inv e (s\<lparr>proxy := Exited m\<rparr>)"
  using assms by (auto simp: sup_inv_def behind_policy_def excused_def covered_sds covered_proxy)

section \<open>Unwinding keeps the invariant\<close>

text \<open>A deferred call that is done: what it covered must be over.\<close>

lemma covered_pop:
  assumes "covered e s" "defers s = d # ds"
    and "d = StopProxy \<Longrightarrow> \<not> is_up (proxy s)" "d = StopSDS \<Longrightarrow> sds s \<noteq> Running" "d = StopOPA \<Longrightarrow> opa_cancelled s"
    and "d = CloseLock \<Longrightarrow> e_lock e \<notin> set (held (files s))"
    and "d = CloseCA \<Longrightarrow> set (held (files s)) \<inter> set (ca_locks (e_config e)) = {}"
  shows "covered e (s\<lparr>defers := ds\<rparr>)"
  using assms unfolding covered_def by (auto 5 3)

lemma after_io_fields [simp]:
  "proxy (after_io e a s) = proxy s" "ctx_done (after_io e a s) = ctx_done s" "checked (after_io e a s) = checked s"
  "command (after_io e a s) = command s" "healthy (after_io e a s) = healthy s" "exited (after_io e a s) = exited s"
  "defers (after_io e a s) = defers s" "sds (after_io e a s) = sds s" "opa_cancelled (after_io e a s) = opa_cancelled s"
  by (simp_all add: after_io_def split: prod.split outcome.split)

lemma after_io_phase: "phase (after_io e a s) = phase s \<or> phase (after_io e a s) = Dead"
  by (simp add: after_io_def split: prod.split outcome.split)

lemma after_io_lockless: "lockless a \<Longrightarrow> phase (after_io e a s) \<noteq> Dead \<Longrightarrow> held (files (after_io e a s)) = held (files s)"
  by (auto simp: after_io_def dest: locklessD split: prod.splits outcome.splits)

lemma after_io_releases:
  assumes "releases a l" "phase (after_io e a s) \<noteq> Dead"
  shows "held (files (after_io e a s)) = removeAll l (held (files s))"
proof -
  obtain r w where "a (e_os e) (files s) = (r, w)" by fastforce
  then show ?thesis using assms unfolding releases_def after_io_def by (cases r) auto
qed

lemma sup_inv_popped:
  assumes "sup_inv e s" "phase s = Unwinding r" "phase t = Unwinding r' \<or> phase t = Dead" "r' = None \<longrightarrow> ctx_done s \<and> proxy s \<noteq> Absent"
    "checked t = checked s" "command t = command s" "exited t = exited s" "healthy t = healthy s" "ctx_done t = ctx_done s"
    "proxy t = proxy s \<or> proxy t = Collected \<and> proxy s \<noteq> Absent" "set (defers t) \<subseteq> set (defers s)" "phase t \<noteq> Dead \<longrightarrow> covered e t"
  shows "sup_inv e t"
  using assms unfolding sup_inv_def behind_policy_def excused_def by (elim disjE) auto

lemma sup_inv_unwind:
  assumes s: "sup_inv e s" "phase s = Unwinding r" "unwind e k r s = Some t"
  shows "sup_inv e t"
proof (cases "defers s")
  case Nil
  then show ?thesis
    using assms by (auto simp: unwind_def sup_inv_def behind_policy_def excused_def split: if_splits)
next
  case (Cons d ds)
  have c: "covered e s" and x: "r = None \<longrightarrow> ctx_done s \<and> proxy s \<noteq> Absent" and b: "behind_policy e s"
    using s by (auto simp: sup_inv_def excused_def)
  note pop = covered_pop [OF c Cons]
  note popped = sup_inv_popped [OF s(1,2)]
  show ?thesis
  proof (cases d)
    case StopProxy
    have "exited s \<Longrightarrow> covered e (s\<lparr>defers := ds\<rparr>)" using pop b StopProxy by (simp add: behind_policy_def)
    moreover have "covered e (s\<lparr>defers := ds, proxy := Collected\<rparr>)"
      using c Cons StopProxy by (auto simp: covered_def)
    ultimately show ?thesis
      using s(2,3) Cons StopProxy c x by (intro popped [where r' = r]) (auto simp: unwind_def Let_def split: if_splits unwinding.splits service.splits)
  next
    case StopOPA
    have "covered e (s\<lparr>defers := ds, opa_cancelled := True\<rparr>)"
      using c Cons StopOPA by (auto simp: covered_def)
    moreover have "covered e (s\<lparr>opa_cancelled := True\<rparr>)" using c by (auto simp: covered_def)
    moreover have "opa_cancelled s \<Longrightarrow> covered e (s\<lparr>defers := ds\<rparr>)" using pop StopOPA by simp
    ultimately show ?thesis
      using s(2,3) Cons StopOPA x by (intro popped [where r' = r]) (auto simp: unwind_def Let_def split: if_splits unwinding.splits service.splits)
  next
    case ForgiveShutdown
    have p: "proxy s \<noteq> Absent" using b Cons ForgiveShutdown by (auto simp: behind_policy_def)
    have "covered e (s\<lparr>defers := ds\<rparr>)" using pop ForgiveShutdown by simp
    then show ?thesis
      using s(2,3) Cons ForgiveShutdown x p
      by (intro popped [where r' = "if ctx_done s then None else r"]) (auto simp: unwind_def Let_def split: if_splits)
  next
    case StopSDS
    have "covered e (s\<lparr>defers := ds, sds := end_service (sds s)\<rparr>)"
      using c Cons StopSDS by (auto simp: covered_def end_service_def split: service.splits)
    then show ?thesis
      using s(2,3) Cons StopSDS x by (intro popped [where r' = r]) (auto simp: unwind_def Let_def split: if_splits)
  next
    case CloseListener
    let ?t = "after_io e (unlink (InspectionSDSPath (e_config e))) (s\<lparr>defers := ds\<rparr>)"
    have "covered e ?t" if "phase ?t \<noteq> Dead"
      using after_io_lockless [OF lockless_paths(3) that] pop CloseListener by (simp add: covered_def)
    then show ?thesis
      using s(2,3) Cons CloseListener x after_io_phase [of e "unlink (InspectionSDSPath (e_config e))" "s\<lparr>defers := ds\<rparr>"]
      by (intro popped [where r' = r]) (auto simp: unwind_def Let_def split: if_splits)
  next
    case CloseCA
    let ?t = "after_io e (Close (e_config e)) (s\<lparr>defers := ds\<rparr>)"
    have "covered e ?t" if "phase ?t \<noteq> Dead"
      using after_io_releases [OF Close_releases that] c Cons CloseCA by (auto simp: covered_def ca_locks_def split: if_splits)
    then show ?thesis
      using s(2,3) Cons CloseCA x after_io_phase [of e "Close (e_config e)" "s\<lparr>defers := ds\<rparr>"]
      by (intro popped [where r' = r]) (auto simp: unwind_def Let_def split: if_splits)
  next
    case CloseLock
    let ?t = "after_io e (close_lock (e_lock e)) (s\<lparr>defers := ds\<rparr>)"
    have "covered e ?t" if "phase ?t \<noteq> Dead"
      using after_io_releases [OF close_lock_releases that] c Cons CloseLock by (auto simp: covered_def)
    then show ?thesis
      using s(2,3) Cons CloseLock x after_io_phase [of e "close_lock (e_lock e)" "s\<lparr>defers := ds\<rparr>"]
      by (intro popped [where r' = r]) (auto simp: unwind_def Let_def split: if_splits)
  next
    case CancelStartup
    have "covered e (s\<lparr>defers := ds\<rparr>)" using pop CancelStartup by simp
    then show ?thesis
      using s(2,3) Cons CancelStartup x by (intro popped [where r' = r]) (auto simp: unwind_def Let_def split: if_splits)
  next
    case StopTicker
    have "covered e (s\<lparr>defers := ds\<rparr>)" using pop StopTicker by simp
    then show ?thesis
      using s(2,3) Cons StopTicker x by (intro popped [where r' = r]) (auto simp: unwind_def Let_def split: if_splits)
  qed
qed

lemma sup_inv_step: "sup_step e s t \<Longrightarrow> sup_inv e s \<Longrightarrow> sup_inv e t"
  by (cases rule: sup_step.cases)
    (auto intro: sup_inv_env sup_inv_launch sup_inv_startup_turn sup_inv_supervise_turn sup_inv_tick sup_inv_unwind)

lemma supervised_inv:
  assumes "supervised e w s" "set (held w) \<subseteq> insert (e_lock e) (set (ca_locks (e_config e)))"
  shows "sup_inv e s"
  using assms by (induction rule: supervised.induct) (auto intro: sup_inv_start sup_inv_step)

end
