(* ===== verification/DaemonRun.thy ===== *)
theory DaemonRun
  imports Supervisor
begin

text \<open>
  What a whole run of the daemon guarantees, over the state machine of \<open>Supervisor\<close>: the
  moves of the machine as an executable function, the order of the deferred calls, the end of
  every return, and the properties of the reachable states.  \<open>daemon_run\<close> composes setup and
  supervision to all of \<^verbatim>\<open>Run\<close>.
\<close>

section \<open>Moves\<close>

datatype move = Cancel | Expire | EndOPA string | EndSDS string | EndProxy string | CheckOK bool
  | CheckFailed wake | Woken wake | Ticked "string option" "string option" | Unwound unwinding

definition perform :: "env \<Rightarrow> move \<Rightarrow> sup \<Rightarrow> sup option" where
  "perform e m s =
     (case m of
        Cancel \<Rightarrow> if live (phase s) then Some (s\<lparr>ctx_done := True\<rparr>) else None
      | Expire \<Rightarrow> if live (phase s) then Some (s\<lparr>startup_over := True\<rparr>) else None
      | EndOPA x \<Rightarrow> if live (phase s) \<and> opa s = Running then Some (s\<lparr>opa := Exited x\<rparr>) else None
      | EndSDS x \<Rightarrow> if live (phase s) \<and> sds s = Running then Some (s\<lparr>sds := Exited x\<rparr>) else None
      | EndProxy x \<Rightarrow> if live (phase s) \<and> proxy s = Running then Some (s\<lparr>proxy := Exited x\<rparr>) else None
      | CheckOK b \<Rightarrow> if phase s = Starting then Some (launch e b s) else None
      | CheckFailed k \<Rightarrow> if phase s = Starting then startup_turn k s else None
      | Woken k \<Rightarrow> if phase s = Supervising then supervise_turn k s else None
      | Ticked a b \<Rightarrow> if phase s = Supervising then Some (tick_turn a b s) else None
      | Unwound k \<Rightarrow> (case phase s of Unwinding r \<Rightarrow> unwind e k r s | _ \<Rightarrow> None))"

fun perform_all :: "env \<Rightarrow> move list \<Rightarrow> sup \<Rightarrow> sup option" where
  "perform_all e [] s = Some s"
| "perform_all e (m # ms) s = (case perform e m s of None \<Rightarrow> None | Some t \<Rightarrow> perform_all e ms t)"

lemma perform_step: "perform e m s = Some t \<Longrightarrow> sup_step e s t"
  by (cases m) (auto simp: perform_def intro: sup_step.intros split: if_splits phase.splits)

lemma step_perform: "sup_step e s t \<Longrightarrow> \<exists>m. perform e m s = Some t"
proof (induction rule: sup_step.induct)
  case (cancelled s) then show ?case by (intro exI [of _ Cancel]) (simp add: perform_def)
next
  case (startup_expired s) then show ?case by (intro exI [of _ Expire]) (simp add: perform_def)
next
  case (opa_ended s x) then show ?case by (intro exI [of _ "EndOPA x"]) (simp add: perform_def)
next
  case (sds_ended s x) then show ?case by (intro exI [of _ "EndSDS x"]) (simp add: perform_def)
next
  case (proxy_ended s x) then show ?case by (intro exI [of _ "EndProxy x"]) (simp add: perform_def)
next
  case (check_ok s b) then show ?case by (intro exI [of _ "CheckOK b"]) (simp add: perform_def)
next
  case (check_failed s k t) then show ?case by (intro exI [of _ "CheckFailed k"]) (simp add: perform_def)
next
  case (woken s k t) then show ?case by (intro exI [of _ "Woken k"]) (simp add: perform_def)
next
  case (ticked s a b) then show ?case by (intro exI [of _ "Ticked a b"]) (simp add: perform_def)
next
  case (unwound s r k t) then show ?case by (intro exI [of _ "Unwound k"]) (simp add: perform_def)
qed

lemma supervised_all: "supervised e w s \<Longrightarrow> perform_all e ms s = Some t \<Longrightarrow> supervised e w t"
  by (induction ms arbitrary: s) (auto dest: perform_step intro: supervised.step split: option.splits)

lemma supervised_iff: "supervised e w s \<longleftrightarrow> (\<exists>ms. perform_all e ms (served e w) = Some s)"
proof
  have snoc: "perform_all e (ms @ [m]) x = (case perform_all e ms x of None \<Rightarrow> None | Some y \<Rightarrow> perform e m y)" for ms m x
    by (induction ms arbitrary: x) (auto split: option.splits)
  show "supervised e w s \<Longrightarrow> \<exists>ms. perform_all e ms (served e w) = Some s"
  proof (induction rule: supervised.induct)
    case start
    show ?case by (rule exI [of _ "[]"]) simp
  next
    case (step s t)
    then obtain ms m where "perform_all e ms (served e w) = Some s" "perform e m s = Some t"
      using step_perform by blast
    then show ?case using snoc [of ms m] by (intro exI [of _ "ms @ [m]"]) simp
  qed
qed (auto intro: supervised_all supervised.start)

section \<open>The order of the deferred calls\<close>

text \<open>
  Every deferred call is pending at most once, and the one that stops the proxy is pending
  only while there is a proxy to wait for, or while the exit seen by the loop is not yet
  followed by the signal to the process group.
\<close>

definition orderly :: "sup \<Rightarrow> bool" where
  "orderly s \<longleftrightarrow> distinct (defers s) \<and>
     (StopProxy \<in> set (defers s) \<longrightarrow> is_up (proxy s) \<or> exited s \<and> proxy_signal s = NotSignalled) \<and>
     (phase s = Starting \<longrightarrow> set (defers s) \<inter> {StopTicker, StopProxy, ForgiveShutdown} = {}) \<and>
     (phase s = Starting \<or> phase s = Supervising \<longrightarrow> proxy_signal s = NotSignalled)"

lemma orderly_served: "orderly (served e w)"
  by (simp add: orderly_def served_def)

lemma launch_cases:
  obtains w where "launch e b s = s\<lparr>files := w, checked := True, phase := Dead\<rparr>"
  | w m where "launch e b s = leave (Some m) (s\<lparr>files := w, checked := True\<rparr>)"
  | w conf where "launch e b s = s\<lparr>files := w, checked := True, phase := Supervising, proxy := Running,
      command := proxy_command (e_config e) conf, defers := [StopTicker, StopProxy, ForgiveShutdown] @ defers s\<rparr>"
proof -
  obtain r w where rw: "(if ProxyMode (e_config e) = Standalone
      then prepareEnvoy (e_yaml e) (e_config e) (e_extension e) (e_os e) (files s) else (Done [], files s)) = (r, w)"
    by fastforce
  show thesis
    by (cases r; cases b) (rule that, simp add: launch_def rw)+
qed

lemma orderly_launch: "orderly s \<Longrightarrow> phase s = Starting \<Longrightarrow> orderly (launch e b s)"
  by (rule launch_cases [of e b s]) (auto simp: orderly_def leave_def)

lemma orderly_turns:
  assumes "orderly s"
  shows "phase s = Starting \<Longrightarrow> startup_turn k s = Some t \<Longrightarrow> orderly t"
    "phase s = Supervising \<Longrightarrow> supervise_turn k s = Some t \<Longrightarrow> orderly t"
    "phase s = Supervising \<Longrightarrow> orderly (tick_turn a b s)"
  using assms
  by (auto simp: orderly_def leave_def tick_turn_def elim!: startup_turn_cases supervise_turn_cases split: option.splits if_splits)

lemma after_io_signal [simp]: "proxy_signal (after_io e a s) = proxy_signal s"
  by (simp add: after_io_def split: prod.split outcome.split)

lemma orderly_unwind:
  assumes "orderly s" "phase s = Unwinding r" "unwind e k r s = Some t"
  shows "orderly t"
proof (cases "defers s")
  case Nil
  then show ?thesis using assms by (auto simp: orderly_def unwind_def split: if_splits)
next
  case (Cons d ds)
  have io: "orderly (after_io e a (s\<lparr>defers := ds\<rparr>))" for a
    using assms Cons after_io_phase [of e a "s\<lparr>defers := ds\<rparr>"] by (auto simp: orderly_def)
  have p: "orderly (s\<lparr>defers := ds\<rparr>)" "orderly (s\<lparr>defers := ds, phase := Unwinding None\<rparr>)"
    "orderly (s\<lparr>defers := ds, sds := x\<rparr>)" for x
    using assms(1,2) Cons by (auto simp: orderly_def)
  note run = assms(3) [unfolded unwind_def Cons list.case Let_def]
  show ?thesis
  proof (cases d)
    case StopProxy
    have "StopProxy \<notin> set ds" "is_up (proxy s) \<or> exited s \<and> proxy_signal s = NotSignalled" "distinct ds"
      using assms(1) Cons StopProxy by (auto simp: orderly_def)
    then show ?thesis using run assms(2) Cons StopProxy
      by (auto simp: orderly_def split: if_splits unwinding.splits service.splits)
  next
    case StopOPA
    have "orderly (s\<lparr>opa_cancelled := c\<rparr>)" "orderly (s\<lparr>defers := ds, opa_cancelled := c\<rparr>)" "orderly (s\<lparr>defers := ds, opa := x\<rparr>)" for c x
      using assms(1,2) Cons by (auto simp: orderly_def)
    then show ?thesis using run p(1) StopOPA by (auto split: if_splits unwinding.splits service.splits)
  qed (use run io p in \<open>auto split: if_splits\<close>)
qed

lemma orderly_env:
  assumes "orderly s"
  shows "orderly (s\<lparr>ctx_done := x\<rparr>)" "orderly (s\<lparr>startup_over := x\<rparr>)" "orderly (s\<lparr>opa := y\<rparr>)" "orderly (s\<lparr>sds := y\<rparr>)"
    "orderly (s\<lparr>proxy := Exited m\<rparr>)"
  using assms by (auto simp: orderly_def)

lemma supervised_orderly: "supervised e w s \<Longrightarrow> orderly s"
proof (induction rule: supervised.induct)
  case (step s t)
  from step.hyps(2) step.IH show ?case
    by (cases rule: sup_step.cases) (auto intro: orderly_launch orderly_turns orderly_unwind orderly_env)
qed (rule orderly_served)

section \<open>Returning ends\<close>

text \<open>What is left of a return: the pending calls, the signals and the cancellation still to come.\<close>

definition unwind_left :: "sup \<Rightarrow> nat" where
  "unwind_left s =
     (case phase s of
        Unwinding r \<Rightarrow> Suc (length (defers s) +
          (case proxy_signal s of NotSignalled \<Rightarrow> 2 | SIGTERM \<Rightarrow> 1 | SIGKILL \<Rightarrow> 0) + (if opa_cancelled s then 0 else 1))
      | _ \<Rightarrow> 0)"

lemma after_io_left: "phase s = Unwinding r \<Longrightarrow> unwind_left (after_io e a s) \<le> unwind_left s"
  using after_io_phase [of e a s] by (auto simp: unwind_left_def)

lemma unwind_decreases:
  assumes "phase s = Unwinding r" "unwind e k r s = Some t"
  shows "unwind_left t < unwind_left s"
proof (cases "defers s")
  case Nil
  then show ?thesis using assms by (auto simp: unwind_def unwind_left_def split: if_splits)
next
  case (Cons d ds)
  have io: "unwind_left (after_io e a (s\<lparr>defers := ds\<rparr>)) < unwind_left s" for a
    using after_io_left [of "s\<lparr>defers := ds\<rparr>" r e a] assms(1) Cons by (simp add: unwind_left_def)
  have p: "unwind_left (s\<lparr>defers := ds\<rparr>) < unwind_left s" "unwind_left (s\<lparr>defers := ds, phase := Unwinding None\<rparr>) < unwind_left s"
    "unwind_left (s\<lparr>defers := ds, sds := x\<rparr>) < unwind_left s" for x
    using assms(1) Cons by (simp_all add: unwind_left_def)
  note run = assms(2) [unfolded unwind_def Cons list.case Let_def]
  show ?thesis
  proof (cases d)
    case StopProxy
    then show ?thesis using run assms(1) Cons
      by (cases "proxy_signal s") (auto simp: unwind_left_def split: if_splits unwinding.splits service.splits)
  next
    case StopOPA
    then show ?thesis using run assms(1) Cons
      by (auto simp: unwind_left_def split: if_splits unwinding.splits service.splits)
  qed (use run io p in \<open>auto split: if_splits\<close>)
qed

lemma deferred_cases: "d \<in> {CloseLock, CloseCA, CloseListener, StopSDS, StopOPA, CancelStartup, ForgiveShutdown, StopProxy, StopTicker}"
  by (cases d) simp_all

lemma orderly_bound:
  assumes "orderly s"
  shows "unwind_left s \<le> 13"
proof -
  let ?all = "{CloseLock, CloseCA, CloseListener, StopSDS, StopOPA, CancelStartup, ForgiveShutdown, StopProxy, StopTicker}"
  have "set (defers s) \<subseteq> ?all" using deferred_cases by blast
  then have "card (set (defers s)) \<le> card ?all" by (intro card_mono) auto
  then have "length (defers s) \<le> 9"
    using assms distinct_card [of "defers s"] by (simp add: orderly_def)
  then show ?thesis by (auto simp: unwind_left_def split: phase.split signal.split)
qed

lemma unwind_not_stuck:
  assumes "orderly s" "phase s = Unwinding r"
  shows "(\<exists>k t. unwind e k r s = Some t) \<or> proxy s = Running \<and> proxy_signal s = SIGKILL"
proof (cases "defers s")
  case Nil
  then show ?thesis by (auto simp: unwind_def)
next
  case (Cons d ds)
  have "unwind e Proceed r s \<noteq> None" if "d \<noteq> StopProxy" "d \<noteq> StopOPA"
    using that Cons by (cases d) (simp_all add: unwind_def Let_def)
  moreover have "unwind e (if opa_cancelled s then TimeOut else Proceed) r s \<noteq> None" if "d = StopOPA"
    using that Cons by (simp add: unwind_def Let_def)
  moreover have ?thesis if "d = StopProxy"
  proof (cases "proxy_signal s = NotSignalled")
    case True
    then have "unwind e Proceed r s \<noteq> None" using that Cons by (simp add: unwind_def Let_def)
    then show ?thesis by blast
  next
    case False
    then have "is_up (proxy s)" using assms(1) that Cons by (auto simp: orderly_def)
    then show ?thesis
    proof (cases "proxy s")
      case Running
      then have "proxy_signal s = SIGTERM \<Longrightarrow> unwind e TimeOut r s \<noteq> None"
        using that Cons by (simp add: unwind_def Let_def)
      then show ?thesis using False Running by (cases "proxy_signal s") auto
    next
      case (Exited m)
      then have "unwind e Collect r s \<noteq> None" using that Cons False by (simp add: unwind_def Let_def)
      then show ?thesis by blast
    qed simp_all
  qed
  ultimately show ?thesis by (cases "d = StopProxy"; cases "d = StopOPA") blast+
qed

lemma returned_clean:
  assumes "supervised e w s" "held w = ca_locks (e_config e) @ [e_lock e]" "phase s = Returned r"
  shows "\<not> is_up (proxy s) \<and> sds s \<noteq> Running \<and> opa_cancelled s \<and> held (files s) = [] \<and> defers s = [] \<and>
    (if r = None then ctx_done s \<and> proxy s = Collected else True)"
proof -
  have i: "sup_inv e s" using supervised_inv [OF assms(1)] assms(2) by auto
  then have c: "covered e s" and d: "defers s = []" and x: "r = None \<longrightarrow> ctx_done s \<and> proxy s \<noteq> Absent"
    using assms(3) by (auto simp: sup_inv_def excused_def)
  have u: "\<not> is_up (proxy s)" using c d by (simp add: covered_def)
  then have "proxy s \<noteq> Absent \<Longrightarrow> proxy s = Collected" by (cases "proxy s") simp_all
  then show ?thesis using c d x u by (auto simp: covered_def)
qed

section \<open>Properties\<close>

text \<open>
  C5: once a run has decided to return, it returns: every deferred step takes it strictly
  closer to the end, at most 13 steps are left, and the only thing it can wait for is the
  exit of a proxy whose process group has been killed.
\<close>

theorem return_terminates:
  assumes "supervised e w s" "phase s = Unwinding r"
  shows "(case unwind e k r s of Some t \<Rightarrow> unwind_left t < unwind_left s | None \<Rightarrow> True) \<and> unwind_left s \<le> 13 \<and>
    ((\<exists>k t. unwind e k r s = Some t) \<or> proxy s = Running \<and> proxy_signal s = SIGKILL)"
  using unwind_decreases [OF assms(2)] unwind_not_stuck [OF supervised_orderly [OF assms(1)] assms(2)]
    orderly_bound [OF supervised_orderly [OF assms(1)]]
  by (auto split: option.split)

text \<open>
  C4: a run that has returned leaves nothing of its own behind: the proxy was not started or
  has been waited for, the certificate service has stopped, OPA has been cancelled and the
  locks of setup are released.  It returns without an error only when it was told to stop
  after the proxy had been started; every other end, in particular that of a required
  service, is an error.
\<close>

theorem run_leaves_nothing_behind:
  assumes "supervised e w s" "held w = ca_locks (e_config e) @ [e_lock e]" "phase s = Returned r"
  shows "\<not> is_up (proxy s) \<and> sds s \<noteq> Running \<and> opa_cancelled s \<and> held (files s) = [] \<and> defers s = [] \<and>
    (if r = None then ctx_done s \<and> proxy s = Collected else True)"
  using assms by (rule returned_clean)


text \<open>
  C7: a standalone proxy starts on a bootstrap the daemon has prepared, and on nothing else:
  when the launch succeeds, the file named in Envoy's command line holds the complete
  encoding of a prepared bootstrap, made from the configured file by \<open>bootstrap\<close>, so all that
  is proved of prepared bootstraps (authorization that fails closed, private endpoints)
  holds of the proxy that runs.
\<close>

theorem proxy_starts_on_prepared_bootstrap:
  assumes "phase (launch e starts s) = Supervising" "phase s = Starting" "ProxyMode (e_config e) = Standalone"
    and "runtime_ready (e_config e) (node (files s))"
  shows "\<exists>raw v b. reads (node (files s)) (EnvoyConfig (e_config e)) raw \<and> e_yaml e raw = Some v \<and>
    bootstrap (e_config e) (e_extension e) v = Inr b \<and>
    node (files (launch e starts s)) (runtime_path (e_config e) ''envoy.json'') = Some (File 384 (Marshal b)) \<and>
    command (launch e starts s) = [''/usr/local/bin/envoy'', ''-c'', envoy_json (e_config e), ''--concurrency'', ''1'']"
proof -
  obtain r w where run: "prepareEnvoy (e_yaml e) (e_config e) (e_extension e) (e_os e) (files s) = (r, w)" by fastforce
  obtain conf where r: "r = Done conf" "starts"
    using assms(1,2) by (cases r; cases starts) (auto simp: launch_def assms(3) run leave_def)
  note p = published_bootstrap [OF run assms(4), of conf] 
  then have "conf = envoy_json (e_config e)" using r by blast
  moreover have "files (launch e starts s) = w" "command (launch e starts s) = proxy_command (e_config e) conf"
    using r by (simp_all add: launch_def assms(3) run)
  ultimately show ?thesis using p r by (simp add: proxy_command_def assms(3))
qed

section \<open>The whole of Run\<close>

definition run_env :: "host \<Rightarrow> config \<Rightarrow> os \<Rightarrow> prepared \<Rightarrow> env" where
  "run_env h c os p =
     \<lparr>e_os = os, e_yaml = h_yaml h, e_config = c, e_extension = policyExtension p, e_lock = p_lock p\<rparr>"

text \<open>
  Setup, then supervision with the given moves of the machine and its environment; \<open>None\<close> is a
  run that has not returned yet.
\<close>

definition daemon_run :: "host \<Rightarrow> config \<Rightarrow> string list \<Rightarrow> time \<Rightarrow> nat \<Rightarrow> move list \<Rightarrow> os \<Rightarrow> world \<Rightarrow> (unit outcome \<times> world) option" where
  "daemon_run h c policies now r moves os w =
     (case prepare_run h c policies now r os w of
        (Killed, w') \<Rightarrow> Some (Killed, w')
      | (Failed err, w') \<Rightarrow> Some (Failed err, w')
      | (Done p, w') \<Rightarrow>
          (case perform_all (run_env h c os p) moves (served (run_env h c os p) w') of
             None \<Rightarrow> None
           | Some s \<Rightarrow>
               (case phase s of
                  Returned None \<Rightarrow> Some (Done (), files s)
                | Returned (Some m) \<Rightarrow> Some (Failed (Text m), files s)
                | Dead \<Rightarrow> Some (Killed, files s)
                | _ \<Rightarrow> None)))"

text \<open>What a step cannot change: the locks of others, a shutdown nobody asked for, a proxy never started.\<close>

definition inert :: "sup \<Rightarrow> sup \<Rightarrow> bool" where
  "inert s t \<longleftrightarrow> foreign (files t) = foreign (files s) \<and> (ctx_done t \<longrightarrow> ctx_done s) \<and> (proxy s = Absent \<longrightarrow> proxy t = Absent)"

lemma after_io_foreign:
  "lockless a \<or> releases a l \<Longrightarrow> foreign (files (after_io e a s)) = foreign (files s)"
  by (auto simp: after_io_def releases_def dest: locklessD split: prod.split outcome.split)

lemma inert_after_io: "lockless a \<or> releases a l \<Longrightarrow> inert s (after_io e a (s\<lparr>defers := ds\<rparr>))"
  using after_io_foreign [of a l e "s\<lparr>defers := ds\<rparr>"] by (simp add: inert_def)

lemma inert_unwind:
  assumes "unwind e k r s = Some t"
  shows "inert s t"
proof (cases "defers s")
  case Nil
  then show ?thesis using assms by (auto simp: unwind_def inert_def split: if_splits)
next
  case (Cons d ds)
  have io: "inert s (after_io e (unlink p) (s\<lparr>defers := ds\<rparr>))" "inert s (after_io e (close_lock l) (s\<lparr>defers := ds\<rparr>))"
    "inert s (after_io e (Close c) (s\<lparr>defers := ds\<rparr>))" for p l c
    using inert_after_io lockless_paths(3) close_lock_releases Close_releases by blast+
  note run = assms [unfolded unwind_def Cons list.case Let_def]
  show ?thesis
    by (cases d) (use run io in \<open>auto simp: inert_def end_service_def split: if_splits unwinding.splits service.splits\<close>)
qed

lemma inert_launch: "foreign (files (launch e b s)) = foreign (files s) \<and> ctx_done (launch e b s) = ctx_done s \<and>
    (proxy s = Absent \<and> \<not> b \<longrightarrow> proxy (launch e b s) = Absent)"
proof -
  have l: "lockless (prepareEnvoy (e_yaml e) (e_config e) (e_extension e))"
    unfolding prepareEnvoy_def by (intro lockless_intros) (auto intro!: lockless_intros split: option.split sum.split)
  obtain r w where rw: "(if ProxyMode (e_config e) = Standalone
      then prepareEnvoy (e_yaml e) (e_config e) (e_extension e) (e_os e) (files s) else (Done [], files s)) = (r, w)"
    by fastforce
  have "foreign w = foreign (files s)"
    using rw locklessD [OF l] by (cases "ProxyMode (e_config e) = Standalone") fastforce+
  then show ?thesis by (cases r; cases b) (simp_all add: launch_def rw)
qed

lemma inert_turns:
  shows inert_startup: "startup_turn k s = Some t \<Longrightarrow> inert s t"
    and inert_supervise: "supervise_turn k s = Some t \<Longrightarrow> inert s t"
    and inert_tick: "inert s (tick_turn a b s)"
  by (auto simp: startup_turn_def supervise_turn_def tick_turn_def inert_def leave_def
      split: wake.splits service.splits option.splits if_splits)

lemma perform_frame:
  assumes "perform e m s = Some t"
  shows "foreign (files t) = foreign (files s) \<and> (ctx_done t \<longrightarrow> ctx_done s \<or> m = Cancel) \<and>
    (proxy t \<noteq> Absent \<longrightarrow> proxy s \<noteq> Absent \<or> m = CheckOK True)"
proof -
  have i: "inert s t \<Longrightarrow> ?thesis" by (auto simp: inert_def)
  show ?thesis
  proof (cases m)
    case (CheckOK b)
    then show ?thesis using assms inert_launch [of e b s] by (cases b) (auto simp: perform_def split: if_splits)
  next
    case (CheckFailed k)
    then show ?thesis using assms by (intro i inert_startup [of k]) (simp add: perform_def split: if_splits)
  next
    case (Woken k)
    then show ?thesis using assms by (intro i inert_supervise [of k]) (simp add: perform_def split: if_splits)
  next
    case (Ticked a b)
    then have "t = tick_turn a b s" using assms by (simp add: perform_def split: if_splits)
    then show ?thesis using i inert_tick by simp
  next
    case (Unwound k)
    then obtain r where "unwind e k r s = Some t" using assms by (auto simp: perform_def split: phase.splits)
    then show ?thesis by (rule i [OF inert_unwind])
  qed (use assms in \<open>auto simp: perform_def split: if_splits\<close>)
qed

lemma perform_all_frame:
  "perform_all e ms s = Some t \<Longrightarrow> foreign (files t) = foreign (files s) \<and> (ctx_done t \<longrightarrow> ctx_done s \<or> Cancel \<in> set ms) \<and>
    (proxy t \<noteq> Absent \<longrightarrow> proxy s \<noteq> Absent \<or> CheckOK True \<in> set ms)"
proof (induction ms arbitrary: s)
  case (Cons m ms)
  then obtain u where "perform e m s = Some u" "perform_all e ms u = Some t" by (auto split: option.splits)
  then show ?case using Cons.IH [of u] perform_frame [of e m s u] by auto
qed simp

lemma daemon_run_clean:
  assumes h: "held w = []" and run: "daemon_run h c policies now r moves os w = Some (res, w')"
  shows "foreign w' = foreign w \<and> (res \<noteq> Killed \<longrightarrow> held w' = []) \<and> (res = Done () \<longrightarrow> Cancel \<in> set moves \<and> CheckOK True \<in> set moves)"
proof -
  obtain res0 w0 where started: "prepare_run h c policies now r os w = (res0, w0)" by fastforce
  note own = setup_locks [where h = h and c = c and policies = policies and now = now and r = r and os = os and w = w, unfolded started prod.case]
  show ?thesis
  proof (cases res0)
    case (Done p)
    let ?e = "run_env h c os p"
    have w0: "held w0 = ca_locks (e_config ?e) @ [e_lock ?e]" "foreign w0 = foreign w"
      using own h Done by (simp_all add: run_env_def)
    obtain s where s: "perform_all ?e moves (served ?e w0) = Some s"
      using run started Done by (auto simp: daemon_run_def split: option.splits)
    have reach: "supervised ?e w0 s" using supervised_all [OF supervised.start s] .
    have f: "foreign (files s) = foreign w" "ctx_done s \<longrightarrow> Cancel \<in> set moves" "proxy s \<noteq> Absent \<longrightarrow> CheckOK True \<in> set moves"
      using perform_all_frame [OF s] w0(2) by (simp_all add: served_def)
    have p: "phase s = Dead \<and> res = Killed \<and> w' = files s \<or> (\<exists>m. phase s = Returned m \<and> res = (case m of None \<Rightarrow> Done () | Some x \<Rightarrow> Failed (Text x)) \<and> w' = files s)"
      using run started Done s by (auto simp: daemon_run_def split: phase.splits option.splits)
    then show ?thesis
    proof (elim disjE exE)
      fix m assume m: "phase s = Returned m \<and> res = (case m of None \<Rightarrow> Done () | Some x \<Rightarrow> Failed (Text x)) \<and> w' = files s"
      then have "phase s = Returned m" by simp
      from returned_clean [OF reach w0(1) this] show ?thesis using f m by (cases m) auto
    qed (use f in simp)
  qed (use own run started h in \<open>auto simp: daemon_run_def\<close>)
qed

text \<open>
  C2: from start to end the daemon never disturbs the locks of others, and however it ends,
  short of being killed, it gives up its own; without an error it ends only when it was told
  to stop after it had started the proxy.
\<close>

theorem whole_run_ends_clean:
  "if held w = [] then
     case daemon_run h c policies now r moves os w of
       None \<Rightarrow> True
     | Some (res, w') \<Rightarrow> foreign w' = foreign w \<and>
         (case res of
            Done _ \<Rightarrow> held w' = [] \<and> Cancel \<in> set moves \<and> CheckOK True \<in> set moves
          | Failed e \<Rightarrow> held w' = []
          | Killed \<Rightarrow> True)
   else True"
proof (cases "held w = []")
  case True
  show ?thesis
  proof (cases "daemon_run h c policies now r moves os w")
    case (Some x)
    obtain res w' where x: "x = (res, w')" by fastforce
    show ?thesis using daemon_run_clean [OF True Some [unfolded x]] unfolding Some x by (cases res) (simp_all add: True)
  qed (simp add: True)
qed simp

section \<open>A concrete run\<close>

definition sample_env :: env where
  "sample_env = \<lparr>e_os = sample_os, e_yaml = \<lambda>_. None,
     e_config = sample_config\<lparr>Role := Egress, ProxyMode := Istio\<rparr>, e_extension = False, e_lock = [''lock'']\<rparr>"

definition sample_held :: world where
  "sample_held = sample_world\<lparr>held := [[''lock'']]\<rparr>"

text \<open>Started, healthy, told to stop, and returned after the proxy's exit.\<close>

definition sample_shutdown :: "move list" where
  "sample_shutdown =
     [CheckFailed WakeTimer, CheckOK True, Ticked None (Some ''not yet''), Ticked None None, Cancel, Woken WakeContext,
      Unwound Proceed, Unwound Proceed, Unwound TimeOut, EndProxy ''killed'', Unwound Collect, Unwound Proceed,
      Unwound Proceed, Unwound Proceed, Unwound TimeOut, Unwound Proceed, Unwound Proceed]"

definition sample_state :: "nat \<Rightarrow> sup" where
  "sample_state n = the (perform_all sample_env (take n sample_shutdown) (served sample_env sample_held))"

lemma sample_supervised:
  assumes "perform_all sample_env (take n sample_shutdown) (served sample_env sample_held) \<noteq> None"
  shows "supervised sample_env sample_held (sample_state n)"
  using assms supervised_all [OF supervised.start] by (auto simp: sample_state_def)

lemma sample_states:
  "supervised sample_env sample_held (sample_state 9)" "supervised sample_env sample_held (sample_state 17)"
  by (rule sample_supervised, code_simp)+

lemma sample_locks: "held sample_held = ca_locks (e_config sample_env) @ [e_lock sample_env]"
  by code_simp

theorem return_terminates_witness:
  "unwind_left (sample_state 9) \<le> 13 \<and> proxy (sample_state 9) = Running \<and> proxy_signal (sample_state 9) = SIGKILL"
proof -
  have "phase (sample_state 9) = Unwinding None" "proxy (sample_state 9) = Running" "proxy_signal (sample_state 9) = SIGKILL"
    by code_simp+
  then show ?thesis using return_terminates [OF sample_states(1)] by blast
qed

theorem run_leaves_nothing_behind_witness: "held (files (sample_state 17)) = [] \<and> proxy (sample_state 17) = Collected"
proof -
  have "phase (sample_state 17) = Returned None" by code_simp
  from run_leaves_nothing_behind [OF sample_states(2) sample_locks this] show ?thesis by simp
qed


definition sample_standalone :: "json \<Rightarrow> env" where
  "sample_standalone v = \<lparr>e_os = sample_os, e_yaml = \<lambda>_. Some v,
     e_config = sample_config\<lparr>ProxyMode := Standalone\<rparr>, e_extension = True, e_lock = [''lock'']\<rparr>"

theorem proxy_starts_on_prepared_bootstrap_witness:
  "\<exists>b. node (files (launch (sample_standalone sample_bootstrap) True (served (sample_standalone sample_bootstrap) sample_world)))
     (runtime_path (sample_config\<lparr>ProxyMode := Standalone\<rparr>) ''envoy.json'') = Some (File 384 (Marshal b))"
proof -
  let ?c = "sample_config\<lparr>ProxyMode := Standalone\<rparr>"
  let ?e = "sample_standalone sample_bootstrap"
  have "ok (bootstrap ?c True sample_bootstrap)" by code_simp
  then obtain b where b: "bootstrap ?c True sample_bootstrap = Inr b" by (auto simp: ok_iff)
  have 1: "read_file (EnvoyConfig ?c) sample_os sample_world = (Done ''e'', sample_world\<lparr>clock := 1\<rparr>)" by code_simp
  have "fst (WriteAtomic (envoy_json ?c) (Marshal b) 384 sample_os (sample_world\<lparr>clock := 1\<rparr>)) = Done ()" by code_simp
  then obtain w where 2: "WriteAtomic (envoy_json ?c) (Marshal b) 384 sample_os (sample_world\<lparr>clock := 1\<rparr>) = (Done (), w)"
    by (metis prod.collapse)
  have "prepareEnvoy (\<lambda>_. Some sample_bootstrap) ?c True sample_os sample_world = (Done (envoy_json ?c), w)"
    unfolding prepareEnvoy_def bind_io_Done using 1 2 b by (auto simp: bind_io_Done ret_def)
  then have "phase (launch ?e True (served ?e sample_world)) = Supervising"
    by (simp add: launch_def sample_standalone_def served_def)
  moreover have "runtime_ready (e_config ?e) (node (files (served ?e sample_world)))"
    using sample_ready by (simp add: runtime_ready_def sample_standalone_def served_def)
  moreover have "phase (served ?e sample_world) = Starting" "ProxyMode (e_config ?e) = Standalone" "e_config ?e = ?c"
    by (simp_all add: served_def sample_standalone_def)
  ultimately show ?thesis using proxy_starts_on_prepared_bootstrap [of ?e True "served ?e sample_world"] by auto
qed

end
