(* ===== verification/Readiness.thy ===== *)
theory Readiness
  imports Supervisor
begin

text \<open>
  \<^verbatim>\<open>internal/daemon/daemon.go\<close>: the health checks.  The record \<open>network\<close> is the
  state of the world the checks ask: what dialing a Unix socket and what an HTTP request
  give within the time limits of the code.  \<open>None\<close> is the nil error.  \<open>tick_net\<close> composes the
  checks with the turn of the supervision loop that performs them.
\<close>

record network =
  DialUnix :: "string \<Rightarrow> string option"
  CloseConn :: "string \<Rightarrow> string option"
  HttpGet :: "string \<Rightarrow> string \<Rightarrow> (string, nat) result" \<comment> \<open>socket (empty: TCP), URL; the status\<close>

definition get_url :: "network \<Rightarrow> string \<Rightarrow> string \<Rightarrow> string option" where
  "get_url net socket url =
     (case HttpGet net socket url of
        Inl e \<Rightarrow> Some e
      | Inr status \<Rightarrow> if status \<noteq> 200 then Some ''required service returned another status'' else None)"

definition checkOPAHealth :: "network \<Rightarrow> config \<Rightarrow> string \<Rightarrow> string option" where
  "checkOPAHealth net c endpoint =
     (case get_url net (join_path [RuntimeDir c, ''opa-api.sock'']) endpoint of
        Some e \<Rightarrow> Some e
      | None \<Rightarrow>
          (case DialUnix net (join_path [RuntimeDir c, ''opa.sock'']) of
             Some e \<Rightarrow> Some e
           | None \<Rightarrow> CloseConn net (join_path [RuntimeDir c, ''opa.sock''])))"

definition checkOPA :: "network \<Rightarrow> config \<Rightarrow> string option" where
  "checkOPA net c = checkOPAHealth net c ''http://localhost/health?plugins&bundles''"

definition checkOPALiveness :: "network \<Rightarrow> config \<Rightarrow> string option" where
  "checkOPALiveness net c = checkOPAHealth net c ''http://localhost/health''"

definition checkProxy :: "network \<Rightarrow> config \<Rightarrow> string option" where
  "checkProxy net c =
     (if ProxyMode c = Istio then get_url net [] ''http://127.0.0.1:15021/healthz/ready''
      else get_url net (EnvoyAdminPath c) ''http://localhost/ready'')"

definition io_of :: "string option \<Rightarrow> unit io" where
  "io_of e = (case e of None \<Rightarrow> ret () | Some m \<Rightarrow> raise (Text m))"

definition Ready :: "network \<Rightarrow> config \<Rightarrow> unit io" where
  "Ready net c =
     bind_io
      (if Role c = Workload then
         bind_io (read_file (PublicCAPath c)) (\<lambda>ca.
         bind_io (guard_io (ca \<noteq> []) (Text ''inspection CA is not published'')) (\<lambda>_.
         io_of (DialUnix net (InspectionSDSPath c))))
       else ret ()) (\<lambda>_.
     bind_io (io_of (checkOPA net c)) (\<lambda>_.
     io_of (checkProxy net c)))"

text \<open>One tick of the supervision loop: the proxy is asked only when OPA is alive.\<close>

definition tick_net :: "env \<Rightarrow> network \<Rightarrow> sup \<Rightarrow> sup" where
  "tick_net e net s =
     (case checkOPALiveness net (e_config e) of
        Some m \<Rightarrow> tick_turn (Some m) None s
      | None \<Rightarrow> tick_turn None (checkProxy net (e_config e)) s)"

lemma tick_net_step: "phase s = Supervising \<Longrightarrow> sup_step e s (tick_net e net s)"
  unfolding tick_net_def by (auto intro: sup_step.ticked split: option.split)

lemma get_url_None: "get_url net socket url = None \<longleftrightarrow> HttpGet net socket url = Inr 200"
  by (auto simp: get_url_def split: sum.splits)

lemma checkOPAHealth_None:
  "checkOPAHealth net c endpoint = None \<longleftrightarrow>
     HttpGet net (join_path [RuntimeDir c, ''opa-api.sock'']) endpoint = Inr 200 \<and>
     DialUnix net (OPASocketPath c) = None \<and> CloseConn net (OPASocketPath c) = None"
  by (auto simp: checkOPAHealth_def OPASocketPath_def get_url_None [symmetric] split: option.splits)

text \<open>What the probes ask, by mode.\<close>

definition proxy_answers :: "network \<Rightarrow> config \<Rightarrow> bool" where
  "proxy_answers net c \<longleftrightarrow>
     HttpGet net (if ProxyMode c = Istio then [] else EnvoyAdminPath c)
       (if ProxyMode c = Istio then ''http://127.0.0.1:15021/healthz/ready'' else ''http://localhost/ready'') = Inr 200"

lemma checkProxy_None: "checkProxy net c = None \<longleftrightarrow> proxy_answers net c"
  by (simp add: checkProxy_def proxy_answers_def get_url_None)

lemma io_of_Done: "io_of e os w = (Done x, w') \<longleftrightarrow> e = None \<and> w' = w"
  by (auto simp: io_of_def ret_def raise_def split: option.splits)

section \<open>Properties\<close>

text \<open>
  C24: the daemon reports ready only when every required service is: the policy service
  answers its health endpoint for plugins and bundles and accepts connections on its private
  socket, the proxy of the configured mode answers, and a workload has a non-empty published
  CA certificate and a reachable certificate service.  The check changes no file.
\<close>

theorem Ready_requires_every_service:
  "case Ready net c os w of
     (Done _, w') \<Rightarrow>
       HttpGet net (join_path [RuntimeDir c, ''opa-api.sock'']) ''http://localhost/health?plugins&bundles'' = Inr 200 \<and>
       DialUnix net (OPASocketPath c) = None \<and> proxy_answers net c \<and> node w' = node w \<and>
       (if Role c = Workload
        then (\<exists>raw. reads (node w) (PublicCAPath c) raw \<and> raw \<noteq> []) \<and> DialUnix net (InspectionSDSPath c) = None
        else True)
   | _ \<Rightarrow> True"
proof -
  have "HttpGet net (join_path [RuntimeDir c, ''opa-api.sock'']) ''http://localhost/health?plugins&bundles'' = Inr 200 \<and>
       DialUnix net (OPASocketPath c) = None \<and> proxy_answers net c \<and> node w' = node w \<and>
       (if Role c = Workload
        then (\<exists>raw. reads (node w) (PublicCAPath c) raw \<and> raw \<noteq> []) \<and> DialUnix net (InspectionSDSPath c) = None
        else True)" if run: "Ready net c os w = (Done (), w')" for w'
  proof -
    obtain w1 where first: "(if Role c = Workload then
         bind_io (read_file (PublicCAPath c)) (\<lambda>ca.
         bind_io (guard_io (ca \<noteq> []) (Text ''inspection CA is not published'')) (\<lambda>_.
         io_of (DialUnix net (InspectionSDSPath c))))
       else ret ()) os w = (Done (), w1)" and rest: "checkOPA net c = None" "checkProxy net c = None" "w' = w1"
      using run unfolding Ready_def by (auto simp: bind_io_Done io_of_Done split del: if_split)
    have "node w1 = node w \<and> (if Role c = Workload
        then (\<exists>raw. reads (node w) (PublicCAPath c) raw \<and> raw \<noteq> []) \<and> DialUnix net (InspectionSDSPath c) = None
        else True)"
    proof (cases "Role c = Workload")
      case True
      then obtain raw where r: "read_file (PublicCAPath c) os w = (Done raw, w1)" "raw \<noteq> []" "DialUnix net (InspectionSDSPath c) = None"
        using first by (auto simp: bind_io_Done io_of_Done guard_io_Done)
      from specD [OF spec_read_file refl r(1)] show ?thesis using True r by auto
    qed (use first in \<open>auto simp: ret_def\<close>)
    then show ?thesis
      using rest by (simp add: checkOPA_def checkOPAHealth_None checkProxy_None)
  qed
  then show ?thesis by (auto split: prod.split outcome.split)
qed

text \<open>
  The supervision loop goes on past a tick exactly while the live policy service answers
  and accepts connections, and the proxy answers or, before its first good answer, has
  startup time left; so a service that fails is noticed at the next tick.
\<close>

theorem tick_continues_iff_healthy:
  "if phase s = Supervising
   then phase (tick_net e net s) = Supervising \<longleftrightarrow>
      checkOPALiveness net (e_config e) = None \<and>
      (proxy_answers net (e_config e) \<or> \<not> (healthy s \<or> startup_over s \<or> ctx_done s))
   else True"
  by (auto simp: tick_net_def tick_turn_def checkProxy_None [symmetric] startup_done_def split: option.splits)

end
