(* ===== verification/DaemonMain.thy ===== *)
theory DaemonMain
  imports DaemonRun Readiness
begin

text \<open>
  \<^verbatim>\<open>cmd/gateway-daemon/main.go\<close>: the command line.  \<open>dispatch\<close> decides between the
  three commands, \<open>parse_flags\<close> is \<^verbatim>\<open>flag.FlagSet.Parse\<close> for the string flags that
  \<open>trustInit\<close> declares, \<open>main_run\<close> composes the commands with the parts they call.
\<close>

section \<open>Arguments\<close>

datatype mode = TrustInit "string list" | ReadyMode config | Serve config "string list"

datatype main_error = ConfigError config_error | UnsupportedArguments

fun policy_args :: "string list \<Rightarrow> string list option" where
  "policy_args [] = Some []"
| "policy_args (a # args) =
     (if a \<noteq> ''--policy'' then None
      else case args of [] \<Rightarrow> None | p # args \<Rightarrow> map_option ((#) p) (policy_args args))"

definition dispatch :: "golib \<Rightarrow> lookup \<Rightarrow> string list \<Rightarrow> (main_error, mode) result" where
  "dispatch lib lookup args =
     (if args \<noteq> [] \<and> hd args = ''trust-init'' then Inr (TrustInit (tl args))
      else case Load lib lookup of
        Inl e \<Rightarrow> Inl (ConfigError e)
      | Inr c \<Rightarrow>
          if args = [''ready''] then Inr (ReadyMode c)
          else case policy_args args of
            None \<Rightarrow> Inl UnsupportedArguments
          | Some policies \<Rightarrow> Inr (Serve c policies))"

section \<open>The flags of trust-init\<close>

datatype flag_error = BadFlagSyntax string | ErrHelp | UndefinedFlag string | FlagNeedsArgument string

text \<open>The values of the declared flags, and the arguments left when parsing stops.\<close>

fun parse_flags :: "(string \<times> string) list \<Rightarrow> string list \<Rightarrow> (flag_error, (string \<times> string) list \<times> string list) result" where
  "parse_flags vals [] = Inr (vals, [])"
| "parse_flags vals (s # args) =
     (if length s < 2 \<or> hd s \<noteq> CHR ''-'' then Inr (vals, s # args)
      else if s = ''--'' then Inr (vals, args)
      else
        let name = (if s ! 1 = CHR ''-'' then drop 2 s else drop 1 s) in
        if name = [] \<or> hd name = CHR ''-'' \<or> hd name = CHR ''='' then Inl (BadFlagSyntax s)
        else case cut CHR ''='' name of (n, v, has) \<Rightarrow>
          if map_of vals n = None then Inl (if n = ''help'' \<or> n = ''h'' then ErrHelp else UndefinedFlag n)
          else if has then parse_flags (AList.update n v vals) args
          else case args of
            [] \<Rightarrow> Inl (FlagNeedsArgument n)
          | v # args \<Rightarrow> parse_flags (AList.update n v vals) args)"

definition trust_flags :: "string list \<Rightarrow> (string, string \<times> string \<times> string) result" where
  "trust_flags args =
     (case parse_flags [(''base'', []), (''ca'', []), (''output'', [])] args of
        Inl e \<Rightarrow> Inl ''flags''
      | Inr (vals, rest) \<Rightarrow>
          (let get = \<lambda>n. the (map_of vals n) in
           refuse (rest \<noteq> [] \<or> get ''base'' = [] \<or> get ''ca'' = [] \<or> get ''output'' = [])
             ''trust-init requires --base, --ca and --output''
             (Inr (get ''base'', get ''ca'', get ''output''))))"

definition trustInit :: "crypto \<Rightarrow> string list \<Rightarrow> unit io" where
  "trustInit cr args =
     (case trust_flags args of
        Inl e \<Rightarrow> raise (Text e)
      | Inr (base, ca, output) \<Rightarrow>
          bind_io (read_file base) (\<lambda>basePEM.
          bind_io (read_file ca) (\<lambda>caPEM.
          case Bundle cr basePEM caPEM of
            Inl e \<Rightarrow> raise (Text ''Bundle'')
          | Inr out \<Rightarrow> WriteAtomic output out 420)))"

text \<open>\<^verbatim>\<open>run\<close>; the moves are those of a daemon that has been set up.\<close>

definition main_run :: "host \<Rightarrow> golib \<Rightarrow> network \<Rightarrow> lookup \<Rightarrow> string list \<Rightarrow> time \<Rightarrow> nat \<Rightarrow> move list \<Rightarrow> os \<Rightarrow> world \<Rightarrow> (unit outcome \<times> world) option" where
  "main_run h lib net lookup args now r moves os w =
     (case dispatch lib lookup args of
        Inl e \<Rightarrow> Some (Failed (Text ''startup''), w)
      | Inr (TrustInit args) \<Rightarrow> Some (trustInit (h_crypto h) args os w)
      | Inr (ReadyMode c) \<Rightarrow> Some (Ready net c os w)
      | Inr (Serve c policies) \<Rightarrow> daemon_run h c policies now r moves os w)"

section \<open>Lemmas\<close>

lemma policy_args_some: "policy_args args = Some ps \<Longrightarrow> args = concat (map (\<lambda>p. [''--policy'', p]) ps)"
  by (induction args arbitrary: ps rule: policy_args.induct) (auto split: list.splits if_splits)

lemma policy_args_concat: "policy_args (concat (map (\<lambda>p. [''--policy'', p]) ps)) = Some ps"
  by (induction ps) auto

text \<open>The declared flags stay declared, so the code's pointers always have a value.\<close>

lemma parse_flags_dom: "parse_flags vals args = Inr (vals', rest) \<Longrightarrow> fst ` set vals' = fst ` set vals"
proof (induction vals args rule: parse_flags.induct)
  case (2 vals s args)
  have dom: "map_of vals n \<noteq> None \<Longrightarrow> fst ` set (AList.update n v vals) = fst ` set vals" for n v
    by (auto simp: dom_update map_of_eq_None_iff insert_absorb)
  show ?case
    using 2 dom by (auto simp: Let_def split: if_splits prod.splits list.splits)
qed simp

lemma spec_trustInit:
  assumes "trust_flags args = Inr (base, ca, output)" "stands_for output d f" "plain v0 d"
  shows "spec (\<lambda>v. v = v0) (trustInit cr args)
     (\<lambda>_ v. \<exists>b c out. reads v0 base b \<and> reads v0 ca c \<and> Bundle cr b c = Inr out \<and> published_as v0 d (d @ [f]) (File 420 out) v)
     (\<lambda>_. \<lambda>v. unpublished v0 d v \<or> (\<exists>b c out. reads v0 base b \<and> reads v0 ca c \<and> Bundle cr b c = Inr out \<and> published_as v0 d (d @ [f]) (File 420 out) v))
     (\<lambda>v. unpublished v0 d v \<or> (\<exists>b c out. reads v0 base b \<and> reads v0 ca c \<and> Bundle cr b c = Inr out \<and> published_as v0 d (d @ [f]) (File 420 out) v))"
proof -
  let ?X = "\<lambda>v. unpublished v0 d v \<or> (\<exists>b c out. reads v0 base b \<and> reads v0 ca c \<and> Bundle cr b c = Inr out \<and> published_as v0 d (d @ [f]) (File 420 out) v)"
  have u: "unpublished v0 d v0" by (simp add: unpublished_def)
  have written: "spec (\<lambda>v. v = v0 \<and> reads v0 base b \<and> reads v0 ca c)
     (case Bundle cr b c of Inl e \<Rightarrow> raise (Text ''Bundle'') | Inr out \<Rightarrow> WriteAtomic output out 420)
     (\<lambda>_ v. \<exists>b c out. reads v0 base b \<and> reads v0 ca c \<and> Bundle cr b c = Inr out \<and> published_as v0 d (d @ [f]) (File 420 out) v)
     (\<lambda>_. ?X) ?X" for b c
  proof (cases "Bundle cr b c")
    case (Inl e)
    then show ?thesis using u by (auto intro!: spec_raise)
  next
    case (Inr out)
    show ?thesis
    proof (cases "reads v0 base b \<and> reads v0 ca c")
      case True
      show ?thesis
        unfolding Inr sum.case WriteAtomic_def
        by (rule spec_weaken [OF by_rename.spec_writeAtomic [OF assms(2), of v0]]) (use assms(3) True Inr in blast)+
    qed (auto simp: spec_def)
  qed
  have read2: "spec (\<lambda>v. v = v0 \<and> reads v0 base b) (read_file ca) (\<lambda>c v. v = v0 \<and> reads v0 base b \<and> reads v0 ca c) (\<lambda>_. ?X) ?X" for b
  proof (cases "reads v0 base b")
    case True
    show ?thesis by (rule spec_weaken [OF spec_read_file [of v0 ca]]) (use u True in auto)
  qed (simp add: spec_def)
  have read1: "spec (\<lambda>v. v = v0) (read_file base) (\<lambda>b v. v = v0 \<and> reads v0 base b) (\<lambda>_. ?X) ?X"
    by (rule spec_weaken [OF spec_read_file]) (use u in auto)
  show ?thesis
    unfolding trustInit_def assms(1) sum.case prod.case
    by (rule spec_bind [OF read1 spec_bind [OF read2 written]])
qed

section \<open>Properties\<close>

text \<open>
  The startup arguments round-trip: the daemon accepts exactly the repetitions of
  \<^verbatim>\<open>--policy\<close> with a path, and reads back the paths in their order.
\<close>

theorem policy_arguments_roundtrip:
  "policy_args args = Some ps \<longleftrightarrow> args = concat (map (\<lambda>p. [''--policy'', p]) ps)"
  using policy_args_some policy_args_concat by blast

text \<open>
  C25: \<^verbatim>\<open>trust-init\<close> publishes the bundle of exactly the two files it was given, as one
  file that is complete or as before wherever it fails or is killed; nothing else changes but
  for at most one temporary file next to it.
\<close>

theorem trustInit_publishes_bundle:
  assumes "trustInit cr args os w = (res, w')" "trust_flags args = Inr (base, ca, output)"
    and "stands_for output d f" "plain (node w) d"
  shows "(\<forall>q. q = d @ [f] \<or> is_temp d q \<or> node w' q = node w q) \<and>
    ((\<exists>b c out. reads (node w) base b \<and> reads (node w) ca c \<and> Bundle cr b c = Inr out \<and> node w' (d @ [f]) = Some (File 420 out)) \<or>
     res \<noteq> Done () \<and> node w' (d @ [f]) = node w (d @ [f]))"
proof -
  let ?P = "\<lambda>v. \<exists>b c out. reads (node w) base b \<and> reads (node w) ca c \<and> Bundle cr b c = Inr out \<and>
      published_as (node w) d (d @ [f]) (File 420 out) v"
  have "?P (node w') \<or> res \<noteq> Done () \<and> unpublished (node w) d (node w')"
    using specD [OF spec_trustInit [OF assms(2-4)] refl assms(1)] by (cases res) auto
  then show ?thesis
  proof
    assume "?P (node w')"
    then obtain b c out where r: "reads (node w) base b" "reads (node w) ca c" "Bundle cr b c = Inr out"
      and p: "unpublished ((node w)(d @ [f] := Some (File 420 out))) d (node w')"
      unfolding published_as_def by blast
    have "node w' (d @ [f]) = Some (File 420 out)" "\<forall>q. q = d @ [f] \<or> is_temp d q \<or> node w' q = node w q"
      using p stands_for_not_temp [OF assms(3)] unfolding unpublished_def by (auto split: if_splits)
    then show ?thesis using r by blast
  next
    assume u: "res \<noteq> Done () \<and> unpublished (node w) d (node w')"
    then have "node w' (d @ [f]) = node w (d @ [f])" "\<forall>q. q = d @ [f] \<or> is_temp d q \<or> node w' q = node w q"
      using stands_for_not_temp [OF assms(3)] unfolding unpublished_def by (auto split: if_splits)
    then show ?thesis using u by blast
  qed
qed

text \<open>
  Whatever the command line: the process leaves the locks of others alone and, unless it is
  killed, ends without a lock of its own; a daemon ends without an error only when it was
  told to stop after it had started the proxy.
\<close>

lemma lockless_commands: "lockless (trustInit cr args)" "lockless (Ready net c)"
proof -
  have io: "lockless (io_of e)" for e by (auto simp: io_of_def intro!: lockless_intros split: option.split)
  show "lockless (trustInit cr args)" unfolding trustInit_def
    by (auto intro!: lockless_intros split: sum.split prod.split)
  show "lockless (Ready net c)" unfolding Ready_def by (auto intro!: lockless_intros io)
qed

theorem main_ends_clean:
  assumes "held w = []" "main_run h lib net lookup args now r moves os w = Some (res, w')"
  shows "foreign w' = foreign w \<and> (res \<noteq> Killed \<longrightarrow> held w' = []) \<and>
    (\<forall>c policies. dispatch lib lookup args = Inr (Serve c policies) \<longrightarrow> res = Done () \<longrightarrow> Cancel \<in> set moves \<and> CheckOK True \<in> set moves)"
proof (cases "dispatch lib lookup args")
  case (Inr m)
  show ?thesis
  proof (cases m)
    case (TrustInit as)
    then have "trustInit (h_crypto h) as os w = (res, w')" using assms(2) Inr by (simp add: main_run_def)
    from locklessD [OF lockless_commands(1) this] show ?thesis using assms(1) Inr TrustInit by simp
  next
    case (ReadyMode c)
    then have "Ready net c os w = (res, w')" using assms(2) Inr by (simp add: main_run_def)
    from locklessD [OF lockless_commands(2) this] show ?thesis using assms(1) Inr ReadyMode by simp
  next
    case (Serve c ps)
    then have "daemon_run h c ps now r moves os w = Some (res, w')" using assms(2) Inr by (simp add: main_run_def)
    from daemon_run_clean [OF assms(1) this] show ?thesis using Inr Serve by simp
  qed
qed (use assms in \<open>auto simp: main_run_def\<close>)

section \<open>A concrete run of trust-init\<close>

definition sample_trust_args :: "string list" where
  "sample_trust_args = [''--base'', ''/envoy.yaml'', ''-ca=/envoy.yaml'', ''--output'', ''/run/gateway/private/out'']"

definition sample_trust_run :: "unit outcome \<times> world" where
  "sample_trust_run = trustInit toy_crypto sample_trust_args sample_os sample_world"

theorem trustInit_publishes_bundle_witness: "node (snd sample_trust_run) [''envoy.yaml''] = node sample_world [''envoy.yaml'']"
proof -
  have f: "trust_flags sample_trust_args = Inr (''/envoy.yaml'', ''/envoy.yaml'', join_path [''/run/gateway/private'', ''out''])"
    by code_simp
  have s: "stands_for (join_path [''/run/gateway/private'', ''out'']) (elems (RuntimeDir sample_config)) ''out''"
  proof -
    have "RuntimeDir sample_config = ''/run/gateway/private''" by code_simp
    then show ?thesis using runtime_stands_for [OF sample_runtime_dir(2), of "''out''"] by (simp add: proper_def temp_prefix_def)
  qed
  have "trustInit toy_crypto sample_trust_args sample_os sample_world = (fst sample_trust_run, snd sample_trust_run)"
    by (simp add: sample_trust_run_def)
  from trustInit_publishes_bundle [OF this f s] show ?thesis
    using sample_ready by (auto simp: runtime_ready_def sample_runtime_dir is_temp_def)
qed

end
