(* ===== verification/Pods.thy ===== *)
theory Pods
  imports Config Json
begin

text \<open>
  The part of the Kubernetes API types that \<^verbatim>\<open>enrollment/compose.go\<close> reads or writes,
  and \<^verbatim>\<open>enrollment/managed.json\<close> as the Pod specification it decodes to.  A field the
  code does not touch is kept as JSON in the last field of its record, a pointer or a slice
  that may be nil is an option where the code tells nil apart, a Go map is an association
  list in the order of an iteration.
\<close>

section \<open>Kubernetes types\<close>

datatype env_source = FieldRef string | OtherSource json

record env_var =
  eName :: string
  eValue :: string
  eFrom :: "env_source option"

record volume_mount =
  mName :: string
  MountPath :: string
  SubPath :: string
  ReadOnly :: bool
  mRest :: fields

record projection =
  ServiceAccountToken :: "fields option"
  pjRest :: fields

record volume =
  vName :: string
  vConfigMap :: "string option"
  Projected :: "projection list option"
  vRest :: fields

record container_security =
  cRunAsUser :: "int option"
  cRunAsGroup :: "int option"
  csRest :: fields

record pod_security =
  RunAsUser :: "int option"
  RunAsGroup :: "int option"
  FSGroup :: "int option"
  SupplementalGroups :: "int list"
  psRest :: fields

record container =
  cName :: string
  cImage :: string
  ImagePullPolicy :: string
  Command :: "string list"
  Args :: "string list"
  Env :: "env_var list"
  VolumeMounts :: "volume_mount list"
  VolumeDevices :: "string list" \<comment> \<open>the names\<close>
  RestartPolicy :: "string option"
  StartupProbe :: "json option"
  cSecurity :: "container_security option"
  cRest :: fields

record pod_spec =
  AutomountServiceAccountToken :: "bool option"
  Volumes :: "volume list"
  pSecurity :: "pod_security option"
  InitContainers :: "container list"
  Containers :: "container list"
  sRest :: fields

record pod =
  Labels :: "(string \<times> string) list"
  Annotations :: "(string \<times> string) list"
  Spec :: pod_spec
  podRest :: fields

section \<open>The managed components\<close>

definition managed_mount :: "string \<Rightarrow> string \<Rightarrow> bool \<Rightarrow> volume_mount" where
  "managed_mount name path ro = \<lparr>mName = name, MountPath = path, SubPath = [], ReadOnly = ro, mRest = []\<rparr>"

definition prepare_volumes :: container where
  "prepare_volumes =
     \<lparr>cName = ''prepare-volumes'', cImage = [], ImagePullPolicy = [],
      Command = [''/bin/bash'', ''-ec'', ''chown 1337:1337 /state /runtime /public /bundle /istio /workload-socket /credential-socket /workload-certs; chmod 0700 /state /runtime /workload-socket /credential-socket /workload-certs; chmod 0755 /public /bundle /istio''], Args = [], Env = [],
      VolumeMounts = [managed_mount ''state'' ''/state'' False,
       managed_mount ''runtime'' ''/runtime'' False,
       managed_mount ''public'' ''/public'' False,
       managed_mount ''bundle'' ''/bundle'' False,
       managed_mount ''istio-data'' ''/istio'' False,
       managed_mount ''workload-socket'' ''/workload-socket'' False,
       managed_mount ''credential-socket'' ''/credential-socket'' False,
       managed_mount ''workload-certs'' ''/workload-certs'' False], VolumeDevices = [],
      RestartPolicy = None,
      StartupProbe = None,
      cSecurity = Some \<lparr>cRunAsUser = Some 0, cRunAsGroup = Some 0, csRest = [(''allowPrivilegeEscalation'', JBool False), (''capabilities'', JObj [(''add'', JArr [JStr ''CHOWN'', JStr ''FOWNER'', JStr ''DAC_OVERRIDE'']), (''drop'', JArr [JStr ''ALL''])]), (''runAsNonRoot'', JBool False)]\<rparr>,
      cRest = []\<rparr>"

definition management_init :: container where
  "management_init =
     \<lparr>cName = ''management-init'', cImage = [], ImagePullPolicy = [],
      Command = [''/usr/local/bin/gateway-management-init''], Args = [], Env = [],
      VolumeMounts = [], VolumeDevices = [],
      RestartPolicy = None,
      StartupProbe = None,
      cSecurity = Some \<lparr>cRunAsUser = Some 0, cRunAsGroup = Some 0, csRest = [(''allowPrivilegeEscalation'', JBool False), (''capabilities'', JObj [(''add'', JArr [JStr ''NET_ADMIN'', JStr ''NET_RAW'']), (''drop'', JArr [JStr ''ALL''])]), (''runAsNonRoot'', JBool False)]\<rparr>,
      cRest = []\<rparr>"

definition istio_proxy :: container where
  "istio_proxy =
     \<lparr>cName = ''istio-proxy'', cImage = [], ImagePullPolicy = [],
      Command = [], Args = [], Env = [],
      VolumeMounts = [managed_mount ''state'' ''/var/lib/gateway/private'' False,
       managed_mount ''runtime'' ''/run/gateway/private'' False,
       managed_mount ''public'' ''/run/gateway/trust'' False,
       managed_mount ''istio-data'' ''/etc/istio/proxy'' False,
       managed_mount ''workload-socket'' ''/var/run/secrets/workload-spiffe-uds'' False,
       managed_mount ''credential-socket'' ''/var/run/secrets/credential-uds'' False,
       managed_mount ''workload-certs'' ''/var/run/secrets/workload-spiffe-credentials'' False,
       managed_mount ''istio-token'' ''/var/run/secrets/tokens'' True,
       managed_mount ''istio-ca'' ''/var/run/secrets/istio'' True], VolumeDevices = [],
      RestartPolicy = Some ''Always'',
      StartupProbe = Some (JObj [(''exec'', JObj [(''command'', JArr [JStr ''/usr/local/bin/gateway-daemon'', JStr ''ready''])]), (''failureThreshold'', JNum ''60''), (''periodSeconds'', JNum ''2''), (''timeoutSeconds'', JNum ''4'')]),
      cSecurity = Some \<lparr>cRunAsUser = Some 1337, cRunAsGroup = Some 1337, csRest = [(''allowPrivilegeEscalation'', JBool False), (''capabilities'', JObj [(''drop'', JArr [JStr ''ALL''])]), (''runAsNonRoot'', JBool True)]\<rparr>,
      cRest = [(''readinessProbe'', JObj [(''exec'', JObj [(''command'', JArr [JStr ''/usr/local/bin/gateway-daemon'', JStr ''ready''])]), (''periodSeconds'', JNum ''2''), (''timeoutSeconds'', JNum ''4'')]), (''resources'', JObj [(''limits'', JObj [(''memory'', JStr ''512Mi'')]), (''requests'', JObj [(''cpu'', JStr ''100m''), (''memory'', JStr ''128Mi'')])])]\<rparr>"

definition base_trust :: container where
  "base_trust =
     \<lparr>cName = ''base-trust'', cImage = [], ImagePullPolicy = [],
      Command = [''/bin/cp'', ''/cacert.pem'', ''/bundle/base.pem''], Args = [], Env = [],
      VolumeMounts = [managed_mount ''bundle'' ''/bundle'' False], VolumeDevices = [],
      RestartPolicy = None,
      StartupProbe = None,
      cSecurity = Some \<lparr>cRunAsUser = Some 1337, cRunAsGroup = Some 1337, csRest = [(''allowPrivilegeEscalation'', JBool False), (''capabilities'', JObj [(''drop'', JArr [JStr ''ALL''])]), (''runAsNonRoot'', JBool True)]\<rparr>,
      cRest = []\<rparr>"

definition trust_init :: container where
  "trust_init =
     \<lparr>cName = ''trust-init'', cImage = [], ImagePullPolicy = [],
      Command = [''/usr/local/bin/gateway-daemon'', ''trust-init'', ''--base'', ''/bundle/base.pem'', ''--ca'', ''/public/inspection-ca.pem'', ''--output'', ''/bundle/ca-bundle.pem''], Args = [], Env = [],
      VolumeMounts = [managed_mount ''bundle'' ''/bundle'' False,
       managed_mount ''public'' ''/public'' True], VolumeDevices = [],
      RestartPolicy = None,
      StartupProbe = None,
      cSecurity = Some \<lparr>cRunAsUser = Some 1337, cRunAsGroup = Some 1337, csRest = [(''allowPrivilegeEscalation'', JBool False), (''capabilities'', JObj [(''drop'', JArr [JStr ''ALL''])]), (''runAsNonRoot'', JBool True)]\<rparr>,
      cRest = []\<rparr>"

definition managed_volumes :: "volume list" where
  "managed_volumes =
     [\<lparr>vName = ''state'', vConfigMap = None, Projected = None, vRest = [(''emptyDir'', JObj [])]\<rparr>,
      \<lparr>vName = ''runtime'', vConfigMap = None, Projected = None, vRest = [(''emptyDir'', JObj [])]\<rparr>,
      \<lparr>vName = ''public'', vConfigMap = None, Projected = None, vRest = [(''emptyDir'', JObj [])]\<rparr>,
      \<lparr>vName = ''bundle'', vConfigMap = None, Projected = None, vRest = [(''emptyDir'', JObj [])]\<rparr>,
      \<lparr>vName = ''istio-data'', vConfigMap = None, Projected = None, vRest = [(''emptyDir'', JObj [])]\<rparr>,
      \<lparr>vName = ''workload-socket'', vConfigMap = None, Projected = None, vRest = [(''emptyDir'', JObj [])]\<rparr>,
      \<lparr>vName = ''credential-socket'', vConfigMap = None, Projected = None, vRest = [(''emptyDir'', JObj [])]\<rparr>,
      \<lparr>vName = ''workload-certs'', vConfigMap = None, Projected = None, vRest = [(''emptyDir'', JObj [])]\<rparr>,
      \<lparr>vName = ''istio-ca'', vConfigMap = Some ''istio-ca-root-cert'', Projected = None, vRest = []\<rparr>,
      \<lparr>vName = ''istio-token'', vConfigMap = None, Projected = Some [\<lparr>ServiceAccountToken = Some [(''audience'', JStr ''istio-ca''), (''expirationSeconds'', JNum ''43200''), (''path'', JStr ''istio-token'')], pjRest = []\<rparr>], vRest = []\<rparr>]"

definition managed :: pod_spec where
  "managed =
     \<lparr>AutomountServiceAccountToken = None, Volumes = managed_volumes, pSecurity = None,
      InitContainers = [prepare_volumes, management_init, istio_proxy, base_trust, trust_init], Containers = [], sRest = []\<rparr>"

end
