(* ===== verification/Enrollment.thy ===== *)
theory Enrollment
  imports Pods
begin

text \<open>
  \<^verbatim>\<open>enrollment/compose.go\<close>: the composition of a business Pod with the managed
  components.  \<open>protectBusiness\<close> refuses a Pod that could reach the Gateway's identity or
  volumes, \<open>enroll\<close> is the loop over the managed init containers, \<open>mount_trust\<close> gives a
  business container the prepared trust bundle, \<open>assemble\<close> is \<^verbatim>\<open>ComposePod\<close> up to the
  calls of the networking module, which is a parameter of \<open>ComposePod\<close>.
\<close>

section \<open>Options and errors\<close>

record 'n options =
  oRole :: string
  oImage :: string
  oImagePullPolicy :: string
  TrustImage :: string
  TrustPath :: string
  TrustMounts :: "(string \<times> string) list"
  DiscoveryAddress :: string
  ProxyConfig :: string
  ProxyEnv :: "env_var list"
  OriginTrustConfigMap :: string
  PolicyConfigMap :: string
  Network :: 'n

datatype enroll_error =
    BusinessRequired
  | UnsupportedEnrollRole string
  | InputsRequired
  | TrustInputsRequired
  | OwnedLabel string
  | OwnedAnnotation string
  | AutomountProhibited
  | OwnedVolume string
  | TokenProjection string
  | PodIdentity
  | OwnedContainer string
  | ContainerIdentity string
  | OwnedMount string
  | OwnedDevice string
  | ProhibitedEnv string
  | InvalidTrustMount string
  | TrustContainerMissing string
  | TrustMountCollision string
  | NetworkError string

definition cleanPath :: "string \<Rightarrow> bool" where
  "cleanPath p \<longleftrightarrow> prefix ''/'' p \<and> p \<noteq> ''/'' \<and> clean p = p"

section \<open>The business boundary\<close>

definition reservedID :: "int option \<Rightarrow> bool" where
  "reservedID v = (case v of None \<Rightarrow> False | Some n \<Rightarrow> n = 1337)"

definition gateway_key :: "string \<Rightarrow> bool" where
  "gateway_key key \<longleftrightarrow> sublist ''istio.io/'' key"

definition reserved_names :: "string list" where
  "reserved_names = [''origin-trust'', ''gateway-policy''] @ map vName (Volumes managed)"

definition managed_names :: "string list" where
  "managed_names = map cName (InitContainers managed)"

definition check_volume :: "volume \<Rightarrow> unit \<Rightarrow> (enroll_error, unit) result" where
  "check_volume v _ =
     refuse (vName v \<in> set reserved_names) (OwnedVolume (vName v))
    (case Projected v of
       None \<Rightarrow> Inr ()
     | Some sources \<Rightarrow> refuse (list_ex (\<lambda>source. ServiceAccountToken source \<noteq> None) sources) (TokenProjection (vName v)) (Inr ()))"

definition check_pod_identity :: "pod_security option \<Rightarrow> (enroll_error, unit) result" where
  "check_pod_identity ps =
     (case ps of
        None \<Rightarrow> Inr ()
      | Some s \<Rightarrow>
          refuse (reservedID (RunAsUser s) \<or> reservedID (RunAsGroup s) \<or> reservedID (FSGroup s) \<or> 1337 \<in> set (SupplementalGroups s))
            PodIdentity (Inr ()))"

definition container_identity :: "container \<Rightarrow> bool" where
  "container_identity c =
     (case cSecurity c of None \<Rightarrow> False | Some s \<Rightarrow> reservedID (cRunAsUser s) \<or> reservedID (cRunAsGroup s))"

definition check_container :: "container \<Rightarrow> unit \<Rightarrow> (enroll_error, unit) result" where
  "check_container c _ =
     refuse (cName c \<in> set managed_names) (OwnedContainer (cName c))
    (refuse (container_identity c) (ContainerIdentity (cName c))
    (bindR (foldR (\<lambda>m _. refuse (mName m \<in> set reserved_names) (OwnedMount (mName m)) (Inr ())) (VolumeMounts c) ()) (\<lambda>_.
     foldR (\<lambda>d _. refuse (d \<in> set reserved_names) (OwnedDevice d) (Inr ())) (VolumeDevices c) ())))"

definition protectBusiness :: "pod \<Rightarrow> (enroll_error, unit) result" where
  "protectBusiness p =
     bindR (foldR (\<lambda>(key, _) _. refuse (gateway_key key) (OwnedLabel key) (Inr ())) (Labels p) ()) (\<lambda>_.
     bindR (foldR (\<lambda>(key, _) _. refuse (gateway_key key) (OwnedAnnotation key) (Inr ())) (Annotations p) ()) (\<lambda>_.
     refuse (AutomountServiceAccountToken (Spec p) = Some True) AutomountProhibited
    (bindR (foldR check_volume (Volumes (Spec p)) ()) (\<lambda>_.
     bindR (check_pod_identity (pSecurity (Spec p))) (\<lambda>_.
     foldR check_container (InitContainers (Spec p) @ Containers (Spec p)) ())))))"

section \<open>The managed containers\<close>

record trusted_spec =
  tVolumes :: "volume list"
  tInit :: "container list"
  tContainers :: "container list"
  NetworkInitContainers :: "string list"

definition plain_env :: "string \<Rightarrow> string \<Rightarrow> env_var" where
  "plain_env n v = \<lparr>eName = n, eValue = v, eFrom = None\<rparr>"

definition field_env :: "string \<times> string \<Rightarrow> env_var" where
  "field_env f = \<lparr>eName = fst f, eValue = [], eFrom = Some (FieldRef (snd f))\<rparr>"

definition proxyEnv :: "'n options \<Rightarrow> env_var list" where
  "proxyEnv o' =
     [plain_env EnvRole (oRole o'), plain_env EnvProxyMode Istio,
      plain_env ''ISTIO_META_WORKLOAD_NAME'' (oRole o'), plain_env ''CA_ADDR'' (DiscoveryAddress o'),
      plain_env ''JWT_POLICY'' ''third-party-jwt'',
      plain_env ''PILOT_CERT_PROVIDER'' ''istiod'', plain_env ''ISTIO_META_CLUSTER_ID'' ''Kubernetes'',
      plain_env ''ISTIO_META_MESH_ID'' ''cluster.local'',
      plain_env ''TRUST_DOMAIN'' ''cluster.local'',
      plain_env ''ISTIO_META_INTERCEPTION_MODE'' (if oRole o' = Egress then ''NONE'' else ''REDIRECT''),
      plain_env ''PROXY_CONFIG'' (ProxyConfig o')] @
     map field_env
      [(''POD_NAME'', ''metadata.name''), (''POD_NAMESPACE'', ''metadata.namespace''),
       (''INSTANCE_IP'', ''status.podIP''), (''SERVICE_ACCOUNT'', ''spec.serviceAccountName'')]"

definition gateway_env :: "string \<Rightarrow> bool" where
  "gateway_env n \<longleftrightarrow> prefix ''GATEWAY_'' n \<or> n = ''OPA_CONFIG'' \<or> n = ''ENVOY_CONFIG''"

text \<open>The environment under construction; the code's set \<^verbatim>\<open>seen\<close> is its set of names.\<close>

definition add_env :: "env_var \<Rightarrow> env_var list \<Rightarrow> (enroll_error, env_var list) result" where
  "add_env e env =
     refuse (eName e \<in> set (map eName env) \<or> gateway_env (eName e))
       (ProhibitedEnv (eName e)) (Inr (env @ [e]))"

definition config_mount :: "string \<Rightarrow> string \<Rightarrow> volume_mount" where
  "config_mount n path = \<lparr>mName = n, MountPath = path, SubPath = [], ReadOnly = True, mRest = []\<rparr>"

definition config_volume :: "string \<Rightarrow> string \<Rightarrow> volume" where
  "config_volume n cm = \<lparr>vName = n, vConfigMap = Some cm, Projected = None, vRest = []\<rparr>"

definition add_policy :: "'n options \<Rightarrow> container \<times> trusted_spec \<Rightarrow> container \<times> trusted_spec" where
  "add_policy o' = (\<lambda>(c, t).
     if PolicyConfigMap o' = [] then (c, t)
     else (c\<lparr>Args := [''--policy'', ''/etc/gateway/policy/policy.rego''],
             VolumeMounts := VolumeMounts c @ [config_mount ''gateway-policy'' ''/etc/gateway/policy'']\<rparr>,
           t\<lparr>tVolumes := tVolumes t @ [config_volume ''gateway-policy'' (PolicyConfigMap o')]\<rparr>))"

definition add_origin :: "'n options \<Rightarrow> container \<times> trusted_spec \<Rightarrow> container \<times> trusted_spec" where
  "add_origin o' = (\<lambda>(c, t).
     if OriginTrustConfigMap o' = [] then (c, t)
     else (c\<lparr>VolumeMounts := VolumeMounts c @ [config_mount ''origin-trust'' ''/etc/gateway/origin'']\<rparr>,
           t\<lparr>tVolumes := tVolumes t @ [config_volume ''origin-trust'' (OriginTrustConfigMap o')]\<rparr>))"

definition with_image :: "'n options \<Rightarrow> container \<Rightarrow> container" where
  "with_image o' c =
     (let c = c\<lparr>cImage := oImage o', ImagePullPolicy := (if oImagePullPolicy o' = [] then ''IfNotPresent'' else oImagePullPolicy o')\<rparr>
      in if cName c = ''base-trust'' then c\<lparr>cImage := TrustImage o', Command := (Command c)[1 := TrustPath o']\<rparr> else c)"

text \<open>One iteration over a managed init container.\<close>

definition enroll :: "'n options \<Rightarrow> container \<Rightarrow> trusted_spec \<Rightarrow> (enroll_error, trusted_spec) result" where
  "enroll o' c t =
     (let c = with_image o' c in
      if oRole o' = Egress \<and> (cName c = ''base-trust'' \<or> cName c = ''trust-init'') then Inr t
      else if cName c = ''istio-proxy'' then
        (let (c, t) = add_policy o' (c, t) in
         bindR (foldR add_env (ProxyEnv o') (proxyEnv o')) (\<lambda>env.
         let (c, t) = add_origin o' (c\<lparr>Env := env\<rparr>, t) in
         Inr (if oRole o' = Egress
              then t\<lparr>tContainers := tContainers t @ [c\<lparr>RestartPolicy := None, StartupProbe := None\<rparr>]\<rparr>
              else t\<lparr>tInit := tInit t @ [c]\<rparr>)))
      else Inr (t\<lparr>tInit := tInit t @ [c]\<rparr>))"

section \<open>Application trust\<close>

fun index_func :: "('a \<Rightarrow> bool) \<Rightarrow> 'a list \<Rightarrow> nat option" where
  "index_func f [] = None"
| "index_func f (x # xs) = (if f x then Some 0 else map_option Suc (index_func f xs))"

definition trust_mount :: "string \<Rightarrow> volume_mount" where
  "trust_mount path = \<lparr>mName = ''bundle'', MountPath = path, SubPath = BundleFile, ReadOnly = True, mRest = []\<rparr>"

definition mount_trust :: "'n options \<Rightarrow> string \<times> string \<Rightarrow> container list \<Rightarrow> (enroll_error, container list) result" where
  "mount_trust o' = (\<lambda>(n, path) cs.
     refuse (oRole o' \<noteq> Workload \<or> \<not> cleanPath path) (InvalidTrustMount n)
    (case index_func (\<lambda>c. cName c = n) cs of
       None \<Rightarrow> Inl (TrustContainerMissing n)
     | Some i \<Rightarrow>
         refuse (list_ex (\<lambda>m. MountPath m = path) (VolumeMounts (cs ! i))) (TrustMountCollision n)
           (Inr (cs[i := (cs ! i)\<lparr>VolumeMounts := VolumeMounts (cs ! i) @ [trust_mount path]\<rparr>]))))"

section \<open>Composition\<close>

definition inject_annotations :: "'n options \<Rightarrow> (string \<times> string) list \<Rightarrow> (string \<times> string) list" where
  "inject_annotations o' a =
     (let a = AList.update ''sidecar.istio.io/inject'' ''false'' a in
      if oRole o' \<noteq> Workload then a
      else AList.update ''traffic.sidecar.istio.io/includeOutboundIPRanges'' ''*''
          (AList.update ''traffic.sidecar.istio.io/includeInboundPorts'' []
          (AList.update ''sidecar.istio.io/status''
            ''{\"initContainers\":[\"istio-proxy\"],\"containers\":[],\"volumes\":[],\"imagePullSecrets\":[],\"revision\":\"default\"}''
          (AList.delete ''sidecar.istio.io/inject'' a))))"

definition assemble :: "'n options \<Rightarrow> pod \<Rightarrow> (enroll_error, pod \<times> trusted_spec) result" where
  "assemble o' business =
     refuse (oRole o' \<noteq> Workload \<and> oRole o' \<noteq> Egress) (UnsupportedEnrollRole (oRole o'))
    (refuse (oImage o' = [] \<or> DiscoveryAddress o' = [] \<or> ProxyConfig o' = []) InputsRequired
    (refuse (oRole o' = Workload \<and> (TrustImage o' = [] \<or> \<not> cleanPath (TrustPath o'))) TrustInputsRequired
    (bindR (protectBusiness business) (\<lambda>_.
     bindR (foldR (enroll o') (InitContainers managed)
         \<lparr>tVolumes = Volumes managed, tInit = [], tContainers = [], NetworkInitContainers = [''management-init'']\<rparr>) (\<lambda>t.
     bindR (foldR (mount_trust o') (TrustMounts o') (Containers (Spec business))) (\<lambda>cs.
     let s = Spec business in
     Inr (business\<lparr>Annotations := inject_annotations o' (Annotations business),
            Spec := s\<lparr>AutomountServiceAccountToken := Some False,
              InitContainers := tInit t @ InitContainers s,
              Containers := cs @ tContainers t,
              Volumes := Volumes s @ tVolumes t\<rparr>\<rparr>, t)))))))"

text \<open>The networking module: the policy of a network, and the final Pod.\<close>

record ('n, 'p) networking =
  ExpandPolicy :: "'n \<Rightarrow> (string, 'p) result"
  ExpandPod :: "pod \<Rightarrow> 'n \<Rightarrow> trusted_spec \<Rightarrow> (string, pod) result"

definition network_error :: "(string, 'a) result \<Rightarrow> (enroll_error, 'a) result" where
  "network_error r = (case r of Inl e \<Rightarrow> Inl (NetworkError e) | Inr a \<Rightarrow> Inr a)"

definition ComposePod :: "('n, 'p) networking \<Rightarrow> pod option \<Rightarrow> 'n options \<Rightarrow> (enroll_error, pod \<times> 'p) result" where
  "ComposePod net business o' =
     (case business of
        None \<Rightarrow> Inl BusinessRequired
      | Some b \<Rightarrow>
          bindR (assemble o' b) (\<lambda>(p, t).
          bindR (network_error (ExpandPolicy net (Network o'))) (\<lambda>policy.
          bindR (network_error (ExpandPod net p (Network o') t)) (\<lambda>p. Inr (p, policy)))))"

end
