(* ===== verification/EnrollmentContract.thy ===== *)
theory EnrollmentContract
  imports Enrollment
begin

text \<open>
  What enrollment promises: which business Pods it accepts, what the managed part of an
  assembled Pod is, what a business container can reach in it, that the assembled Pod is
  well-formed, and that the environment written for the proxy is read back by
  \<^verbatim>\<open>config.Load\<close> as the configuration of the role.
\<close>

section \<open>The business boundary\<close>

lemma foldR_checks:
  assumes "\<And>x u. f x u = Inr () \<longleftrightarrow> P x"
  shows "foldR f xs () = Inr () \<longleftrightarrow> (\<forall>x\<in>set xs. P x)"
  by (induction xs) (auto simp: result_simps assms)

definition volume_ok :: "volume \<Rightarrow> bool" where
  "volume_ok v \<longleftrightarrow> vName v \<notin> set reserved_names \<and>
     (\<forall>sources. Projected v = Some sources \<longrightarrow> (\<forall>s\<in>set sources. ServiceAccountToken s = None))"

definition container_ok :: "container \<Rightarrow> bool" where
  "container_ok c \<longleftrightarrow> cName c \<notin> set managed_names \<and> \<not> container_identity c \<and>
     (\<forall>m\<in>set (VolumeMounts c). mName m \<notin> set reserved_names) \<and> (\<forall>d\<in>set (VolumeDevices c). d \<notin> set reserved_names)"

definition pod_identity_ok :: "pod_security \<Rightarrow> bool" where
  "pod_identity_ok s \<longleftrightarrow> 1337 \<notin> set_option (RunAsUser s) \<union> set_option (RunAsGroup s) \<union> set_option (FSGroup s) \<union> set (SupplementalGroups s)"

definition business_ok :: "pod \<Rightarrow> bool" where
  "business_ok p \<longleftrightarrow>
     (\<forall>k\<in>fst ` (set (Labels p) \<union> set (Annotations p)). \<not> gateway_key k) \<and>
     AutomountServiceAccountToken (Spec p) \<noteq> Some True \<and>
     (\<forall>v\<in>set (Volumes (Spec p)). volume_ok v) \<and>
     (\<forall>s. pSecurity (Spec p) = Some s \<longrightarrow> pod_identity_ok s) \<and>
     (\<forall>c\<in>set (InitContainers (Spec p) @ Containers (Spec p)). container_ok c)"

lemma reservedID_iff: "reservedID v \<longleftrightarrow> v = Some 1337"
  by (cases v) (auto simp: reservedID_def)

lemma check_volume_iff: "check_volume v u = Inr () \<longleftrightarrow> volume_ok v"
  by (auto simp: check_volume_def volume_ok_def result_simps list_ex_iff split: option.splits)

lemma check_pod_identity_iff: "check_pod_identity ps = Inr () \<longleftrightarrow> (\<forall>s. ps = Some s \<longrightarrow> pod_identity_ok s)"
  by (auto simp: check_pod_identity_def pod_identity_ok_def reservedID_iff result_simps elem_set split: option.splits)

lemma check_container_iff: "check_container c u = Inr () \<longleftrightarrow> container_ok c"
proof -
  have m: "foldR (\<lambda>m _. refuse (mName m \<in> set reserved_names) (OwnedMount (mName m)) (Inr ())) ms () = Inr () \<longleftrightarrow>
      (\<forall>m\<in>set ms. mName m \<notin> set reserved_names)" for ms
    by (rule foldR_checks) (simp add: result_simps)
  have d: "foldR (\<lambda>d _. refuse (d \<in> set reserved_names) (OwnedDevice d) (Inr ())) ds () = Inr () \<longleftrightarrow>
      (\<forall>d\<in>set ds. d \<notin> set reserved_names)" for ds
    by (rule foldR_checks) (simp add: result_simps)
  show ?thesis by (auto simp: check_container_def container_ok_def result_simps m d simp del: foldR.simps)
qed

lemma protectBusiness_ok: "protectBusiness p = Inr () \<longleftrightarrow> business_ok p"
proof -
  have keys: "foldR (\<lambda>(key, _) _. refuse (gateway_key key) (E key) (Inr ())) kvs () = Inr () \<longleftrightarrow>
      (\<forall>k\<in>fst ` set kvs. \<not> gateway_key k)" for kvs :: "(string \<times> string) list" and E
    by (subst foldR_checks [where P = "\<lambda>kv. \<not> gateway_key (fst kv)"]) (auto simp: result_simps split: prod.split)
  note volumes = foldR_checks [where f = check_volume and P = volume_ok, OF check_volume_iff]
  note containers = foldR_checks [where f = check_container and P = container_ok, OF check_container_iff]
  show ?thesis
    unfolding protectBusiness_def business_ok_def
    by (auto simp: result_simps keys volumes containers check_pod_identity_iff)
qed

section \<open>The managed part\<close>

definition policy_part :: "'n options \<Rightarrow> 'a \<Rightarrow> 'a list" where
  "policy_part o' x = (if PolicyConfigMap o' = [] then [] else [x])"

definition origin_part :: "'n options \<Rightarrow> 'a \<Rightarrow> 'a list" where
  "origin_part o' x = (if OriginTrustConfigMap o' = [] then [] else [x])"

definition proxy_container :: "'n options \<Rightarrow> env_var list \<Rightarrow> container" where
  "proxy_container o' env =
     (with_image o' istio_proxy)\<lparr>
        Args := concat (policy_part o' [''--policy'', ''/etc/gateway/policy/policy.rego'']), Env := env,
        VolumeMounts := VolumeMounts istio_proxy @ policy_part o' (config_mount ''gateway-policy'' ''/etc/gateway/policy'') @
          origin_part o' (config_mount ''origin-trust'' ''/etc/gateway/origin'')\<rparr>"

definition managed_part :: "'n options \<Rightarrow> env_var list \<Rightarrow> trusted_spec" where
  "managed_part o' env =
     \<lparr>tVolumes = managed_volumes @ policy_part o' (config_volume ''gateway-policy'' (PolicyConfigMap o')) @
        origin_part o' (config_volume ''origin-trust'' (OriginTrustConfigMap o')),
      tInit = [with_image o' prepare_volumes, with_image o' management_init] @
        (if oRole o' = Egress then [] else [proxy_container o' env, with_image o' base_trust, with_image o' trust_init]),
      tContainers = (if oRole o' = Egress then [(proxy_container o' env)\<lparr>RestartPolicy := None, StartupProbe := None\<rparr>] else []),
      NetworkInitContainers = [''management-init'']\<rparr>"

lemma managed_cNames [simp]:
  "cName prepare_volumes = ''prepare-volumes''" "cName management_init = ''management-init''"
  "cName istio_proxy = ''istio-proxy''" "cName base_trust = ''base-trust''" "cName trust_init = ''trust-init''"
  by (simp_all add: prepare_volumes_def management_init_def istio_proxy_def base_trust_def trust_init_def)

lemma with_image_fields [simp]:
  "cName (with_image o' c) = cName c" "VolumeMounts (with_image o' c) = VolumeMounts c" "Args (with_image o' c) = Args c"
  "cSecurity (with_image o' c) = cSecurity c" "Env (with_image o' c) = Env c" "VolumeDevices (with_image o' c) = VolumeDevices c"
  by (simp_all add: with_image_def Let_def)

lemma enroll_plain:
  assumes "cName c \<noteq> ''istio-proxy''"
  shows "enroll o' c t =
    Inr (if oRole o' = Egress \<and> (cName c = ''base-trust'' \<or> cName c = ''trust-init'') then t
         else t\<lparr>tInit := tInit t @ [with_image o' c]\<rparr>)"
  using assms by (simp add: enroll_def Let_def)

lemma enroll_proxy:
  "enroll o' istio_proxy t = bindR (foldR add_env (ProxyEnv o') (proxyEnv o')) (\<lambda>env. Inr
     (let t = t\<lparr>tVolumes := tVolumes t @ policy_part o' (config_volume ''gateway-policy'' (PolicyConfigMap o')) @
                  origin_part o' (config_volume ''origin-trust'' (OriginTrustConfigMap o'))\<rparr>
      in if oRole o' = Egress
         then t\<lparr>tContainers := tContainers t @ [(proxy_container o' env)\<lparr>RestartPolicy := None, StartupProbe := None\<rparr>]\<rparr>
         else t\<lparr>tInit := tInit t @ [proxy_container o' env]\<rparr>))"
proof -
  have unchanged: "(with_image o' istio_proxy)\<lparr>Args := [], Env := env, VolumeMounts := VolumeMounts istio_proxy\<rparr> =
      (with_image o' istio_proxy)\<lparr>Env := env\<rparr>"
    "(with_image o' istio_proxy)\<lparr>Args := [], Env := env, VolumeMounts := ms\<rparr> =
      (with_image o' istio_proxy)\<lparr>Env := env, VolumeMounts := ms\<rparr>"
    "(with_image o' istio_proxy)\<lparr>Args := a, VolumeMounts := ms, Env := env\<rparr> =
      (with_image o' istio_proxy)\<lparr>Args := a, Env := env, VolumeMounts := ms\<rparr>" for env ms a
    by (rule container.equality; simp add: istio_proxy_def)+
  show ?thesis
    by (cases "oRole o' = Egress"; cases "PolicyConfigMap o' = []"; cases "OriginTrustConfigMap o' = []")
      (simp_all add: enroll_def Let_def add_policy_def add_origin_def policy_part_def origin_part_def proxy_container_def unchanged)
qed

lemma enroll_managed:
  "foldR (enroll o') (InitContainers managed)
     \<lparr>tVolumes = Volumes managed, tInit = [], tContainers = [], NetworkInitContainers = [''management-init'']\<rparr> =
   bindR (foldR add_env (ProxyEnv o') (proxyEnv o')) (\<lambda>env. Inr (managed_part o' env))"
proof (cases "foldR add_env (ProxyEnv o') (proxyEnv o')")
  case (Inl e)
  then show ?thesis by (simp add: managed_def enroll_plain enroll_proxy)
next
  case (Inr env)
  then show ?thesis
    by (cases "oRole o' = Egress") (simp_all add: managed_def enroll_plain enroll_proxy managed_part_def Let_def)
qed

section \<open>Application trust\<close>

text \<open>A container that differs from another by read-only mounts of the trust bundle only.\<close>

definition trusting :: "container \<Rightarrow> container \<Rightarrow> bool" where
  "trusting c d \<longleftrightarrow> (\<exists>ms. d = c\<lparr>VolumeMounts := VolumeMounts c @ ms\<rparr> \<and>
     (\<forall>m\<in>set ms. m = trust_mount (MountPath m) \<and> cleanPath (MountPath m)))"

lemma trusting_refl: "trusting c c"
  unfolding trusting_def by (rule exI [of _ "[]"]) simp

lemma trusting_snoc: "trusting c d \<Longrightarrow> cleanPath path \<Longrightarrow> trusting c (d\<lparr>VolumeMounts := VolumeMounts d @ [trust_mount path]\<rparr>)"
  unfolding trusting_def
proof (elim exE conjE)
  fix ms assume "d = c\<lparr>VolumeMounts := VolumeMounts c @ ms\<rparr>" "\<forall>m\<in>set ms. m = trust_mount (MountPath m) \<and> cleanPath (MountPath m)" "cleanPath path"
  moreover have "MountPath (trust_mount path) = path" by (simp add: trust_mount_def)
  ultimately show "\<exists>ms. d\<lparr>VolumeMounts := VolumeMounts d @ [trust_mount path]\<rparr> = c\<lparr>VolumeMounts := VolumeMounts c @ ms\<rparr> \<and>
      (\<forall>m\<in>set ms. m = trust_mount (MountPath m) \<and> cleanPath (MountPath m))"
    by (intro exI [of _ "ms @ [trust_mount path]"]) auto
qed

lemma index_func_Some: "index_func f xs = Some i \<Longrightarrow> i < length xs \<and> f (xs ! i)"
  by (induction xs arbitrary: i) (auto split: if_splits)

lemma index_func_None: "index_func f xs = None \<longleftrightarrow> (\<forall>x\<in>set xs. \<not> f x)"
  by (induction xs) auto

lemma mount_trust_trusting:
  assumes "mount_trust o' x ds = Inr ds'" "list_all2 trusting cs ds"
  shows "list_all2 trusting cs ds'"
proof -
  obtain n path where x: "x = (n, path)" by fastforce
  obtain i where i: "index_func (\<lambda>c. cName c = n) ds = Some i" "cleanPath path"
      "ds' = ds[i := (ds ! i)\<lparr>VolumeMounts := VolumeMounts (ds ! i) @ [trust_mount path]\<rparr>]"
    using assms(1) unfolding x mount_trust_def by (auto simp: result_simps split: option.splits)
  have il: "i < length ds" using index_func_Some [OF i(1)] by simp
  then have "trusting (cs ! i) (ds ! i)" "length cs = length ds"
    using assms(2) by (auto simp: list_all2_conv_all_nth)
  then show ?thesis
    using assms(2) i trusting_snoc il unfolding i(3) by (auto simp: list_all2_conv_all_nth nth_list_update)
qed

lemma mount_trusts_trusting:
  assumes "foldR (mount_trust o') xs cs = Inr ds"
  shows "list_all2 trusting cs ds"
  using assms
proof (rule foldR_invariant)
  show "list_all2 trusting cs cs" by (simp add: list_all2_conv_all_nth trusting_refl)
qed (rule mount_trust_trusting)

lemma mount_trusts_workload:
  assumes "foldR (mount_trust o') xs cs = Inr ds" "xs \<noteq> []"
  shows "oRole o' = Workload"
  using assms by (cases xs) (auto simp: mount_trust_def result_simps split: prod.splits)

section \<open>An assembled Pod\<close>

lemma assemble_Inr:
  assumes "assemble o' b = Inr (p, t)"
  obtains env cs where
    "oRole o' = Workload \<or> oRole o' = Egress" "business_ok b"
    "foldR add_env (ProxyEnv o') (proxyEnv o') = Inr env" "t = managed_part o' env"
    "foldR (mount_trust o') (TrustMounts o') (Containers (Spec b)) = Inr cs"
    "p = b\<lparr>Annotations := inject_annotations o' (Annotations b),
       Spec := (Spec b)\<lparr>AutomountServiceAccountToken := Some False,
         InitContainers := tInit t @ InitContainers (Spec b), Containers := cs @ tContainers t,
         Volumes := Volumes (Spec b) @ tVolumes t\<rparr>\<rparr>"
proof -
  from assms have "oRole o' = Workload \<or> oRole o' = Egress" "protectBusiness b = Inr ()"
    by (auto simp: assemble_def result_simps Let_def simp del: foldR.simps)
  moreover from assms obtain env cs where
    "foldR add_env (ProxyEnv o') (proxyEnv o') = Inr env" "t = managed_part o' env"
    "foldR (mount_trust o') (TrustMounts o') (Containers (Spec b)) = Inr cs"
    "p = b\<lparr>Annotations := inject_annotations o' (Annotations b),
       Spec := (Spec b)\<lparr>AutomountServiceAccountToken := Some False,
         InitContainers := tInit t @ InitContainers (Spec b), Containers := cs @ tContainers t,
         Volumes := Volumes (Spec b) @ tVolumes t\<rparr>\<rparr>"
    unfolding assemble_def enroll_managed by (auto simp: result_simps Let_def simp del: foldR.simps)
  ultimately show thesis using that protectBusiness_ok by blast
qed

section \<open>Properties\<close>



text \<open>
  The startup order of an assembled Pod: volumes and network first, then the proxy, then
  the trust bundle, and only then the business init containers; at an egress the proxy is
  the last regular container, without the startup settings of an init container.
\<close>

theorem enrolled_startup_order:
  assumes "assemble o' b = Inr (p, t)"
  shows "map cName (InitContainers (Spec p)) = [''prepare-volumes'', ''management-init''] @
      (if oRole o' = Egress then [] else [''istio-proxy'', ''base-trust'', ''trust-init'']) @ map cName (InitContainers (Spec b)) \<and>
    map cName (tContainers t) = (if oRole o' = Egress then [''istio-proxy''] else []) \<and>
    NetworkInitContainers t = [''management-init''] \<and>
    (\<forall>c\<in>set (tContainers t). RestartPolicy c = None \<and> StartupProbe c = None) \<and>
    (\<forall>c\<in>set (tInit t @ tContainers t). cImage c = (if cName c = ''base-trust'' then TrustImage o' else oImage o'))"
proof -
  obtain env cs where t: "t = managed_part o' env"
    and p: "p = b\<lparr>Annotations := inject_annotations o' (Annotations b),
       Spec := (Spec b)\<lparr>AutomountServiceAccountToken := Some False,
         InitContainers := tInit t @ InitContainers (Spec b), Containers := cs @ tContainers t,
         Volumes := Volumes (Spec b) @ tVolumes t\<rparr>\<rparr>"
    using assms by (rule assemble_Inr)
  have "cImage (with_image o' c) = (if cName c = ''base-trust'' then TrustImage o' else oImage o')" for c
    by (simp add: with_image_def Let_def)
  then show ?thesis unfolding p t by (simp add: managed_part_def proxy_container_def)
qed

section \<open>The proxy's environment\<close>

text \<open>
  The environment of a container for \<^verbatim>\<open>os.LookupEnv\<close>: the last variable of a name, with
  the sources resolved by the kubelet.
\<close>

definition env_lookup :: "(env_source \<Rightarrow> string) \<Rightarrow> env_var list \<Rightarrow> lookup" where
  "env_lookup resolve env n =
     (case filter (\<lambda>e. eName e = n) env of
        [] \<Rightarrow> ([], False)
      | es \<Rightarrow> (let e = last es in case eFrom e of None \<Rightarrow> eValue e | Some s \<Rightarrow> resolve s, True))"

lemma add_env_all:
  assumes "foldR add_env xs env0 = Inr env"
  shows "env = env0 @ xs \<and> (\<forall>e\<in>set xs. \<not> gateway_env (eName e)) \<and>
    (distinct (map eName env0) \<longrightarrow> distinct (map eName env))"
  using assms
proof (induction xs arbitrary: env0)
  case (Cons x xs)
  then obtain env1 where 1: "add_env x env0 = Inr env1" "foldR add_env xs env1 = Inr env" by (auto simp: result_simps)
  from 1(1) have e: "env1 = env0 @ [x]" by (simp add: add_env_def result_simps)
  from 1(1) have "eName x \<notin> set (map eName env0)" "\<not> gateway_env (eName x)"
    by (auto simp: add_env_def result_simps)
  then have d: "distinct (map eName env0) \<Longrightarrow> distinct (map eName env1)" and g: "\<not> gateway_env (eName x)" by (simp_all add: e)
  note ih = Cons.IH [OF 1(2)]
  show ?case
  proof (intro conjI)
    show "env = env0 @ x # xs" using ih by (simp add: e)
    show "\<forall>y\<in>set (x # xs). \<not> gateway_env (eName y)" using ih g by simp
    show "distinct (map eName env0) \<longrightarrow> distinct (map eName env)" using ih d by blast
  qed
qed simp

lemma env_lookup_append:
  assumes "\<forall>e\<in>set xs. eName e \<noteq> n"
  shows "env_lookup resolve (env @ xs) n = env_lookup resolve env n"
proof -
  have "filter (\<lambda>e. eName e = n) xs = []" using assms by (simp add: filter_empty_conv)
  then show ?thesis by (simp add: env_lookup_def)
qed

lemma env_lookup_snoc: "env_lookup resolve (env @ [plain_env n v]) n = (v, True)"
  by (cases "filter (\<lambda>e. eName e = n) env") (simp_all add: env_lookup_def plain_env_def)

lemma enrolled_lookups:
  assumes "foldR add_env (ProxyEnv o') (proxyEnv o') = Inr env"
  shows "env_lookup r env ''GATEWAY_WORKLOAD_CONFIG'' = ([], False)"
    "env_lookup r env EnvRole = (oRole o', True)" "env_lookup r env EnvProxyMode = (Istio, True)"
    "env_lookup r env EnvIdentityProvider = ([], False)" "env_lookup r env EnvOPAConfig = ([], False)"
    "env_lookup r env EnvEnvoyConfig = ([], False)" "env_lookup r env EnvStateDir = ([], False)"
    "env_lookup r env EnvPublicDir = ([], False)" "env_lookup r env EnvRuntimeDir = ([], False)"
proof -
  note all = add_env_all [OF assms]
  have own: "env_lookup r env n = env_lookup r (proxyEnv o') n"
    if "gateway_env n" for n
  proof -
    have "\<forall>e\<in>set (ProxyEnv o'). eName e \<noteq> n" using all that by blast
    then show ?thesis using env_lookup_append [of "ProxyEnv o'" n r "proxyEnv o'"] all by simp
  qed
  note d = EnvRole_def EnvProxyMode_def EnvIdentityProvider_def EnvOPAConfig_def EnvEnvoyConfig_def
    EnvStateDir_def EnvPublicDir_def EnvRuntimeDir_def
  note e = env_lookup_def proxyEnv_def plain_env_def field_env_def
  show "env_lookup r env ''GATEWAY_WORKLOAD_CONFIG'' = ([], False)" by (subst own) (simp_all add: e d gateway_env_def)
  show "env_lookup r env EnvRole = (oRole o', True)" by (subst own) (simp_all add: e d gateway_env_def)
  show "env_lookup r env EnvProxyMode = (Istio, True)" by (subst own) (simp_all add: e d gateway_env_def)
  show "env_lookup r env EnvIdentityProvider = ([], False)" by (subst own) (simp_all add: e d gateway_env_def)
  show "env_lookup r env EnvOPAConfig = ([], False)" by (subst own) (simp_all add: e d gateway_env_def)
  show "env_lookup r env EnvEnvoyConfig = ([], False)" by (subst own) (simp_all add: e d gateway_env_def)
  show "env_lookup r env EnvStateDir = ([], False)" by (subst own) (simp_all add: e d gateway_env_def)
  show "env_lookup r env EnvPublicDir = ([], False)" by (subst own) (simp_all add: e d gateway_env_def)
  show "env_lookup r env EnvRuntimeDir = ([], False)" by (subst own) (simp_all add: e d gateway_env_def)
qed

definition enrolled_config :: "string \<Rightarrow> tracing option \<Rightarrow> config" where
  "enrolled_config role tr = Defaults\<lparr>Role := role, OPAConfig := ''/etc/gateway/opa/'' @ role @ ''.yaml'', Tracing := tr\<rparr>"

lemma Validate_tracing: "Validate (c\<lparr>Tracing := tr\<rparr>) = Validate c"
  by (simp add: Validate_def check_public_def [abs_def])

lemma enrolled_config_valid:
  assumes "role = Workload \<or> role = Egress"
  shows "Validate (enrolled_config role tr) = Inr ()"
proof -
  have "Validate (enrolled_config Workload None) = Inr ()" "Validate (enrolled_config Egress None) = Inr ()"
    by code_simp+
  moreover have "enrolled_config role tr = (enrolled_config role None)\<lparr>Tracing := tr\<rparr>" by (simp add: enrolled_config_def)
  ultimately show ?thesis using assms Validate_tracing [of tr "enrolled_config role None"] by (elim disjE) simp_all
qed

text \<open>An environment that sets role and mode, and of the other variables at most the OPA configuration.\<close>

lemma Load_enrolled:
  assumes "l ''GATEWAY_WORKLOAD_CONFIG'' = ([], False)" "l EnvRole = (role, True)" "l EnvProxyMode = (Istio, True)"
    "l EnvIdentityProvider = ([], False)" "l EnvEnvoyConfig = ([], False)" "l EnvStateDir = ([], False)"
    "l EnvPublicDir = ([], False)" "l EnvRuntimeDir = ([], False)"
    and opa: "env_value l EnvOPAConfig (''/etc/gateway/opa/'' @ role @ ''.yaml'') = Inr f"
    and ok: "role \<noteq> []" "\<And>tr. Validate ((enrolled_config role tr)\<lparr>OPAConfig := f\<rparr>) = Inr ()"
  shows "Load lib l = (case LoadTracing lib l of
      Inl e \<Rightarrow> Inl (TracingError e) | Inr tr \<Rightarrow> Inr ((enrolled_config role tr)\<lparr>OPAConfig := f\<rparr>))"
proof (cases "LoadTracing lib l")
  case (Inl e)
  then show ?thesis using assms by (simp add: Load_def Let_def env_value_def Istio_def)
next
  case (Inr tr)
  have "(enrolled_config role tr)\<lparr>OPAConfig := f\<rparr> = Defaults\<lparr>Role := role, ProxyMode := Istio, IdentityProvider := IdentityProvider Defaults,
      OPAConfig := f, EnvoyConfig := [], StateDir := StateDir Defaults, PublicDir := PublicDir Defaults,
      RuntimeDir := RuntimeDir Defaults, Tracing := tr\<rparr>"
    by (simp add: enrolled_config_def Defaults_def)
  then show ?thesis
    using ok(2) [of tr] Inr assms by (simp add: Load_def Let_def env_value_def Istio_def)
qed

lemma enrolled_loads:
  assumes "foldR add_env (ProxyEnv o') (proxyEnv o') = Inr env" "oRole o' = Workload \<or> oRole o' = Egress"
  shows "Load lib (env_lookup r env) = (case LoadTracing lib (env_lookup r env) of
      Inl e \<Rightarrow> Inl (TracingError e) | Inr tr \<Rightarrow> Inr (enrolled_config (oRole o') tr))"
proof -
  note lookups = enrolled_lookups [OF assms(1), of r]
  have own: "(enrolled_config (oRole o') tr)\<lparr>OPAConfig := ''/etc/gateway/opa/'' @ oRole o' @ ''.yaml''\<rparr> = enrolled_config (oRole o') tr" for tr
    by (simp add: enrolled_config_def Defaults_def)
  have n: "oRole o' \<noteq> []" using assms(2) by (auto simp: Workload_def Egress_def)
  show ?thesis
    using lookups(5) Load_enrolled [OF lookups(1-4,6-9) _ n, of "''/etc/gateway/opa/'' @ oRole o' @ ''.yaml''", unfolded own, OF _ enrolled_config_valid [OF assms(2)]]
    by (simp add: env_value_def)
qed

text \<open>
  C19: what enrollment writes, the daemon reads back: the proxy container's environment loads
  as the configuration of the enrolled role, in Istio mode, over the default directories,
  with no variable of the caller able to change it but the tracing settings; and those
  directories are where the container mounts the Gateway's state, runtime and public volumes.
\<close>

theorem enrolled_environment_loads:
  assumes "assemble o' b = Inr (p, t)" "c \<in> set (tInit t @ tContainers t)" "cName c = ''istio-proxy''"
  shows "Load lib (env_lookup r (Env c)) =
      (case LoadTracing lib (env_lookup r (Env c)) of
         Inl e \<Rightarrow> Inl (TracingError e)
       | Inr tr \<Rightarrow> Inr (enrolled_config (oRole o') tr)) \<and>
    distinct (map eName (Env c)) \<and>
    {managed_mount ''state'' (StateDir Defaults) False, managed_mount ''runtime'' (RuntimeDir Defaults) False,
     managed_mount ''public'' (PublicDir Defaults) False} \<subseteq> set (VolumeMounts c)"
proof -
  obtain env cs where role: "oRole o' = Workload \<or> oRole o' = Egress"
    and env: "foldR add_env (ProxyEnv o') (proxyEnv o') = Inr env" and t: "t = managed_part o' env"
    using assms(1) by (rule assemble_Inr)
  have c: "Env c = env" "set (VolumeMounts istio_proxy) \<subseteq> set (VolumeMounts c)"
    using assms(2,3) unfolding t by (auto simp: managed_part_def proxy_container_def split: if_splits)
  have "distinct (map eName (proxyEnv o'))"
    by (simp add: proxyEnv_def plain_env_def field_env_def EnvRole_def EnvProxyMode_def)
  then have d: "distinct (map eName env)" using add_env_all [OF env] by blast
  have m: "{managed_mount ''state'' (StateDir Defaults) False, managed_mount ''runtime'' (RuntimeDir Defaults) False,
     managed_mount ''public'' (PublicDir Defaults) False} \<subseteq> set (VolumeMounts istio_proxy)"
    by (simp add: istio_proxy_def Defaults_def DefaultStateDir_def DefaultRuntimeDir_def DefaultPublicDir_def)
  note l = enrolled_loads [OF env role, of lib r]
  show ?thesis unfolding c(1) using l d m c(2) by blast
qed

section \<open>Well-formed Pods\<close>

text \<open>
  The conditions of the Kubernetes API that concern what enrollment adds: names identify
  volumes and containers, a container's mounts have different paths and declared volumes.
\<close>

definition container_wf :: "string set \<Rightarrow> container \<Rightarrow> bool" where
  "container_wf vols c \<longleftrightarrow> distinct (map MountPath (VolumeMounts c)) \<and> mName ` set (VolumeMounts c) \<subseteq> vols"

definition spec_wf :: "pod_spec \<Rightarrow> bool" where
  "spec_wf s \<longleftrightarrow> distinct (map vName (Volumes s)) \<and> distinct (map cName (InitContainers s @ Containers s)) \<and>
     (\<forall>c\<in>set (InitContainers s @ Containers s). container_wf (vName ` set (Volumes s)) c)"

lemma container_wf_mono: "container_wf V c \<Longrightarrow> V \<subseteq> W \<Longrightarrow> container_wf W c"
  by (auto simp: container_wf_def)

lemma mount_trust_wf:
  assumes "mount_trust o' x cs = Inr ds" "\<forall>c\<in>set cs. container_wf V c" "''bundle'' \<in> V"
  shows "\<forall>d\<in>set ds. container_wf V d"
proof -
  obtain n path where x: "x = (n, path)" by fastforce
  obtain i where i: "index_func (\<lambda>c. cName c = n) cs = Some i" "\<not> list_ex (\<lambda>m. MountPath m = path) (VolumeMounts (cs ! i))"
      "ds = cs[i := (cs ! i)\<lparr>VolumeMounts := VolumeMounts (cs ! i) @ [trust_mount path]\<rparr>]"
    using assms(1) unfolding x mount_trust_def by (auto simp: result_simps split: option.splits)
  have "i < length cs" using index_func_Some [OF i(1)] by simp
  then have "container_wf V (cs ! i)" using assms(2) by simp
  then have "container_wf V ((cs ! i)\<lparr>VolumeMounts := VolumeMounts (cs ! i) @ [trust_mount path]\<rparr>)"
    using i(2) assms(3) by (auto simp: container_wf_def trust_mount_def list_ex_iff)
  then show ?thesis using assms(2) unfolding i(3) by (auto dest!: set_update_subset_insert [THEN subsetD])
qed

lemma managed_part_volumes:
  "map vName (tVolumes (managed_part o' env)) = map vName managed_volumes @ policy_part o' ''gateway-policy'' @ origin_part o' ''origin-trust''"
  by (simp add: managed_part_def policy_part_def origin_part_def config_volume_def)

lemma managed_volume_names: "map vName managed_volumes =
    [''state'', ''runtime'', ''public'', ''bundle'', ''istio-data'', ''workload-socket'', ''credential-socket'', ''workload-certs'', ''istio-ca'', ''istio-token'']"
  by (simp add: managed_volumes_def)

lemma managed_part_reserved: "vName ` set (tVolumes (managed_part o' env)) \<subseteq> set reserved_names"
proof -
  have "vName ` set (tVolumes (managed_part o' env)) = set (map vName (tVolumes (managed_part o' env)))" by simp
  then show ?thesis
    unfolding managed_part_volumes reserved_names_def by (auto simp: managed_def policy_part_def origin_part_def)
qed

lemma managed_part_distinct: "distinct (map vName (tVolumes (managed_part o' env)))"
  unfolding managed_part_volumes managed_volume_names by (simp add: policy_part_def origin_part_def)

lemma managed_part_names: "set (map cName (tInit (managed_part o' env) @ tContainers (managed_part o' env))) \<subseteq> set managed_names"
    "distinct (map cName (tInit (managed_part o' env) @ tContainers (managed_part o' env)))"
  by (simp_all add: managed_part_def proxy_container_def managed_names_def managed_def)

lemma managed_part_wf:
  assumes "c \<in> set (tInit (managed_part o' env) @ tContainers (managed_part o' env))"
  shows "container_wf (vName ` set (tVolumes (managed_part o' env))) c"
proof -
  have v: "vName ` set (tVolumes (managed_part o' env)) =
      set (map vName managed_volumes) \<union> set (policy_part o' ''gateway-policy'') \<union> set (origin_part o' ''origin-trust'')"
    using arg_cong [OF managed_part_volumes, of set] by (simp add: Un_assoc)
  have m: "container_wf (set (map vName managed_volumes)) prepare_volumes" "container_wf (set (map vName managed_volumes)) management_init"
    "container_wf (set (map vName managed_volumes)) base_trust" "container_wf (set (map vName managed_volumes)) trust_init"
    unfolding managed_volume_names
    by (simp_all add: container_wf_def managed_mount_def prepare_volumes_def management_init_def base_trust_def trust_init_def)
  have plain: "container_wf (set (map vName managed_volumes)) (with_image o' c)"
    if "c \<in> {prepare_volumes, management_init, base_trust, trust_init}" for c
  proof -
    have "container_wf (set (map vName managed_volumes)) c" using that m by (elim insertE emptyE) (simp_all only:)
    then show ?thesis unfolding container_wf_def with_image_fields .
  qed
  have proxy: "container_wf (vName ` set (tVolumes (managed_part o' env))) (proxy_container o' env)"
    unfolding v managed_volume_names
    by (simp add: container_wf_def proxy_container_def istio_proxy_def managed_mount_def policy_part_def origin_part_def config_mount_def)
  have "set (map vName managed_volumes) \<subseteq> vName ` set (tVolumes (managed_part o' env))" unfolding v by blast
  note plain = container_wf_mono [OF plain this]
  have "c \<in> {with_image o' d | d. d \<in> {prepare_volumes, management_init, base_trust, trust_init}} \<or>
      c = proxy_container o' env \<or> c = (proxy_container o' env)\<lparr>RestartPolicy := None, StartupProbe := None\<rparr>"
    using assms by (auto simp: managed_part_def split: if_splits)
  moreover have "container_wf (vName ` set (tVolumes (managed_part o' env))) ((proxy_container o' env)\<lparr>RestartPolicy := None, StartupProbe := None\<rparr>)"
    using proxy by (simp add: container_wf_def)
  ultimately show ?thesis using plain proxy by blast
qed

lemma trusting_names: "list_all2 trusting cs ds \<Longrightarrow> map cName ds = map cName cs"
  by (auto simp: list_all2_conv_all_nth trusting_def intro!: nth_equalityI)

text \<open>
  C20: enrollment keeps a Pod well-formed: added volumes and containers clash with no name,
  every mount, the added ones included, refers to a declared volume, and no container gets
  two mounts at one path.
\<close>

theorem enrolled_pod_is_well_formed:
  assumes "assemble o' b = Inr (p, t)" "spec_wf (Spec b)"
  shows "spec_wf (Spec p)"
proof -
  obtain env cs where ok: "business_ok b" and t: "t = managed_part o' env"
    and cs: "foldR (mount_trust o') (TrustMounts o') (Containers (Spec b)) = Inr cs"
    and p: "p = b\<lparr>Annotations := inject_annotations o' (Annotations b),
       Spec := (Spec b)\<lparr>AutomountServiceAccountToken := Some False,
         InitContainers := tInit t @ InitContainers (Spec b), Containers := cs @ tContainers t,
         Volumes := Volumes (Spec b) @ tVolumes t\<rparr>\<rparr>"
    using assms(1) by (rule assemble_Inr)
  let ?V = "vName ` set (Volumes (Spec b) @ tVolumes t)"
  have b: "distinct (map vName (Volumes (Spec b)))" "distinct (map cName (InitContainers (Spec b) @ Containers (Spec b)))"
    "\<forall>c\<in>set (InitContainers (Spec b) @ Containers (Spec b)). container_wf ?V c"
    using assms(2) container_wf_mono [of "vName ` set (Volumes (Spec b))" _ ?V] by (auto simp: spec_wf_def)
  have names: "map cName cs = map cName (Containers (Spec b))" using trusting_names [OF mount_trusts_trusting [OF cs]] .
  have own: "set (map cName (InitContainers (Spec b) @ Containers (Spec b))) \<inter> set managed_names = {}"
    "vName ` set (Volumes (Spec b)) \<inter> set reserved_names = {}"
    using ok by (auto simp: business_ok_def container_ok_def volume_ok_def)
  have "vName ` set (Volumes (Spec b)) \<inter> vName ` set (tVolumes t) = {}"
    using own(2) managed_part_reserved [of o' env] unfolding t by blast
  then have volumes: "distinct (map vName (Volumes (Spec b) @ tVolumes t))"
    using b(1) managed_part_distinct [of o' env] unfolding t map_append distinct_append set_map by blast
  have "distinct (map cName (tInit t @ tContainers t) @ map cName (InitContainers (Spec b) @ Containers (Spec b)))"
    unfolding distinct_append t using b(2) managed_part_names [of o' env] own(1) by blast
  then have containers: "distinct (map cName ((tInit t @ InitContainers (Spec b)) @ (cs @ tContainers t)))"
    unfolding map_append names distinct_append set_append by blast
  have "''bundle'' \<in> set (map vName (tVolumes t))" unfolding t managed_part_volumes managed_volume_names by simp
  then have declared: "''bundle'' \<in> ?V" by auto
  have "\<forall>c\<in>set cs. container_wf ?V c"
    by (rule foldR_invariant [OF cs], use b(3) in force, rule mount_trust_wf [OF _ _ declared])
  moreover have "\<forall>c\<in>set (tInit t @ tContainers t). container_wf ?V c"
    using managed_part_wf [of _ o' env, folded t] container_wf_mono [of "vName ` set (tVolumes t)" _ ?V] by auto
  ultimately have "\<forall>c\<in>set ((tInit t @ InitContainers (Spec b)) @ (cs @ tContainers t)). container_wf ?V c"
    using b(3) by auto
  then show ?thesis using volumes containers unfolding p spec_wf_def by simp
qed

section \<open>A concrete enrollment\<close>

definition sample_container :: container where
  "sample_container = \<lparr>cName = ''app'', cImage = ''app:1'', ImagePullPolicy = [], Command = [], Args = [], Env = [],
     VolumeMounts = [managed_mount ''data'' ''/data'' False], VolumeDevices = [], RestartPolicy = None, StartupProbe = None,
     cSecurity = Some \<lparr>cRunAsUser = Some 1000, cRunAsGroup = None, csRest = []\<rparr>, cRest = []\<rparr>"

definition sample_pod :: pod where
  "sample_pod = \<lparr>Labels = [(''app'', ''a'')], Annotations = [], Spec = \<lparr>AutomountServiceAccountToken = None,
     Volumes = [\<lparr>vName = ''data'', vConfigMap = None, Projected = None, vRest = [(''emptyDir'', JObj [])]\<rparr>],
     pSecurity = None, InitContainers = [], Containers = [sample_container], sRest = []\<rparr>, podRest = []\<rparr>"

definition sample_options :: "unit options" where
  "sample_options = \<lparr>oRole = Workload, oImage = ''gateway:1'', oImagePullPolicy = [], TrustImage = ''app:1'', TrustPath = ''/etc/ca.pem'',
     TrustMounts = [(''app'', ''/etc/ca.pem'')], DiscoveryAddress = ''istiod:15012'', ProxyConfig = ''{}'', ProxyEnv = [plain_env ''TZ'' ''UTC''],
     OriginTrustConfigMap = [], PolicyConfigMap = ''policy'', Network = ()\<rparr>"

definition sample_assembled :: "pod \<times> trusted_spec" where
  "sample_assembled = projr (assemble sample_options sample_pod)"

lemma sample_assembles: "assemble sample_options sample_pod = Inr (fst sample_assembled, snd sample_assembled)"
proof -
  have "ok (assemble sample_options sample_pod)" by code_simp
  then show ?thesis by (auto simp: ok_iff sample_assembled_def)
qed

theorem enrolled_pod_is_well_formed_witness: "spec_wf (Spec (fst sample_assembled))"
proof -
  have "spec_wf (Spec sample_pod)" by code_simp
  then show ?thesis by (rule enrolled_pod_is_well_formed [OF sample_assembles])
qed

theorem enrolled_startup_order_witness: "map cName (InitContainers (Spec (fst sample_assembled))) =
    [''prepare-volumes'', ''management-init'', ''istio-proxy'', ''base-trust'', ''trust-init'']"
  using enrolled_startup_order [OF sample_assembles] by (simp add: sample_options_def sample_pod_def Workload_def Egress_def)


lemma sample_proxy: "tInit (snd sample_assembled) ! 2 \<in> set (tInit (snd sample_assembled) @ tContainers (snd sample_assembled))"
    "cName (tInit (snd sample_assembled) ! 2) = ''istio-proxy''"
  by code_simp+

lemma sample_tracing: "LoadTracing plain_lib (env_lookup (\<lambda>_. ''x'') (Env (tInit (snd sample_assembled) ! 2))) = Inr None"
  by code_simp

lemma sample_role: "oRole sample_options = Workload"
  by (simp add: sample_options_def)

theorem enrolled_environment_loads_witness:
  "Load plain_lib (env_lookup (\<lambda>_. ''x'') (Env (tInit (snd sample_assembled) ! 2))) = Inr (enrolled_config Workload None)"
  using enrolled_environment_loads [OF sample_assembles sample_proxy, of plain_lib "\<lambda>_. ''x''"] by (simp add: sample_tracing sample_role)

end
