(* ===== verification/SharedPolicy.thy ===== *)
theory SharedPolicy
  imports OpaConfig Enrollment
begin

text \<open>
  \<^verbatim>\<open>cmd/gateway-e2e-compose/shared.go\<close>: the shared policy artifacts of the kind fixture.
  The types of the policy module are modelled by the fields the code fills;
  \<open>sharedPolicy\<close> builds the policy of a role, \<open>sharedArtifacts\<close> the config map with the
  OPA configuration, the descriptor views and the execution bundle, \<open>attachShared\<close> mounts it
  into a composed Pod.  The record \<open>fixture_lib\<close> collects the parameters: protobuf encoding,
  SHA-256, the bundle builder and the JSON form of the policy module's types.
\<close>

section \<open>Policy types\<close>

datatype host_match = Exact | DomainSuffix
datatype source_kind = HeaderSource | QuerySource | PayloadSource | GRPCMetadataSource
datatype operator = InValues | NotInValues | ExistsValue
datatype payload_format = JSONFormat | ProtobufFormat

record host_matcher =
  hmType :: host_match
  hmValue :: string

record requirement =
  rqSource :: source_kind
  rqName :: "string option"
  rqPointer :: "string option"
  rqOperator :: operator
  rqValues :: "string list"

record artifact_ref =
  refURL :: string
  refDigest :: string

record decoder =
  dcFormat :: payload_format
  dcDescriptorSet :: "artifact_ref option"

datatype route = HTTPRoute "string list" "string list" | GRPCRoute string "string list" \<comment> \<open>methods and paths; service and methods\<close>

record policy_match =
  pmHosts :: "host_matcher list"
  pmRoute :: route

record policy_constraint =
  pcName :: string
  pcMatch :: policy_match
  pcDecode :: "decoder option"
  pcRequire :: "requirement list"

record workload_policy =
  HostDenylist :: "host_matcher list"
  RequestConstraints :: "policy_constraint list"

section \<open>The policy of a role\<close>

definition sharedDirectory :: string where "sharedDirectory = ''/etc/gateway/shared''"

definition requires :: "source_kind \<Rightarrow> string \<Rightarrow> operator \<Rightarrow> string list \<Rightarrow> requirement" where
  "requires s n op vs = \<lparr>rqSource = s, rqName = Some n, rqPointer = None, rqOperator = op, rqValues = vs\<rparr>"

definition payload :: "string \<Rightarrow> operator \<Rightarrow> string list \<Rightarrow> requirement" where
  "payload ptr op vs = \<lparr>rqSource = PayloadSource, rqName = None, rqPointer = Some ptr, rqOperator = op, rqValues = vs\<rparr>"

definition policy_values :: "string \<Rightarrow> string list" where
  "policy_values role = (if role = Egress then [''safe''] else [''safe'', ''egress-deny''])"

definition policy_deny :: "string \<Rightarrow> host_matcher" where
  "policy_deny role =
     (if role = Egress then \<lparr>hmType = DomainSuffix, hmValue = ''blocked-egress.gateway-origin.svc.cluster.local''\<rparr>
      else \<lparr>hmType = Exact, hmValue = ''blocked-workload.gateway-origin.svc.cluster.local''\<rparr>)"

definition fixture_hosts :: "host_matcher list" where
  "fixture_hosts = [\<lparr>hmType = DomainSuffix, hmValue = ''gateway-origin.svc.cluster.local''\<rparr>]"

definition httpMatch :: "string \<Rightarrow> policy_match" where
  "httpMatch path = \<lparr>pmHosts = fixture_hosts, pmRoute = HTTPRoute [''POST''] [path]\<rparr>"

definition rpc_match :: "string \<Rightarrow> policy_match" where
  "rpc_match method = \<lparr>pmHosts = fixture_hosts, pmRoute = GRPCRoute ''grpc.health.v1.Health'' [method]\<rparr>"

definition selectRequirements :: "requirement list" where
  "selectRequirements =
     concat (map (\<lambda>source.
       map (\<lambda>(n, op, vs). requires source (if source = HeaderSource then ''x-'' @ n else n) op vs)
         [(''in'', InValues, [''good'', []]), (''not'', NotInValues, [''bad'']), (''exists'', ExistsValue, [])])
       [HeaderSource, QuerySource]) @
     [payload ''/model'' InValues [''good'', []], payload ''/blocked'' NotInValues [''bad''],
      payload ''/items/0/a~1b~0'' ExistsValue [], payload ''/'' ExistsValue []]"

definition json_decoder :: decoder where
  "json_decoder = \<lparr>dcFormat = JSONFormat, dcDescriptorSet = None\<rparr>"

definition proto_decoder :: "artifact_ref \<Rightarrow> decoder" where
  "proto_decoder ref = \<lparr>dcFormat = ProtobufFormat, dcDescriptorSet = Some ref\<rparr>"

definition constrain :: "string \<Rightarrow> policy_match \<Rightarrow> decoder option \<Rightarrow> requirement list \<Rightarrow> policy_constraint" where
  "constrain n m d rs = \<lparr>pcName = n, pcMatch = m, pcDecode = d, pcRequire = rs\<rparr>"

definition rpc_view :: "string list \<Rightarrow> artifact_ref list \<Rightarrow> nat \<times> string \<Rightarrow> policy_constraint" where
  "rpc_view values refs = (\<lambda>(i, pointer).
     constrain (''rpc-view-'' @ show_int (int i)) (rpc_match ''Check'') (Some (proto_decoder (refs ! i)))
       [payload pointer InValues values, payload pointer NotInValues [''blocked''], payload pointer ExistsValue []])"

definition sharedPolicy :: "string \<Rightarrow> artifact_ref list \<Rightarrow> workload_policy" where
  "sharedPolicy role refs =
     (let values = policy_values role in
      \<lparr>HostDenylist = [policy_deny role],
       RequestConstraints =
        [constrain ''http-body'' (httpMatch ''/body'') (Some json_decoder) [payload ''/action'' InValues values],
         constrain ''http-selections'' (httpMatch ''/select'') (Some json_decoder) selectRequirements,
         constrain ''rpc-metadata'' (rpc_match ''Check'') None
           [requires GRPCMetadataSource ''x-role'' InValues [''reader'', []],
            requires GRPCMetadataSource ''x-not'' NotInValues [''bad''],
            requires GRPCMetadataSource ''x-exists'' ExistsValue []],
         constrain ''rpc-http-carrier'' (httpMatch ''/grpc.health.v1.Health/Check'') None
           [requires HeaderSource ''x-carrier'' NotInValues [''blocked'']],
         constrain ''rpc-stream'' (rpc_match ''Watch'') (Some (proto_decoder (refs ! 0))) [payload ''/service'' ExistsValue []]] @
        map (rpc_view values refs) (enumerate 0 [''/service'', ''/alias''])\<rparr>)"

section \<open>The artifacts\<close>

record message =
  msgName :: string
  jsonNames :: "string list" \<comment> \<open>of its fields\<close>

record descriptor_file =
  dfURL :: string
  dfDigest :: string
  dfPath :: string

record ext_config =
  ecRole :: string
  Descriptors :: "descriptor_file list"
  AllowedPeers :: "string list"

record config_map =
  cmName :: string
  cmData :: "(string \<times> string) list"
  BinaryData :: "(string \<times> bytes) list"

record fixture_lib =
  health_messages :: "message list" \<comment> \<open>of the health service's descriptor\<close>
  MarshalSet :: "message list \<Rightarrow> bytes option"
  sha256_hex :: "bytes \<Rightarrow> string"
  BuildExecution :: "workload_policy \<Rightarrow> string \<Rightarrow> bytes option"
  config_json :: "ext_config \<Rightarrow> json"
  policy_json :: "workload_policy \<Rightarrow> json"
  f_package :: policy_package

definition alias_view :: "message list \<Rightarrow> message list" where
  "alias_view ms = map (\<lambda>m. if msgName m = ''HealthCheckRequest'' then m\<lparr>jsonNames := (jsonNames m)[0 := ''alias'']\<rparr> else m) ms"

text \<open>One descriptor view: its reference, its entry of the extension configuration, its bytes.\<close>

definition add_view :: "fixture_lib \<Rightarrow> string \<Rightarrow>
    artifact_ref list \<times> ext_config \<times> config_map \<Rightarrow> (string, artifact_ref list \<times> ext_config \<times> config_map) result" where
  "add_view lib view = (\<lambda>(refs, cfg, cm).
     case MarshalSet lib (if view = ''alias'' then alias_view (health_messages lib) else health_messages lib) of
       None \<Rightarrow> Inl ''marshal descriptors''
     | Some raw \<Rightarrow>
         let name = view @ ''.pb'';
             ref = \<lparr>refURL = ''https://fixture.example/'' @ name, refDigest = ''sha256:'' @ sha256_hex lib raw\<rparr>
         in Inr (refs @ [ref],
              cfg\<lparr>Descriptors := Descriptors cfg @
                [\<lparr>dfURL = refURL ref, dfDigest = refDigest ref, dfPath = sharedDirectory @ ''/'' @ name\<rparr>]\<rparr>,
              cm\<lparr>BinaryData := AList.update name raw (BinaryData cm)\<rparr>))"

definition opa_document :: "fixture_lib \<Rightarrow> string \<Rightarrow> ext_config \<Rightarrow> json" where
  "opa_document lib role cfg = JObj
     [(''plugins'', JObj (AList.update ''envoy_ext_authz_grpc''
        (JObj [(''path'', JStr (DecisionPath (f_package lib))), (''skip-request-body-parse'', JBool True)])
        [(PluginName (f_package lib), config_json lib cfg)])),
      (''services'', JObj [(''fixture'', JObj [(''url'', JStr ''http://policy-publisher.gateway-test.svc:8085'')])]),
      (''bundles'', JObj [(''workload'', JObj
        [(''service'', JStr ''fixture''), (''resource'', JStr (''bundles/'' @ role)),
         (''polling'', JObj [(''min_delay_seconds'', number 1), (''max_delay_seconds'', number 1)])])]),
      (''status'', JObj [(''console'', JBool True)])]"

definition sharedArtifacts :: "fixture_lib \<Rightarrow> string \<Rightarrow> (string, config_map) result" where
  "sharedArtifacts lib role =
     bindR (foldR (add_view lib) [''service'', ''alias'']
       ([], \<lparr>ecRole = role, Descriptors = [], AllowedPeers = []\<rparr>, \<lparr>cmName = role @ ''-shared'', cmData = [], BinaryData = []\<rparr>))
     (\<lambda>(refs, cfg, cm).
       let cfg = (if role = Egress then cfg\<lparr>AllowedPeers := [''spiffe://cluster.local/ns/gateway-test/sa/workload'']\<rparr> else cfg);
           policy = sharedPolicy role refs
       in case BuildExecution lib policy (''fixture-'' @ role) of
            None \<Rightarrow> Inl ''build execution''
          | Some archive \<Rightarrow>
              Inr (cm\<lparr>BinaryData := AList.update ''workload.tar.gz'' archive (BinaryData cm),
                cmData := AList.update ''policy.json'' (Marshal (policy_json lib policy))
                  (AList.update ''opa.json'' (Marshal (opa_document lib role cfg)) (cmData cm))\<rparr>))"

section \<open>Attaching\<close>

definition attach_container :: "container \<Rightarrow> container" where
  "attach_container c =
     (if cName c \<noteq> ''istio-proxy'' then c
      else c\<lparr>Args := [], Env := Env c @ [plain_env EnvOPAConfig (sharedDirectory @ ''/opa.json'')],
             VolumeMounts := VolumeMounts c @ [config_mount ''gateway-shared'' sharedDirectory]\<rparr>)"

definition attachShared :: "config_map \<Rightarrow> pod \<Rightarrow> pod" where
  "attachShared cm p =
     (let s = Spec p in
      p\<lparr>Spec := s\<lparr>Volumes := Volumes s @ [config_volume ''gateway-shared'' (cmName cm)],
          InitContainers := map attach_container (InitContainers s),
          Containers := map attach_container (Containers s)\<rparr>\<rparr>)"

section \<open>Lemmas\<close>

text \<open>The descriptor entries agree with the references and with the files of the config map.\<close>

definition views_ok :: "fixture_lib \<Rightarrow> artifact_ref list \<times> ext_config \<times> config_map \<Rightarrow> bool" where
  "views_ok lib = (\<lambda>(refs, cfg, cm).
     map dfURL (Descriptors cfg) = map refURL refs \<and> map dfDigest (Descriptors cfg) = map refDigest refs \<and>
     (\<forall>d\<in>set (Descriptors cfg). \<exists>n raw. dfPath d = sharedDirectory @ ''/'' @ n @ ''.pb'' \<and>
        map_of (BinaryData cm) (n @ ''.pb'') = Some raw \<and> dfDigest d = ''sha256:'' @ sha256_hex lib raw))"

text \<open>A view whose file is not there yet leaves the other files as they are.\<close>

lemma add_view_ok:
  assumes "add_view lib view (refs, cfg, cm) = Inr (refs', cfg', cm')" "views_ok lib (refs, cfg, cm)"
    and "map_of (BinaryData cm) (view @ ''.pb'') = None"
  shows "views_ok lib (refs', cfg', cm')"
proof -
  obtain raw where raw: "MarshalSet lib (if view = ''alias'' then alias_view (health_messages lib) else health_messages lib) = Some raw"
    using assms(1) by (auto simp: add_view_def split: option.splits)
  let ?d = "\<lparr>dfURL = ''https://fixture.example/'' @ view @ ''.pb'', dfDigest = ''sha256:'' @ sha256_hex lib raw,
      dfPath = sharedDirectory @ ''/'' @ view @ ''.pb''\<rparr>"
  have s: "Descriptors cfg' = Descriptors cfg @ [?d]" "BinaryData cm' = AList.update (view @ ''.pb'') raw (BinaryData cm)"
    "map refURL refs' = map refURL refs @ [dfURL ?d]" "map refDigest refs' = map refDigest refs @ [dfDigest ?d]"
    using assms(1) unfolding add_view_def prod.case raw option.case Let_def by auto
  have keep: "map_of (BinaryData cm') k = Some x" if "map_of (BinaryData cm) k = Some x" for k x
    using that assms(3) unfolding s by (auto simp: update_conv)
  have new: "map_of (BinaryData cm') (view @ ''.pb'') = Some raw" unfolding s by (simp add: update_conv)
  have "\<exists>n raw. dfPath d = sharedDirectory @ ''/'' @ n @ ''.pb'' \<and>
        map_of (BinaryData cm') (n @ ''.pb'') = Some raw \<and> dfDigest d = ''sha256:'' @ sha256_hex lib raw"
    if "d \<in> set (Descriptors cfg')" for d
  proof (cases "d = ?d")
    case True
    then show ?thesis using new by auto
  next
    case False
    then have "d \<in> set (Descriptors cfg)" using that unfolding s by simp
    then show ?thesis using assms(2) keep unfolding views_ok_def by blast
  qed
  then show ?thesis using assms(2) s unfolding views_ok_def by simp
qed

lemma add_view_frame:
  assumes "add_view lib view (refs, cfg, cm) = Inr (refs', cfg', cm')"
  shows "ecRole cfg' = ecRole cfg" "AllowedPeers cfg' = AllowedPeers cfg" "cmData cm' = cmData cm" "cmName cm' = cmName cm"
    "length refs' = Suc (length refs)" "fst ` set (BinaryData cm') = insert (view @ ''.pb'') (fst ` set (BinaryData cm))"
  using assms by (clarsimp simp: add_view_def Let_def dom_update split: option.splits)+

lemma sharedArtifacts_Inr:
  assumes "sharedArtifacts lib role = Inr cm"
  obtains refs cfg cm0 archive where
    "views_ok lib (refs, cfg, cm0)" "length refs = 2" "BuildExecution lib (sharedPolicy role refs) (''fixture-'' @ role) = Some archive"
    "BinaryData cm = AList.update ''workload.tar.gz'' archive (BinaryData cm0)"
    "cmName cm = role @ ''-shared''" "ecRole cfg = role"
    "map_of (cmData cm) ''opa.json'' = Some (Marshal (opa_document lib role cfg))"
    "AllowedPeers cfg = (if role = Egress then [''spiffe://cluster.local/ns/gateway-test/sa/workload''] else [])"
proof -
  let ?cfg0 = "\<lparr>ecRole = role, Descriptors = [], AllowedPeers = []\<rparr>"
  let ?cm0 = "\<lparr>cmName = role @ ''-shared'', cmData = [], BinaryData = []\<rparr>"
  obtain r1 c1 m1 r2 c2 m2 where 1: "add_view lib ''service'' ([], ?cfg0, ?cm0) = Inr (r1, c1, m1)"
    and 2: "add_view lib ''alias'' (r1, c1, m1) = Inr (r2, c2, m2)"
    and rest: "(let cfg = (if role = Egress then c2\<lparr>AllowedPeers := [''spiffe://cluster.local/ns/gateway-test/sa/workload'']\<rparr> else c2);
           policy = sharedPolicy role r2
       in case BuildExecution lib policy (''fixture-'' @ role) of
            None \<Rightarrow> Inl ''build execution''
          | Some archive \<Rightarrow>
              Inr (m2\<lparr>BinaryData := AList.update ''workload.tar.gz'' archive (BinaryData m2),
                cmData := AList.update ''policy.json'' (Marshal (policy_json lib policy))
                  (AList.update ''opa.json'' (Marshal (opa_document lib role cfg)) (cmData m2))\<rparr>)) = Inr cm"
    using assms unfolding sharedArtifacts_def by (auto simp: result_simps simp del: split_paired_Ex)
  have "views_ok lib ([], ?cfg0, ?cm0)" by (simp add: views_ok_def)
  from add_view_ok [OF 1 this] have v1: "views_ok lib (r1, c1, m1)" by simp
  have "map_of (BinaryData m1) (''alias'' @ ''.pb'') = None"
    using add_view_frame(6) [OF 1] by (auto simp: map_of_eq_None_iff)
  from add_view_ok [OF 2 v1 this] have v2: "views_ok lib (r2, c2, m2)" .
  let ?cfg = "if role = Egress then c2\<lparr>AllowedPeers := [''spiffe://cluster.local/ns/gateway-test/sa/workload'']\<rparr> else c2"
  obtain archive where a: "BuildExecution lib (sharedPolicy role r2) (''fixture-'' @ role) = Some archive"
    and cm: "cm = m2\<lparr>BinaryData := AList.update ''workload.tar.gz'' archive (BinaryData m2),
                cmData := AList.update ''policy.json'' (Marshal (policy_json lib (sharedPolicy role r2)))
                  (AList.update ''opa.json'' (Marshal (opa_document lib role ?cfg)) (cmData m2))\<rparr>"
    using rest by (auto simp: Let_def split: option.splits)
  show thesis
  proof (rule that [of r2 ?cfg m2 archive])
    show "views_ok lib (r2, ?cfg, m2)" using v2 by (simp add: views_ok_def)
    show "map_of (cmData cm) ''opa.json'' = Some (Marshal (opa_document lib role ?cfg))" unfolding cm by (simp add: update_conv)
  qed (use a add_view_frame [OF 1] add_view_frame [OF 2] in \<open>simp_all add: cm\<close>)
qed

section \<open>Properties\<close>

lemma decode_opa_document:
  "\<exists>plugins. decode_plugins (Some (opa_document lib role cfg)) = Some plugins \<and>
     map_of plugins (PluginName (f_package lib)) \<noteq> None \<and>
     map_of plugins ''envoy_ext_authz_grpc'' =
       Some (JObj [(''path'', JStr (DecisionPath (f_package lib))), (''skip-request-body-parse'', JBool True)])"
proof -
  let ?p = "AList.update ''envoy_ext_authz_grpc''
        (JObj [(''path'', JStr (DecisionPath (f_package lib))), (''skip-request-body-parse'', JBool True)])
        [(PluginName (f_package lib), config_json lib cfg)]"
  have fold: "equal_fold ''plugins'' ''plugins''" "\<not> equal_fold ''services'' ''plugins''" "\<not> equal_fold ''bundles'' ''plugins''" "\<not> equal_fold ''status'' ''plugins''"
    by code_simp+
  have "sort_key fst [(''plugins'', a), (''services'', b), (''bundles'', c), (''status'', d)] =
      [(''bundles'', c), (''plugins'', a), (''services'', b), (''status'', d)]" for a b c d :: json
    by (simp add: insort_key_left_comm)
  then have "decode_plugins (Some (opa_document lib role cfg)) = Some (put_all id id ?p [])"
    by (simp add: decode_plugins_def opa_document_def plugins_step_def fold)
  moreover have "map_of (put_all id id ?p []) = map_of ?p" by (simp add: put_all_def)
  ultimately show ?thesis by (auto simp: update_conv)
qed

text \<open>
  The shared artifacts of a role are consistent: the OPA document enables the policy
  extension with the decision path of the policy package, every descriptor it refers to is a
  file of the same config map, at the path under which it will be mounted and with that
  file's digest, and only the egress names a peer it accepts.
\<close>

theorem shared_artifacts_are_consistent:
  assumes "sharedArtifacts lib role = Inr cm"
  shows "\<exists>cfg plugins. map_of (cmData cm) ''opa.json'' = Some (Marshal (opa_document lib role cfg)) \<and> ecRole cfg = role \<and>
    decode_plugins (Some (opa_document lib role cfg)) = Some plugins \<and> map_of plugins (PluginName (f_package lib)) \<noteq> None \<and>
    map_of plugins ''envoy_ext_authz_grpc'' =
      Some (JObj [(''path'', JStr (DecisionPath (f_package lib))), (''skip-request-body-parse'', JBool True)]) \<and>
    (\<forall>d\<in>set (Descriptors cfg). \<exists>n raw. dfPath d = sharedDirectory @ ''/'' @ n @ ''.pb'' \<and>
       map_of (BinaryData cm) (n @ ''.pb'') = Some raw \<and> dfDigest d = ''sha256:'' @ sha256_hex lib raw) \<and>
    length (Descriptors cfg) = 2 \<and> (AllowedPeers cfg = [] \<longleftrightarrow> role \<noteq> Egress)"
proof -
  obtain refs cfg cm0 archive where v: "views_ok lib (refs, cfg, cm0)" "length refs = 2"
    and b: "BinaryData cm = AList.update ''workload.tar.gz'' archive (BinaryData cm0)" and r: "ecRole cfg = role"
    and o: "map_of (cmData cm) ''opa.json'' = Some (Marshal (opa_document lib role cfg))"
    and p: "AllowedPeers cfg = (if role = Egress then [''spiffe://cluster.local/ns/gateway-test/sa/workload''] else [])"
    using assms by (rule sharedArtifacts_Inr)
  have "n @ ''.pb'' \<noteq> ''workload.tar.gz''" for n
  proof
    assume "n @ ''.pb'' = ''workload.tar.gz''"
    then have "last (n @ ''.pb'') = last ''workload.tar.gz''" by (simp only:)
    then show False by simp
  qed
  then have keep: "map_of (BinaryData cm0) (n @ ''.pb'') = map_of (BinaryData cm) (n @ ''.pb'')" for n
    unfolding b by (simp add: update_conv)
  have "\<forall>d\<in>set (Descriptors cfg). \<exists>n raw. dfPath d = sharedDirectory @ ''/'' @ n @ ''.pb'' \<and>
       map_of (BinaryData cm) (n @ ''.pb'') = Some raw \<and> dfDigest d = ''sha256:'' @ sha256_hex lib raw"
    using v(1) unfolding views_ok_def prod.case keep by blast
  moreover have "length (Descriptors cfg) = 2"
    using v unfolding views_ok_def prod.case by (metis length_map)
  moreover have "AllowedPeers cfg = [] \<longleftrightarrow> role \<noteq> Egress" using p by simp
  ultimately show ?thesis using decode_opa_document [of lib role cfg] o r by blast
qed

definition sample_lib :: fixture_lib where
  "sample_lib = \<lparr>health_messages = [\<lparr>msgName = ''HealthCheckRequest'', jsonNames = [''service'']\<rparr>],
     MarshalSet = (\<lambda>ms. Some (concat (concat (map jsonNames ms)))), sha256_hex = (\<lambda>raw. raw), BuildExecution = (\<lambda>p n. Some n),
     config_json = (\<lambda>c. JStr (ecRole c)), policy_json = (\<lambda>p. JNull), f_package = \<lparr>PluginName = ''p'', DecisionPath = ''d''\<rparr>\<rparr>"

lemma sample_artifacts: "sharedArtifacts sample_lib Egress = Inr (projr (sharedArtifacts sample_lib Egress))"
  by (simp add: sharedArtifacts_def add_view_def sample_lib_def Let_def)

theorem shared_artifacts_are_consistent_witness:
  "\<exists>cfg. map_of (cmData (projr (sharedArtifacts sample_lib Egress))) ''opa.json'' = Some (Marshal (opa_document sample_lib Egress cfg)) \<and>
     AllowedPeers cfg \<noteq> []"
  using shared_artifacts_are_consistent [OF sample_artifacts] by blast

end
