(* ===== verification/Fixture.thy ===== *)
theory Fixture
  imports DaemonMain EnrollmentContract SharedPolicy
begin

text \<open>
  \<^verbatim>\<open>cmd/gateway-e2e-compose/main.go\<close>: the static consumer of enrollment for the kind
  fixture.  \<open>compose\<close> reads the list of business resources and the enrollment options,
  composes the workload Pod and the egress Deployment, attaches the shared policy artifacts
  and emits policies before resources.  Decoding and encoding of YAML and JSON are the record
  \<open>manifests\<close> of parameters.  The lemmas show the order and completeness of the output and
  what the attached proxy is started with.
\<close>

section \<open>Resources\<close>

record item =
  iKind :: string
  iName :: string
  iNamespace :: string

record deployment =
  dTemplate :: pod
  dRest :: json

datatype 'p manifest =
    Untouched json
  | PodResource pod
  | DeploymentResource deployment
  | PolicyResource string string 'p \<comment> \<open>name, namespace and the policy whose specification it carries\<close>
  | ConfigMapResource config_map

record ('n, 'p) manifests =
  decode_items :: "bytes \<Rightarrow> (string, json list) result"
  decode_options :: "bytes \<Rightarrow> (string, (string \<times> 'n options) list) result"
  decode_identity :: "json \<Rightarrow> (string, item) result"
  decode_pod :: "json \<Rightarrow> (string, pod) result"
  decode_deployment :: "json \<Rightarrow> (string, deployment) result"
  encode_list :: "'p manifest list \<Rightarrow> (string, bytes) result"

datatype composing = ComposedPod pod | ComposedDeployment deployment

section \<open>Composition\<close>

text \<open>The business Pod of an item, if it has one: the workload Pod or the template of the egress Deployment.\<close>

definition business_of :: "('n, 'p) manifests \<Rightarrow> json \<Rightarrow> item \<Rightarrow> (string, composing option) result" where
  "business_of lib raw i =
     (if iKind i = ''Pod'' \<and> iName i = ''workload'' then
        bindR (decode_pod lib raw) (\<lambda>p. Inr (Some (ComposedPod p)))
      else if iKind i = ''Deployment'' \<and> iName i = ''egress'' then
        bindR (decode_deployment lib raw) (\<lambda>d. Inr (Some (ComposedDeployment d)))
      else Inr None)"

definition business_pod :: "item \<Rightarrow> composing \<Rightarrow> pod" where
  "business_pod i b =
     (case b of
        ComposedPod p \<Rightarrow> p
      | ComposedDeployment d \<Rightarrow>
          (dTemplate d)\<lparr>podRest := AList.update ''namespace'' (JStr (iNamespace i))
             (AList.update ''name'' (JStr (iName i)) (podRest (dTemplate d)))\<rparr>)"

definition composed_resource :: "composing \<Rightarrow> pod \<Rightarrow> 'p manifest" where
  "composed_resource b pod =
     (case b of
        ComposedPod p \<Rightarrow> PodResource pod
      | ComposedDeployment d \<Rightarrow>
          DeploymentResource (d\<lparr>dTemplate := (dTemplate d)\<lparr>Spec := Spec pod, Labels := Labels pod, Annotations := Annotations pod\<rparr>\<rparr>))"

type_synonym 'p emitted = "'p manifest list \<times> 'p manifest list \<times> string list"

definition compose_item :: "('n, 'p) manifests \<Rightarrow> fixture_lib \<Rightarrow> ('n, 'p) networking \<Rightarrow> (string \<times> 'n options) list \<Rightarrow>
    json \<Rightarrow> 'p emitted \<Rightarrow> (string, 'p emitted) result" where
  "compose_item lib flib net opts raw = (\<lambda>(policies, resources, seen).
     bindR (decode_identity lib raw) (\<lambda>i.
     bindR (business_of lib raw i) (\<lambda>business.
     case business of
       None \<Rightarrow> Inr (policies, resources @ [Untouched raw], seen)
     | Some b \<Rightarrow>
         (case map_of opts (iName i) of
            None \<Rightarrow> Inl ''missing/duplicate composition''
          | Some o' \<Rightarrow>
              refuse (iName i \<in> set seen) ''missing/duplicate composition''
             (case ComposePod net (Some (business_pod i b)) o' of
                Inl e \<Rightarrow> Inl ''ComposePod''
              | Inr (pod, policy) \<Rightarrow>
                  bindR (sharedArtifacts flib (oRole o')) (\<lambda>shared.
                  Inr (policies @ [PolicyResource (''gateway-'' @ iName i) (iNamespace i) policy, ConfigMapResource shared],
                       resources @ [composed_resource b (attachShared shared pod)],
                       seen @ [iName i])))))))"

definition compose :: "('n, 'p) manifests \<Rightarrow> fixture_lib \<Rightarrow> ('n, 'p) networking \<Rightarrow> bytes \<Rightarrow> bytes \<Rightarrow> (string, bytes) result" where
  "compose lib flib net raw opts =
     bindR (decode_items lib raw) (\<lambda>items.
     bindR (decode_options lib opts) (\<lambda>options.
     bindR (foldR (compose_item lib flib net options) items ([], [], [])) (\<lambda>(policies, resources, seen).
     refuse (''workload'' \<notin> set seen \<or> ''egress'' \<notin> set seen) ''both fixture roles required''
       (encode_list lib (policies @ resources)))))"

text \<open>\<^verbatim>\<open>run\<close>: two reads and one write to the standard output.\<close>

definition compose_run :: "('n, 'p) manifests \<Rightarrow> fixture_lib \<Rightarrow> ('n, 'p) networking \<Rightarrow> string \<Rightarrow> string \<Rightarrow> bytes io" where
  "compose_run lib flib net input options =
     bind_io (read_file input) (\<lambda>raw.
     bind_io (read_file options) (\<lambda>opts.
     case compose lib flib net raw opts of Inl e \<Rightarrow> raise (Text e) | Inr result \<Rightarrow> ret result))"

section \<open>What is emitted\<close>

text \<open>The policies and the resource one item gives.\<close>

definition item_emits :: "('n, 'p) manifests \<Rightarrow> fixture_lib \<Rightarrow> ('n, 'p) networking \<Rightarrow> (string \<times> 'n options) list \<Rightarrow>
    json \<Rightarrow> string list \<times> 'p manifest list \<times> 'p manifest \<Rightarrow> bool" where
  "item_emits lib flib net opts raw = (\<lambda>(names, policies, r).
     \<exists>i business. decode_identity lib raw = Inr i \<and> business_of lib raw i = Inr business \<and>
       (case business of
          None \<Rightarrow> names = [] \<and> policies = [] \<and> r = Untouched raw
        | Some b \<Rightarrow> names = [iName i] \<and> (iName i = ''workload'' \<or> iName i = ''egress'') \<and>
            (\<exists>o' pod policy shared. map_of opts (iName i) = Some o' \<and>
               ComposePod net (Some (business_pod i b)) o' = Inr (pod, policy) \<and> sharedArtifacts flib (oRole o') = Inr shared \<and>
               policies = [PolicyResource (''gateway-'' @ iName i) (iNamespace i) policy, ConfigMapResource shared] \<and>
               r = composed_resource b (attachShared shared pod))))"

lemma business_of_names: "business_of lib raw i = Inr (Some b) \<Longrightarrow> iName i = ''workload'' \<or> iName i = ''egress''"
  by (auto simp: business_of_def result_simps split: if_splits)

lemma compose_item_Inr:
  assumes "compose_item lib flib net opts raw (ps, rs, seen) = Inr (ps', rs', seen')"
  shows "\<exists>names qs r. item_emits lib flib net opts raw (names, qs, r) \<and> ps' = ps @ qs \<and> rs' = rs @ [r] \<and> seen' = seen @ names \<and>
    set names \<inter> set seen = {}"
proof -
  obtain i business where ib: "decode_identity lib raw = Inr i" "business_of lib raw i = Inr business"
    using assms by (auto simp: compose_item_def result_simps)
  show ?thesis
  proof (cases business)
    case None
    then show ?thesis
      using assms ib by (intro exI [of _ "[]"] exI [of _ "Untouched raw"]) (auto simp: compose_item_def item_emits_def)
  next
    case (Some b)
    have n: "iName i = ''workload'' \<or> iName i = ''egress''" using business_of_names ib(2) Some by blast
    note run = assms [unfolded compose_item_def prod.case ib bindR_simps Some option.case]
    obtain o' where o': "map_of opts (iName i) = Some o'" "iName i \<notin> set seen"
      using run by (auto simp: result_simps split: option.splits)
    obtain pod policy where c: "ComposePod net (Some (business_pod i b)) o' = Inr (pod, policy)"
      using run o' by (cases "ComposePod net (Some (business_pod i b)) o'") auto
    obtain shared where
      o: "map_of opts (iName i) = Some o'" "iName i \<notin> set seen"
        "ComposePod net (Some (business_pod i b)) o' = Inr (pod, policy)" "sharedArtifacts flib (oRole o') = Inr shared"
      and eq: "ps' = ps @ [PolicyResource (''gateway-'' @ iName i) (iNamespace i) policy, ConfigMapResource shared]"
        "rs' = rs @ [composed_resource b (attachShared shared pod)]" "seen' = seen @ [iName i]"
      using run o' c by (auto simp: result_simps)
    let ?qs = "[PolicyResource (''gateway-'' @ iName i) (iNamespace i) policy, ConfigMapResource shared]"
    have "item_emits lib flib net opts raw ([iName i], ?qs, composed_resource b (attachShared shared pod))"
      unfolding item_emits_def using ib Some n o(1,3,4) by auto
    moreover have "set [iName i] \<inter> set seen = {}" using o(2) by simp
    ultimately show ?thesis using eq by blast
  qed
qed

lemma compose_items_Inr:
  assumes "foldR (compose_item lib flib net opts) raws (ps, rs, seen) = Inr (ps', rs', seen')" "distinct seen"
  shows "\<exists>es. list_all2 (item_emits lib flib net opts) raws es \<and>
    ps' = ps @ concat (map (fst \<circ> snd) es) \<and> rs' = rs @ map (snd \<circ> snd) es \<and> seen' = seen @ concat (map fst es) \<and> distinct seen'"
  using assms
proof (induction raws arbitrary: ps rs seen)
  case Nil
  then show ?case by (intro exI [of _ "[]"]) simp
next
  case (Cons raw raws)
  obtain ps1 rs1 seen1 where 1: "compose_item lib flib net opts raw (ps, rs, seen) = Inr (ps1, rs1, seen1)"
    and 2: "foldR (compose_item lib flib net opts) raws (ps1, rs1, seen1) = Inr (ps', rs', seen')"
    using Cons.prems(1) by (auto simp: result_simps simp del: split_paired_Ex)
  obtain names qs r where e: "item_emits lib flib net opts raw (names, qs, r)" "ps1 = ps @ qs" "rs1 = rs @ [r]"
      "seen1 = seen @ names" "set names \<inter> set seen = {}"
    using compose_item_Inr [OF 1] by blast
  have "distinct names" using e(1) by (auto simp: item_emits_def split: option.splits)
  then have "distinct seen1" using e(4,5) Cons.prems(2) by auto
  from Cons.IH [OF 2 this] obtain es where es: "list_all2 (item_emits lib flib net opts) raws es"
    "ps' = ps1 @ concat (map (fst \<circ> snd) es)" "rs' = rs1 @ map (snd \<circ> snd) es" "seen' = seen1 @ concat (map fst es)" "distinct seen'"
    by blast
  show ?case by (rule exI [of _ "(names, qs, r) # es"]) (use e es in \<open>simp add: comp_def\<close>)
qed

lemma item_emits_names: "item_emits lib flib net opts raw e \<Longrightarrow> set (fst e) \<subseteq> {''workload'', ''egress''}"
  unfolding item_emits_def by (auto split: option.splits)

lemma items_emit_names: "list_all2 (item_emits lib flib net opts) raws es \<Longrightarrow> set (concat (map fst es)) \<subseteq> {''workload'', ''egress''}"
proof (induction rule: list_all2_induct)
  case (Cons raw raws e es)
  then show ?case using item_emits_names [OF Cons.hyps(1)] by simp
qed simp

lemma two_names:
  assumes "distinct xs" "set xs = {a, b}" "a \<noteq> b"
  shows "xs = [a, b] \<or> xs = [b, a]"
proof -
  have "length xs = 2" using assms distinct_card [OF assms(1)] by simp
  then obtain x y where "xs = [x, y]" by (auto simp: length_Suc_conv numeral_2_eq_2)
  then show ?thesis using assms(1,2) by (auto simp: doubleton_eq_iff)
qed

text \<open>
  C26: the output of the fixture composer is complete and ordered: every policy and shared
  config map comes before every resource, the workload and the egress are composed exactly
  once each, every item of the input gives exactly one resource at its place, and an item
  that is neither of the two is passed on untouched.
\<close>

theorem compose_orders_output:
  assumes "compose lib flib net raw opts = Inr out"
  shows "\<exists>raws options es. decode_items lib raw = Inr raws \<and> decode_options lib opts = Inr options \<and>
    list_all2 (item_emits lib flib net options) raws es \<and>
    encode_list lib (concat (map (fst \<circ> snd) es) @ map (snd \<circ> snd) es) = Inr out \<and>
    (let composed = concat (map fst es) in composed = [''workload'', ''egress''] \<or> composed = [''egress'', ''workload''])"
proof -
  obtain raws options policies resources seen where
    d: "decode_items lib raw = Inr raws" "decode_options lib opts = Inr options"
    and f: "foldR (compose_item lib flib net options) raws ([], [], []) = Inr (policies, resources, seen)"
    and b: "''workload'' \<in> set seen" "''egress'' \<in> set seen" "encode_list lib (policies @ resources) = Inr out"
    using assms unfolding compose_def by (auto simp: result_simps)
  obtain es where es: "list_all2 (item_emits lib flib net options) raws es"
    "policies = concat (map (fst \<circ> snd) es)" "resources = map (snd \<circ> snd) es" "seen = concat (map fst es)" "distinct seen"
    using compose_items_Inr [OF f] by auto
  have "set seen = {''workload'', ''egress''}" using b(1,2) items_emit_names [OF es(1)] unfolding es(4) by (intro equalityI) simp_all
  then have "seen = [''workload'', ''egress''] \<or> seen = [''egress'', ''workload'']"
    using two_names [OF es(5)] by simp
  then show ?thesis using d es(1) b(3) unfolding es(2-4) Let_def by blast
qed

section \<open>A concrete composition\<close>

definition sample_manifests :: "(unit, unit) manifests" where
  "sample_manifests =
     \<lparr>decode_items = \<lambda>_. Inr [JStr ''service'', JStr ''pod'', JStr ''deployment''],
      decode_options = \<lambda>_. Inr [(''workload'', sample_options), (''egress'', sample_options\<lparr>oRole := Egress, TrustMounts := []\<rparr>)],
      decode_identity = \<lambda>j. Inr (if j = JStr ''pod'' then \<lparr>iKind = ''Pod'', iName = ''workload'', iNamespace = ''n''\<rparr>
        else if j = JStr ''deployment'' then \<lparr>iKind = ''Deployment'', iName = ''egress'', iNamespace = ''n''\<rparr>
        else \<lparr>iKind = ''Service'', iName = ''s'', iNamespace = ''n''\<rparr>),
      decode_pod = \<lambda>_. Inr sample_pod, decode_deployment = \<lambda>_. Inr \<lparr>dTemplate = sample_pod, dRest = JNull\<rparr>,
      encode_list = \<lambda>rs. Inr (map (\<lambda>r. case r of PolicyResource n ns q \<Rightarrow> CHR ''p'' | ConfigMapResource cm \<Rightarrow> CHR ''c'' | Untouched j \<Rightarrow> CHR ''u''
        | PodResource q \<Rightarrow> CHR ''w'' | DeploymentResource d \<Rightarrow> CHR ''e'') rs)\<rparr>"

definition sample_networking :: "(unit, unit) networking" where
  "sample_networking = \<lparr>ExpandPolicy = \<lambda>_. Inr (), ExpandPod = \<lambda>p _ _. Inr p\<rparr>"

lemma sample_composed: "compose sample_manifests sample_lib sample_networking [] [] = Inr ''pcpcuwe''"
proof -
  let ?d = "sample_pod\<lparr>podRest := AList.update ''namespace'' (JStr ''n'') (AList.update ''name'' (JStr ''egress'') (podRest sample_pod))\<rparr>"
  let ?o = "sample_options\<lparr>oRole := Egress, TrustMounts := []\<rparr>"
  have "ok (assemble ?o ?d)" by code_simp
  then obtain p t where e: "assemble ?o ?d = Inr (p, t)" by (auto simp: ok_iff)
  have "\<exists>cm. sharedArtifacts sample_lib role = Inr cm" for role
    by (simp add: sharedArtifacts_def add_view_def sample_lib_def Let_def)
  then obtain cm where cm: "\<And>role. sharedArtifacts sample_lib role = Inr (cm role)" by metis
  obtain p1 t1 where s: "assemble sample_options sample_pod = Inr (p1, t1)" using sample_assembles by blast
  show ?thesis
    using e by (simp add: compose_def sample_manifests_def compose_item_def business_of_def business_pod_def ComposePod_def
        s sample_networking_def network_error_def cm composed_resource_def)
qed

theorem compose_orders_output_witness:
  "\<exists>es :: (string list \<times> unit manifest list \<times> unit manifest) list. length es = 3 \<and> encode_list sample_manifests (concat (map (fst \<circ> snd) es) @ map (snd \<circ> snd) es) = Inr ''pcpcuwe''"
proof -
  obtain raws es where "decode_items sample_manifests [] = Inr raws" "list_all2 (item_emits sample_manifests sample_lib sample_networking
      [(''workload'', sample_options), (''egress'', sample_options\<lparr>oRole := Egress, TrustMounts := []\<rparr>)]) raws es"
    "encode_list sample_manifests (concat (map (fst \<circ> snd) es) @ map (snd \<circ> snd) es) = Inr ''pcpcuwe''"
    using compose_orders_output [OF sample_composed] by (auto simp: sample_manifests_def)
  then have "length es = 3" by (auto simp: sample_manifests_def dest: list_all2_lengthD)
  then show ?thesis
    using \<open>encode_list sample_manifests (concat (map (fst \<circ> snd) es) @ map (snd \<circ> snd) es) = Inr ''pcpcuwe''\<close> by blast
qed

end
