(* ===== verification/EndToEnd.thy ===== *)
theory EndToEnd
  imports DaemonMain
begin

text \<open>
  \<^verbatim>\<open>cmd/gateway-e2e/main.go\<close>: the command line of the end-to-end driver, up to the
  call of the test environment, which is test code and appears as the chosen action.
  \<^verbatim>\<open>filepath.Abs\<close> depends on the working directory and is a parameter.
\<close>

record environment =
  Root :: string
  Cluster :: string
  e2eImage :: string
  Artifacts :: string
  e2eStateDir :: string
  Kubeconfig :: string

datatype e2e_action = RunSuite bool string \<comment> \<open>over the existing cluster; tags\<close> | BringUp | BringDown

definition e2e_flags :: "(string \<times> string) list" where
  "e2e_flags =
     [(''mode'', ''run''), (''root'', ''.''), (''cluster'', ''gateway-e2e-local''), (''image'', ''egress-gateway:e2e''),
      (''artifacts'', ''.e2e/artifacts''), (''state'', ''.e2e/state''), (''tags'', [])]"

definition e2e_action_of :: "string \<Rightarrow> string \<Rightarrow> (string, e2e_action) result" where
  "e2e_action_of mode tags =
     (if mode = ''run'' then Inr (RunSuite False tags)
      else if mode = ''up'' then Inr BringUp
      else if mode = ''test'' then Inr (RunSuite True tags)
      else if mode = ''down'' then Inr BringDown
      else Inl ''mode must be run, up, test, or down'')"

definition e2e_run :: "(string \<Rightarrow> (string, string) result) \<Rightarrow> string list \<Rightarrow> (string, environment \<times> e2e_action) result" where
  "e2e_run absolute args =
     (case parse_flags e2e_flags args of
        Inl e \<Rightarrow> Inl ''flags''
      | Inr (vals, rest) \<Rightarrow>
          (let get = \<lambda>n. the (map_of vals n) in
           refuse (rest \<noteq> []) ''unexpected arguments''
          (bindR (absolute (get ''root'')) (\<lambda>root.
           bindR (absolute (get ''artifacts'')) (\<lambda>artifacts.
           bindR (absolute (get ''state'')) (\<lambda>state.
           bindR (e2e_action_of (get ''mode'') (get ''tags'')) (\<lambda>act.
           Inr (\<lparr>Root = root, Cluster = get ''cluster'', e2eImage = get ''image'', Artifacts = artifacts, e2eStateDir = state,
                  Kubeconfig = join_path [state, ''kubeconfig'']\<rparr>, act))))))))"

text \<open>Every flag has a value whatever was parsed, and an accepted command line names one of the four modes.\<close>

lemma e2e_values:
  assumes "parse_flags e2e_flags args = Inr (vals, rest)" "n \<in> fst ` set e2e_flags"
  shows "map_of vals n \<noteq> None"
  using parse_flags_dom [OF assms(1)] assms(2) by (simp add: map_of_eq_None_iff)

lemma e2e_run_default: "ok (absolute ''.'') \<Longrightarrow> ok (absolute ''.e2e/artifacts'') \<Longrightarrow> ok (absolute ''.e2e/state'') \<Longrightarrow>
    \<exists>env. e2e_run absolute [] = Inr (env, RunSuite False []) \<and> Cluster env = ''gateway-e2e-local''"
  by (auto simp: e2e_run_def e2e_flags_def e2e_action_of_def ok_iff)

end
