(* ===== verification/Spec2Isabelle.thy ===== *)
theory Spec2Isabelle
  imports SecretStreams Fixture EndToEnd
begin

text \<open>
  A verification development of the egress gateway: a daemon that supervises an Envoy proxy
  behind an embedded Open Policy Agent, keeps an inspection certificate authority and serves
  leaf certificates to the proxy, and the enrollment code that composes a business Pod with
  the daemon's containers.

  \<^bold>\<open>The program and its parts.\<close>  \<^verbatim>\<open>cmd/gateway-daemon\<close> reads the command line and the
  environment (\<^verbatim>\<open>config\<close>) and runs \<^verbatim>\<open>internal/daemon\<close>: it locks the runtime
  directory, writes the request guards (\<^verbatim>\<open>internal/request\<close>), opens the authority and
  starts the certificate service (\<^verbatim>\<open>internal/inspection\<close>), prepares the configuration of
  OPA and starts it, prepares Envoy's bootstrap, starts the proxy and supervises all of them.
  \<^verbatim>\<open>enrollment\<close> composes Pods; \<^verbatim>\<open>cmd/gateway-e2e-compose\<close> is its static
  consumer for the test fixture and \<^verbatim>\<open>cmd/gateway-e2e\<close> the command line of the
  end-to-end driver.

  \<^bold>\<open>Theories.\<close>
  \<^item> \<open>Prelude\<close>, \<open>GoText\<close>, \<open>GoPath\<close>: error results, loops with early return, and the string
    and path functions of Go's standard library that the program calls.
  \<^item> \<open>Tracing\<close> (\<^verbatim>\<open>config/tracing.go\<close>) and \<open>Config\<close> (\<^verbatim>\<open>config/config.go\<close>):
    \<open>LoadTracing\<close>, \<open>Load\<close>, \<open>Validate\<close> over an environment; the record \<open>config\<close> is
    \<^verbatim>\<open>Config\<close>.
  \<^item> \<open>X509\<close>, \<open>Leaf\<close> (\<^verbatim>\<open>internal/inspection/leaf.go\<close>), \<open>SDS\<close> and \<open>SecretStreams\<close>
    (\<^verbatim>\<open>internal/inspection/sds.go\<close>): server names, leaf certificates, and the certificate
    service as a step relation \<open>sds_step\<close> over the record \<open>server\<close>; one step is one section of
    the code under the server's mutex.
  \<^item> \<open>FileSystem\<close>, \<open>CAStore\<close> (\<^verbatim>\<open>internal/inspection/ca.go\<close>): programs over a file system
    in which every system call may fail or be the last one before a kill; the authority's
    store and the trust bundle.
  \<^item> \<open>Json\<close>, \<open>RequestGuard\<close> (\<^verbatim>\<open>internal/request\<close>), \<open>RuntimeFiles\<close>, \<open>EnvoyBootstrap\<close>
    (\<^verbatim>\<open>internal/daemon/envoy.go\<close>), \<open>OpaConfig\<close> (\<^verbatim>\<open>internal/daemon/tracing.go\<close>,
    \<^verbatim>\<open>internal/daemon/opa.go\<close>): JSON documents and their edits, the Lua guard, and the two
    configuration writers of the daemon.
  \<^item> \<open>DaemonSetup\<close>, \<open>Supervisor\<close>, \<open>DaemonRun\<close>, \<open>Readiness\<close>
    (\<^verbatim>\<open>internal/daemon/daemon.go\<close>): \<^verbatim>\<open>Run\<close> up to the start of OPA as a program over the
    file system (\<open>prepare_run\<close>), the rest of \<^verbatim>\<open>Run\<close> as the state machine \<open>sup_step\<close> over
    the record \<open>sup\<close>, whose field \<open>defers\<close> is the stack of deferred calls, \<open>daemon_run\<close> both
    together, and the health checks over the record \<open>network\<close>.  \<open>DaemonMain\<close> is \<^verbatim>\<open>cmd/gateway-daemon/main.go\<close>.
  \<^item> \<open>Pods\<close>, \<open>Enrollment\<close>, \<open>EnrollmentContract\<close> (\<^verbatim>\<open>enrollment/compose.go\<close>,
    \<^verbatim>\<open>enrollment/managed.json\<close>): \<open>assemble\<close> and \<open>ComposePod\<close> over records of the
    Kubernetes fields that the code touches.
  \<^item> \<open>SharedPolicy\<close>, \<open>Fixture\<close>, \<open>EndToEnd\<close> (\<^verbatim>\<open>cmd/gateway-e2e-compose\<close>,
    \<^verbatim>\<open>cmd/gateway-e2e\<close>): the fixture's policy artifacts, its composer, and the driver's
    command line.

  \<^bold>\<open>What the lemmas show.\<close>  Of the configuration: the accepted inputs are exactly those
  of the contract, private directories are disjoint from the public one.  Of the authority:
  opening it never replaces a file whatever is interrupted, and what it returns can sign.  Of
  the certificate service: every interleaving keeps its bounds, the cache refines a recency
  list, evictions are notified.  Of the guard and the bootstrap: a forwarded request has one
  bound target, authorization fails closed, private endpoints stay private, the rest of a
  bootstrap is preserved.  Of a run: setup owns its directories or releases them on every
  error path, a second daemon on the same directory is refused, the proxy runs only after a healthy policy check and on a prepared bootstrap,
  everything that is up has its deferred call pending, a return ends and leaves nothing
  behind.  Of enrollment: no business container reaches the Gateway, the composed Pod is
  well-formed, and what enrollment writes (environment, arguments, mounts, trust commands) is
  what the daemon reads; this last group spans components and stands in this theory.

  \<^bold>\<open>Interfaces.\<close>  Each locale states what a client relies on and is interpreted on the
  model: directory containment (\<open>Config\<close>), server name checks (\<open>Leaf\<close>, again in
  \<open>RequestGuard\<close>), the recency cache (\<open>SDS\<close>), atomic publication (\<open>CAStore\<close>), and edits of a
  document (\<open>Json\<close>, interpreted in \<open>EnvoyBootstrap\<close> from the innermost edit outwards).
  Programs over the file system are specified by \<open>spec\<close> (success, error and kill), lock
  ownership by \<open>takes\<close> and \<open>releases\<close>.

  \<^bold>\<open>Bounds and fuel.\<close>  The trust bundle is read with as much fuel as its length, which is
  enough when PEM decoding returns a proper rest; symbolic links are followed at most as often
  as the operating system does; a temporary file has the 10000 tries of \<^verbatim>\<open>os.CreateTemp\<close>;
  a return takes at most 13 deferred steps, which is proved from the number of deferred calls.

  \<^bold>\<open>Parameters.\<close>  Code outside the repository is an argument: cryptography, PEM and X.509
  (\<open>crypto\<close>), the JSON form of the authority's state (\<open>codec\<close>), \<^verbatim>\<open>url.Parse\<close> and
  \<^verbatim>\<open>strconv.ParseFloat\<close> (\<open>golib\<close>), YAML decoding, the OPA runtime and the policy package
  (\<open>host\<close>, \<open>policy_package\<close>), the networking module (\<open>networking\<close>), the answers of the network
  (\<open>network\<close>), protobuf, SHA-256 and manifest encoding for the fixture (\<open>fixture_lib\<close>,
  \<open>manifests\<close>).

  \<^bold>\<open>Not modelled.\<close>  \<^verbatim>\<open>internal/opa\<close> and \<^verbatim>\<open>cmd/gateway-opa\<close> only
  hand over to third-party code; the process attributes of \<^verbatim>\<open>process_linux.go\<close> and
  \<^verbatim>\<open>process_darwin.go\<close> have no counterpart in the model of a service; the example upstream
  is a test server; \<^verbatim>\<open>test\<close> is test code.  Time appears as the freedom of a step to be
  taken, not as a clock, except where the code computes with it.  Printing and exit codes of
  the \<^verbatim>\<open>main\<close> functions are left out.
\<close>

section \<open>Enrollment and the daemon\<close>

lemma managed_proxy:
  assumes "assemble o' b = Inr (p, t)" "c \<in> set (tInit t @ tContainers t)" "cName c = ''istio-proxy''"
  obtains env where "foldR add_env (ProxyEnv o') (proxyEnv o') = Inr env" "Env c = env"
    "Args c = concat (policy_part o' [''--policy'', ''/etc/gateway/policy/policy.rego''])"
    "oRole o' = Workload \<or> oRole o' = Egress"
proof -
  obtain env cs where role: "oRole o' = Workload \<or> oRole o' = Egress"
    and env: "foldR add_env (ProxyEnv o') (proxyEnv o') = Inr env" and t: "t = managed_part o' env"
    using assms(1) by (rule assemble_Inr)
  have "Env c = env \<and> Args c = concat (policy_part o' [''--policy'', ''/etc/gateway/policy/policy.rego''])"
    using assms(2,3) unfolding t by (auto simp: managed_part_def proxy_container_def split: if_splits)
  then show thesis using that [OF env _ _ role] by blast
qed

lemma policy_part_args:
  "policy_args (concat (policy_part o' [''--policy'', f])) = Some (policy_part o' f)"
  by (simp add: policy_part_def)

text \<open>
  C21: the proxy container that enrollment produces, started in its environment with its
  arguments, is the daemon of the enrolled role: the command line serves the configuration
  that the environment encodes, with the caller's policy and no other; its probe command
  checks the readiness of that same configuration.
\<close>

theorem enrolled_proxy_is_served:
  assumes "assemble o' b = Inr (p, t)" "c \<in> set (tInit t @ tContainers t)" "cName c = ''istio-proxy''"
    and "LoadTracing lib (env_lookup r (Env c)) = Inr tr"
  shows "dispatch lib (env_lookup r (Env c)) (Args c) =
      Inr (Serve (enrolled_config (oRole o') tr) (policy_part o' ''/etc/gateway/policy/policy.rego'')) \<and>
    dispatch lib (env_lookup r (Env c)) [''ready''] = Inr (ReadyMode (enrolled_config (oRole o') tr))"
proof -
  obtain env where e: "foldR add_env (ProxyEnv o') (proxyEnv o') = Inr env" "Env c = env"
    "Args c = concat (policy_part o' [''--policy'', ''/etc/gateway/policy/policy.rego''])" "oRole o' = Workload \<or> oRole o' = Egress"
    using assms(1-3) by (rule managed_proxy)
  have l: "Load lib (env_lookup r env) = Inr (enrolled_config (oRole o') tr)"
    using enrolled_loads [OF e(1,4), of lib r] assms(4) e(2) by simp
  have "Args c \<noteq> [''ready'']" "Args c = [] \<or> hd (Args c) \<noteq> ''trust-init''" unfolding e(3) by (simp_all add: policy_part_def)
  moreover have "policy_args (Args c) = Some (policy_part o' ''/etc/gateway/policy/policy.rego'')"
    unfolding e(3) by (rule policy_part_args)
  ultimately show ?thesis unfolding dispatch_def e(2) l by auto
qed

text \<open>
  The fixture's shared policy reaches the daemon: an enrolled proxy to which the shared
  artifacts are attached serves the same configuration but for the OPA document of the
  mounted config map, and without startup policies, which the policy extension would refuse.
\<close>

theorem attached_proxy_serves_shared_policy:
  assumes "assemble o' b = Inr (p, t)" "c \<in> set (tInit t @ tContainers t)" "cName c = ''istio-proxy''"
    and "LoadTracing lib (env_lookup r (Env (attach_container c))) = Inr tr"
  shows "dispatch lib (env_lookup r (Env (attach_container c))) (Args (attach_container c)) =
      Inr (Serve ((enrolled_config (oRole o') tr)\<lparr>OPAConfig := ''/etc/gateway/shared/opa.json''\<rparr>) []) \<and>
    config_mount ''gateway-shared'' ''/etc/gateway/shared'' \<in> set (VolumeMounts (attach_container c)) \<and>
    distinct (map eName (Env (attach_container c)))"
proof -
  obtain env where e: "foldR add_env (ProxyEnv o') (proxyEnv o') = Inr env" "Env c = env" "oRole o' = Workload \<or> oRole o' = Egress"
    using assms(1-3) by (rule managed_proxy)
  let ?f = "''/etc/gateway/shared/opa.json''"
  let ?env = "env @ [plain_env EnvOPAConfig ?f]"
  have a: "attach_container c = c\<lparr>Args := [], Env := ?env, VolumeMounts := VolumeMounts c @ [config_mount ''gateway-shared'' sharedDirectory]\<rparr>"
    using assms(3) e(2) by (simp add: attach_container_def sharedDirectory_def)
  have other: "env_lookup r ?env n = env_lookup r env n" if "n \<noteq> EnvOPAConfig" for n
    by (rule env_lookup_append) (use that in \<open>simp add: plain_env_def\<close>)
  note lookups = enrolled_lookups [OF e(1), of r]
  have ne: "''GATEWAY_WORKLOAD_CONFIG'' \<noteq> EnvOPAConfig" "EnvRole \<noteq> EnvOPAConfig" "EnvProxyMode \<noteq> EnvOPAConfig" "EnvIdentityProvider \<noteq> EnvOPAConfig"
    "EnvEnvoyConfig \<noteq> EnvOPAConfig" "EnvStateDir \<noteq> EnvOPAConfig" "EnvPublicDir \<noteq> EnvOPAConfig" "EnvRuntimeDir \<noteq> EnvOPAConfig"
    by (simp_all add: EnvRole_def EnvProxyMode_def EnvIdentityProvider_def EnvOPAConfig_def EnvEnvoyConfig_def EnvStateDir_def EnvPublicDir_def EnvRuntimeDir_def)
  have "env_lookup r ?env EnvOPAConfig = (?f, True)" by (rule env_lookup_snoc)
  then have opa: "env_value (env_lookup r ?env) EnvOPAConfig (''/etc/gateway/opa/'' @ oRole o' @ ''.yaml'') = Inr ?f"
    by (simp add: env_value_def)
  have valid: "Validate ((enrolled_config (oRole o') tr)\<lparr>OPAConfig := ?f\<rparr>) = Inr ()" for tr
  proof -
    have "Validate ((enrolled_config Workload None)\<lparr>OPAConfig := ?f\<rparr>) = Inr ()" "Validate ((enrolled_config Egress None)\<lparr>OPAConfig := ?f\<rparr>) = Inr ()"
      by code_simp+
    moreover have "(enrolled_config (oRole o') tr)\<lparr>OPAConfig := ?f\<rparr> = ((enrolled_config (oRole o') None)\<lparr>OPAConfig := ?f\<rparr>)\<lparr>Tracing := tr\<rparr>"
      by (simp add: enrolled_config_def)
    ultimately show ?thesis using e(3) Validate_tracing [of tr "(enrolled_config (oRole o') None)\<lparr>OPAConfig := ?f\<rparr>"] by (elim disjE) simp_all
  qed
  have n: "oRole o' \<noteq> []" using e(3) by (auto simp: Workload_def Egress_def)
  have "Load lib (env_lookup r ?env) = Inr ((enrolled_config (oRole o') tr)\<lparr>OPAConfig := ?f\<rparr>)"
    using Load_enrolled [OF _ _ _ _ _ _ _ _ opa n valid, of lib] lookups(1-4,6-9) other [OF ne(1)] other [OF ne(2)] other [OF ne(3)] other [OF ne(4)]
      other [OF ne(5)] other [OF ne(6)] other [OF ne(7)] other [OF ne(8)] assms(4) a by simp
  moreover have "distinct (map eName ?env)"
  proof -
    have d: "distinct (map eName (proxyEnv o'))" by (simp add: proxyEnv_def plain_env_def field_env_def EnvRole_def EnvProxyMode_def)
    have "EnvOPAConfig \<notin> set (map eName (proxyEnv o'))"
      by (simp add: proxyEnv_def plain_env_def field_env_def EnvRole_def EnvProxyMode_def EnvOPAConfig_def)
    moreover have "\<forall>x\<in>set (ProxyEnv o'). eName x \<noteq> EnvOPAConfig"
      using add_env_all [OF e(1)] unfolding gateway_env_def EnvOPAConfig_def by blast
    ultimately have "EnvOPAConfig \<notin> set (map eName env)" using add_env_all [OF e(1)] by auto
    moreover have "distinct (map eName env)" using add_env_all [OF e(1)] d by blast
    ultimately show ?thesis by (simp add: plain_env_def)
  qed
  ultimately show ?thesis unfolding a dispatch_def by (simp add: sharedDirectory_def)
qed

text \<open>
  The command of the managed trust container is understood by the daemon, and the files
  fit together across containers: it reads the base bundle that the base container writes
  from the caller's trust path, the published certificate at its name on the public volume,
  and writes the bundle that applications mount from the shared volume.
\<close>

theorem trust_containers_fit:
  "dispatch lib l (tl (Command trust_init)) = Inr (TrustInit (drop 2 (Command trust_init))) \<and>
   trust_flags (drop 2 (Command trust_init)) =
     Inr (''/bundle/base.pem'', join_path [''/public'', CACertificateFile], join_path [''/bundle'', BundleFile]) \<and>
   Command (with_image o' base_trust) = [''/bin/cp'', TrustPath o', ''/bundle/base.pem''] \<and>
   {managed_mount ''bundle'' ''/bundle'' False, managed_mount ''public'' ''/public'' True} = set (VolumeMounts trust_init) \<and>
   managed_mount ''bundle'' ''/bundle'' False \<in> set (VolumeMounts base_trust) \<and>
   mName (trust_mount path) = ''bundle'' \<and> SubPath (trust_mount path) = BundleFile"
proof -
  have "trust_flags (drop 2 (Command trust_init)) =
     Inr (''/bundle/base.pem'', join_path [''/public'', CACertificateFile], join_path [''/bundle'', BundleFile])" by code_simp
  moreover have "hd (tl (Command trust_init)) = ''trust-init''" "tl (Command trust_init) \<noteq> []" "tl (tl (Command trust_init)) = drop 2 (Command trust_init)"
    by (simp_all add: trust_init_def)
  ultimately show ?thesis
    by (simp add: dispatch_def with_image_def base_trust_def trust_mount_def) (simp add: trust_init_def)
qed

section \<open>Witnesses\<close>

theorem enrolled_proxy_is_served_witness:
  "dispatch plain_lib (env_lookup (\<lambda>_. ''x'') (Env (tInit (snd sample_assembled) ! 2))) [''ready''] = Inr (ReadyMode (enrolled_config Workload None))"
  using enrolled_proxy_is_served [OF sample_assembles sample_proxy sample_tracing] by (simp add: sample_role)

theorem attached_proxy_serves_shared_policy_witness:
  "config_mount ''gateway-shared'' ''/etc/gateway/shared'' \<in> set (VolumeMounts (attach_container (tInit (snd sample_assembled) ! 2)))"
proof -
  have "LoadTracing plain_lib (env_lookup (\<lambda>_. ''x'') (Env (attach_container (tInit (snd sample_assembled) ! 2)))) = Inr None" by code_simp
  from attached_proxy_serves_shared_policy [OF sample_assembles sample_proxy this] show ?thesis by blast
qed

end
